(* ===== verification/Mmc_Prelude.thy ===== *)
theory Mmc_Prelude
  imports Main "HOL-Library.Word" "HOL-Library.Monad_Syntax"
begin

text \<open>
  The prelude of the development: the machine types of the extension, the constants of
  \<^verbatim>\<open>src/memcache_pool.h\<close> that several components share, C's memory-block operations on
  lists, and the generic lemmas and fact collections the component theories use.

  A C \<^verbatim>\<open>char\<close> is a byte, modelled as an 8-bit word, so every buffer, key and protocol
  line is a list of bytes; \<open>bytes\<close> turns an Isabelle string literal into one.
\<close>

unbundle bit_operations_syntax

type_synonym u8 = "8 word"
type_synonym u16 = "16 word"
type_synonym u32 = "32 word"
type_synonym u64 = "64 word"
type_synonym buf = "8 word list"

named_theorems mmc_consts \<open>definitions of the constants of the header files\<close>
named_theorems mmc_eval \<open>definitions unfolded when a concrete run is evaluated\<close>

subsection \<open>Text as bytes\<close>

definition bytes :: "string \<Rightarrow> buf" where
  "bytes s = map of_char s"

lemma length_bytes [simp]: "length (bytes s) = length s"
  by (simp add: bytes_def)

lemma bytes_Nil [simp]: "bytes [] = []"
  by (simp add: bytes_def)

lemma bytes_append: "bytes (s @ t) = bytes s @ bytes t"
  by (simp add: bytes_def)

subsection \<open>Status codes of requests and streams (memcache\_pool.h)\<close>

definition MMC_OK :: int where [mmc_consts]: "MMC_OK = 0"
definition MMC_REQUEST_FAILURE :: int where [mmc_consts]: "MMC_REQUEST_FAILURE = -1"
definition MMC_REQUEST_DONE :: int where [mmc_consts]: "MMC_REQUEST_DONE = 0"
definition MMC_REQUEST_MORE :: int where [mmc_consts]: "MMC_REQUEST_MORE = 1"
definition MMC_REQUEST_AGAIN :: int where [mmc_consts]: "MMC_REQUEST_AGAIN = 2"
definition MMC_REQUEST_RETRY :: int where [mmc_consts]: "MMC_REQUEST_RETRY = 3"

definition MMC_STATUS_FAILED :: int where [mmc_consts]: "MMC_STATUS_FAILED = -1"
definition MMC_STATUS_DISCONNECTED :: int where [mmc_consts]: "MMC_STATUS_DISCONNECTED = 0"
definition MMC_STATUS_UNKNOWN :: int where [mmc_consts]: "MMC_STATUS_UNKNOWN = 1"
definition MMC_STATUS_CONNECTED :: int where [mmc_consts]: "MMC_STATUS_CONNECTED = 2"

definition MMC_RESPONSE_UNKNOWN :: int where [mmc_consts]: "MMC_RESPONSE_UNKNOWN = -2"
definition MMC_RESPONSE_ERROR :: int where [mmc_consts]: "MMC_RESPONSE_ERROR = -1"
definition MMC_RESPONSE_NOT_FOUND :: int where [mmc_consts]: "MMC_RESPONSE_NOT_FOUND = 1"
definition MMC_RESPONSE_EXISTS :: int where [mmc_consts]: "MMC_RESPONSE_EXISTS = 2"
definition MMC_RESPONSE_TOO_LARGE :: int where [mmc_consts]: "MMC_RESPONSE_TOO_LARGE = 3"
definition MMC_RESPONSE_NOT_STORED :: int where [mmc_consts]: "MMC_RESPONSE_NOT_STORED = 5"
definition MMC_RESPONSE_CLIENT_ERROR :: int where [mmc_consts]: "MMC_RESPONSE_CLIENT_ERROR = 6"
definition MMC_RESPONSE_UNKNOWN_CMD :: int where [mmc_consts]: "MMC_RESPONSE_UNKNOWN_CMD = 129"
definition MMC_RESPONSE_OUT_OF_MEMORY :: int where [mmc_consts]: "MMC_RESPONSE_OUT_OF_MEMORY = 130"

definition MMC_MAX_KEY_LEN :: nat where [mmc_consts]: "MMC_MAX_KEY_LEN = 250"
definition MMC_MAX_UDP_LEN :: nat where [mmc_consts]: "MMC_MAX_UDP_LEN = 1400"
definition MMC_BUFFER_SIZE :: nat where [mmc_consts]: "MMC_BUFFER_SIZE = 4096"

subsection \<open>C's memory blocks on lists\<close>

text \<open>\<^verbatim>\<open>memmove(xs + dst, xs + src, n)\<close> on one array, all offsets in elements.\<close>

definition memmove :: "'a list \<Rightarrow> nat \<Rightarrow> nat \<Rightarrow> nat \<Rightarrow> 'a list" where
  "memmove xs dst src n = take dst xs @ take n (drop src xs) @ drop (dst + n) xs"

lemma length_memmove:
  "dst + n \<le> length xs \<Longrightarrow> src + n \<le> length xs \<Longrightarrow> length (memmove xs dst src n) = length xs"
  by (simp add: memmove_def)

lemma nth_memmove:
  "dst + n \<le> length xs \<Longrightarrow> src + n \<le> length xs \<Longrightarrow> i < length xs \<Longrightarrow>
   memmove xs dst src n ! i =
     (if i < dst then xs ! i else if i < dst + n then xs ! (src + (i - dst)) else xs ! i)"
  by (auto simp: memmove_def nth_append)

text \<open>\<^verbatim>\<open>memcpy(dst, src, n)\<close> into the front of another array.\<close>

definition memcpy :: "'a list \<Rightarrow> 'a list \<Rightarrow> nat \<Rightarrow> 'a list" where
  "memcpy dst src n = take n src @ drop n dst"

text \<open>\<^verbatim>\<open>erealloc\<close>: grows with cells of unknown content (the value \<open>x\<close>) or shrinks.\<close>

definition realloc :: "'a \<Rightarrow> 'a list \<Rightarrow> nat \<Rightarrow> 'a list" where
  "realloc x xs n = take n xs @ replicate (n - length xs) x"

lemma length_realloc [simp]: "length (realloc x xs n) = n"
  by (simp add: realloc_def)

lemma nth_realloc: "i < length xs \<Longrightarrow> i < n \<Longrightarrow> realloc x xs n ! i = xs ! i"
  by (simp add: realloc_def nth_append)

subsection \<open>Generic list lemmas\<close>

lemma map_upt_eqI:
  "length xs = n \<Longrightarrow> (\<And>i. i < n \<Longrightarrow> f i = xs ! i) \<Longrightarrow> map f [0..<n] = xs"
  by (simp add: list_eq_iff_nth_eq)

lemma unat_u16_less: "unat (x :: u16) < 65536" and unat_u32_less: "unat (y :: u32) < 4294967296"
  and unat_u64_less: "unat (z :: u64) < 18446744073709551616"
  using unsigned_less [of x] unsigned_less [of y] unsigned_less [of z] by simp_all

lemma unat_minus_of_nat: "n \<le> unat w \<Longrightarrow> unat (w - word_of_nat n :: u64) = unat w - n"
proof -
  assume n: "n \<le> unat w"
  have "w - word_of_nat n = word_of_nat (unat w - n)" using n by (simp add: of_nat_diff)
  moreover have "unat w - n < 2 ^ 64" using unat_u64_less [of w] by simp
  ultimately show ?thesis by (simp add: unsigned_of_nat take_bit_nat_eq_self_iff del: of_nat_diff)
qed

lemma unat_of_nat_u64: "n < 2 ^ 64 \<Longrightarrow> unat (word_of_nat n :: u64) = n"
  and unat_ucast_of_nat_u64: "n < 2 ^ 32 \<Longrightarrow> unat (ucast (word_of_nat n :: u64) :: u32) = n"
  by (simp_all add: unsigned_ucast_eq unsigned_of_nat take_bit_nat_eq_self_iff)

lemma map_upt_Suc_shift: "map f [0..<Suc n] = f 0 # map (\<lambda>i. f (Suc i)) [0..<n]"
  by (simp add: upt_conv_Cons map_Suc_upt [symmetric] del: upt_Suc)

lemma those_map_Some:
  "(\<And>x. x \<in> set xs \<Longrightarrow> f x = Some (g x)) \<Longrightarrow> those (map f xs) = Some (map g xs)"
  by (induction xs) auto

lemma split_first_unique:
  "c \<notin> set a \<Longrightarrow> c \<notin> set b \<Longrightarrow> a @ c # x = b @ c # y \<Longrightarrow> a = b \<and> x = y"
proof (induction a arbitrary: b)
  case Nil
  then show ?case by (cases b) auto
next
  case (Cons z a)
  then show ?case by (cases b) auto
qed

subsection \<open>Decimal text (the printf conversions and strtol)\<close>

fun dec :: "nat \<Rightarrow> buf" where
  "dec n = (if n < 10 then [word_of_nat (48 + n)] else dec (n div 10) @ [word_of_nat (48 + n mod 10)])"

declare dec.simps [simp del]

definition dec_int :: "int \<Rightarrow> buf" where
  "dec_int i = (if i < 0 then 45 # dec (nat (- i)) else dec (nat i))"

definition is_digit :: "u8 \<Rightarrow> bool" where
  "is_digit b \<longleftrightarrow> 48 \<le> unat b \<and> unat b \<le> 57"

text \<open>The value of a run of digits, read left to right onto an accumulator.\<close>

definition digits_val :: "nat \<Rightarrow> buf \<Rightarrow> nat" where
  "digits_val a ds = foldl (\<lambda>n b. n * 10 + (unat b - 48)) a ds"

lemma digits_val_simps [simp]:
  "digits_val a [] = a"
  "digits_val a (b # bs) = digits_val (a * 10 + (unat b - 48)) bs"
  "digits_val a (xs @ ys) = digits_val (digits_val a xs) ys"
  by (simp_all add: digits_val_def)

lemma digit_byte: "n < 10 \<Longrightarrow> unat (word_of_nat (48 + n) :: u8) = 48 + n"
  by (simp add: unat_of_nat take_bit_eq_mod del: of_nat_add)

lemma dec_digits: "\<forall>b \<in> set (dec n). is_digit b"
proof (induction n rule: dec.induct)
  case (1 n)
  show ?case
    using 1 digit_byte [of n] digit_byte [of "n mod 10"]
    by (subst dec.simps) (auto simp: is_digit_def simp del: of_nat_add)
qed

lemma dec_val: "digits_val a (dec n) = a * 10 ^ length (dec n) + n"
proof (induction n arbitrary: a rule: dec.induct)
  case (1 n)
  show ?case
  proof (cases "n < 10")
    case True
    then show ?thesis using digit_byte [of n] by (simp add: dec.simps [of n] del: of_nat_add)
  next
    case False
    with "1.IH" have "digits_val a (dec (n div 10)) = a * 10 ^ length (dec (n div 10)) + n div 10"
      by simp
    then show ?thesis using False digit_byte [of "n mod 10"]
      by (simp add: dec.simps [of n] algebra_simps del: of_nat_add)
  qed
qed

lemma dec_not_Nil [simp]: "dec n \<noteq> []"
  by (subst dec.simps) simp

lemma dec_inj: "dec m = dec n \<Longrightarrow> m = n"
  by (metis add_0 dec_val mult_zero_left)

lemma dec_length_mono: "n < 10 ^ k \<Longrightarrow> 0 < k \<Longrightarrow> length (dec n) \<le> k"
proof (induction k arbitrary: n)
  case (Suc k)
  show ?case
  proof (cases "n < 10")
    case True
    then show ?thesis by (simp add: dec.simps [of n])
  next
    case False
    have k: "0 < k" using False Suc.prems(1) by (cases k) simp_all
    have "n < 10 ^ k * 10" using Suc.prems(1) by (simp only: power_Suc mult.commute)
    then have "n div 10 < 10 ^ k" by (rule less_mult_imp_div_less)
    then have "length (dec (n div 10)) \<le> k" using k by (rule Suc.IH)
    then show ?thesis using False by (simp add: dec.simps [of n])
  qed
qed simp

end
