(* ===== verification/Mmc_Queue.thy ===== *)
theory Mmc_Queue
  imports Mmc_Prelude
begin

text \<open>
  The ring-buffer queue of \<^verbatim>\<open>src/memcache_queue.c\<close> and \<^verbatim>\<open>src/memcache_queue.h\<close>:
  a growing array of pointers with a head (the newest item), a tail (the oldest item) and a
  length. Every queue of the extension (servers that want to send or read, requests that
  wait, servers to skip) is one of these.

  An item is \<open>Some p\<close> for a pointer; \<open>None\<close> is NULL or a cell that was allocated and never
  written. The \<^verbatim>\<open>int\<close> fields are naturals: the code never lets one become negative.

  The theory gives the operations, the invariant every operation keeps, the refinement of
  the ring buffer to a duplicate-free list, the interface \<open>fifo_set\<close> its clients rely on,
  and the type \<open>'a fifo\<close> of well-formed queues that the pool uses.
\<close>

subsection \<open>State and operations\<close>

record 'a mmc_queue_t =
  q_items :: "'a option list"
  q_alloc :: nat
  q_head :: nat
  q_tail :: nat
  q_len :: nat

definition MMC_QUEUE_PREALLOC :: nat where [mmc_consts]:
  "MMC_QUEUE_PREALLOC = 25"

definition mmc_queue_zero :: "'a mmc_queue_t" where
  "mmc_queue_zero = \<lparr>q_items = [], q_alloc = 0, q_head = 0, q_tail = 0, q_len = 0\<rparr>"

definition mmc_queue_release :: "'a mmc_queue_t \<Rightarrow> 'a mmc_queue_t" where
  "mmc_queue_release q = mmc_queue_zero"

definition mmc_queue_reset :: "'a mmc_queue_t \<Rightarrow> 'a mmc_queue_t" where
  "mmc_queue_reset q = q\<lparr>q_len := 0, q_head := 0, q_tail := 0\<rparr>"

definition mmc_queue_item :: "'a mmc_queue_t \<Rightarrow> nat \<Rightarrow> 'a option" where
  "mmc_queue_item q i =
     (if q_tail q + i < q_alloc q then q_items q ! (q_tail q + i)
      else q_items q ! (i - (q_alloc q - q_tail q)))"

text \<open>The argument may be a NULL queue, as in \<^verbatim>\<open>mmc_pool_find\<close>.\<close>

definition mmc_queue_contains :: "'a mmc_queue_t option \<Rightarrow> 'a \<Rightarrow> bool" where
  "mmc_queue_contains queue p =
     (case queue of
        None \<Rightarrow> False
      | Some q \<Rightarrow> list_ex (\<lambda>i. mmc_queue_item q i = Some p) [0..<q_len q])"

text \<open>The growth step of a push: reallocate and move the tail segment downwards.\<close>

definition mmc_queue_grow :: "'a mmc_queue_t \<Rightarrow> 'a mmc_queue_t" where
  "mmc_queue_grow q =
     (if q_len q \<ge> q_alloc q then
        let increase = 1 + MMC_QUEUE_PREALLOC;
            alloc = q_alloc q + increase;
            items = realloc None (q_items q) alloc
        in if q_head q < q_tail q
           then q\<lparr>q_alloc := alloc,
                  q_items := memmove items (q_tail q + increase) (q_tail q) (alloc - q_tail q - increase),
                  q_tail := q_tail q + increase\<rparr>
           else q\<lparr>q_alloc := alloc, q_items := items\<rparr>
      else q)"

definition mmc_queue_advance_head :: "'a mmc_queue_t \<Rightarrow> 'a mmc_queue_t" where
  "mmc_queue_advance_head q =
     (if q_len q \<noteq> 0
      then q\<lparr>q_head := (if q_head q + 1 \<ge> q_alloc q then 0 else q_head q + 1)\<rparr>
      else q)"

definition mmc_queue_push :: "'a mmc_queue_t \<Rightarrow> 'a \<Rightarrow> 'a mmc_queue_t" where
  "mmc_queue_push queue ptr =
     (if mmc_queue_contains (Some queue) ptr then queue
      else let q = mmc_queue_advance_head (mmc_queue_grow queue)
           in q\<lparr>q_items := (q_items q)[q_head q := Some ptr], q_len := q_len q + 1\<rparr>)"

definition mmc_queue_pop :: "'a mmc_queue_t \<Rightarrow> 'a option \<times> 'a mmc_queue_t" where
  "mmc_queue_pop q =
     (if q_len q \<noteq> 0 then
        let ptr = q_items q ! q_tail q;
            l = q_len q - 1
        in (ptr, if l \<noteq> 0
                 then q\<lparr>q_len := l, q_tail := (if q_tail q + 1 \<ge> q_alloc q then 0 else q_tail q + 1)\<rparr>
                 else q\<lparr>q_len := l\<rparr>)
      else (None, q))"

definition mmc_queue_free :: "'a mmc_queue_t \<Rightarrow> 'a mmc_queue_t" where
  "mmc_queue_free q = mmc_queue_zero"

definition mmc_queue_copy :: "'a mmc_queue_t \<Rightarrow> 'a mmc_queue_t \<Rightarrow> 'a mmc_queue_t" where
  "mmc_queue_copy target source =
     (let t = (if q_alloc target \<noteq> q_alloc source
               then target\<lparr>q_alloc := q_alloc source, q_items := realloc None (q_items target) (q_alloc source)\<rparr>
               else target)
      in t\<lparr>q_items := memcpy (q_items t) (q_items source) (q_alloc source),
           q_head := q_head source, q_tail := q_tail source, q_len := q_len source\<rparr>)"

text \<open>The loop of \<^verbatim>\<open>mmc_queue_remove\<close>: pop from the copy until it returns NULL.\<close>

function mmc_queue_remove_loop ::
  "'a mmc_queue_t \<Rightarrow> 'a mmc_queue_t \<Rightarrow> 'a \<Rightarrow> 'a mmc_queue_t" where
  "mmc_queue_remove_loop original queue ptr =
     (if q_len original = 0 then queue
      else case mmc_queue_pop original of
             (None, original') \<Rightarrow> queue
           | (Some item, original') \<Rightarrow>
               mmc_queue_remove_loop original'
                 (if item \<noteq> ptr then mmc_queue_push queue item else queue) ptr)"
  by pat_completeness auto
termination
  by (relation "measure (\<lambda>(original, queue, ptr). q_len original)")
     (auto simp: mmc_queue_pop_def Let_def split: if_splits)

declare mmc_queue_remove_loop.simps [simp del]

definition mmc_queue_remove :: "'a mmc_queue_t \<Rightarrow> 'a \<Rightarrow> 'a mmc_queue_t" where
  "mmc_queue_remove queue ptr = mmc_queue_remove_loop queue (mmc_queue_release queue) ptr"

subsection \<open>The invariant and the list a queue stands for\<close>

definition queue_list :: "'a mmc_queue_t \<Rightarrow> 'a list" where
  "queue_list q = map (\<lambda>i. the (mmc_queue_item q i)) [0..<q_len q]"

text \<open>
  Indices stay inside the array, head and tail are \<open>len - 1\<close> cells apart (they coincide when
  the queue is empty), the live cells hold pointers, and no pointer occurs twice.
\<close>

definition queue_inv :: "'a mmc_queue_t \<Rightarrow> bool" where
  "queue_inv q \<longleftrightarrow>
     length (q_items q) = q_alloc q \<and> q_len q \<le> q_alloc q \<and>
     (q_alloc q = 0 \<longrightarrow> q_head q = 0 \<and> q_tail q = 0) \<and>
     (q_alloc q > 0 \<longrightarrow> q_head q < q_alloc q \<and> q_tail q < q_alloc q) \<and>
     (q_len q = 0 \<longrightarrow> q_head q = q_tail q) \<and>
     (q_len q > 0 \<longrightarrow>
        q_head q = (if q_tail q + q_len q - 1 < q_alloc q then q_tail q + q_len q - 1
                    else q_tail q + q_len q - 1 - q_alloc q)) \<and>
     (\<forall>i < q_len q. mmc_queue_item q i \<noteq> None) \<and>
     distinct (queue_list q)"

lemma length_queue_list [simp]: "length (queue_list q) = q_len q"
  by (simp add: queue_list_def)

lemma queue_list_nth: "i < q_len q \<Longrightarrow> queue_list q ! i = the (mmc_queue_item q i)"
  by (simp add: queue_list_def)

lemma queue_item_Some:
  "queue_inv q \<Longrightarrow> i < q_len q \<Longrightarrow> mmc_queue_item q i = Some (queue_list q ! i)"
  by (auto simp: queue_inv_def queue_list_nth)

lemma queue_list_distinct: "queue_inv q \<Longrightarrow> distinct (queue_list q)"
  by (simp add: queue_inv_def)

lemma queue_inv_zero [simp]: "queue_inv mmc_queue_zero"
  by (simp add: queue_inv_def mmc_queue_zero_def queue_list_def)

lemma queue_list_zero [simp]: "queue_list mmc_queue_zero = []"
  by (simp add: queue_list_def mmc_queue_zero_def)

lemma queue_inv_reset: "queue_inv q \<Longrightarrow> queue_inv (mmc_queue_reset q)"
  by (simp add: queue_inv_def mmc_queue_reset_def queue_list_def)

lemma queue_list_reset [simp]: "queue_list (mmc_queue_reset q) = []"
  by (simp add: queue_list_def mmc_queue_reset_def)

lemma queue_contains_iff:
  "queue_inv q \<Longrightarrow> mmc_queue_contains (Some q) p \<longleftrightarrow> p \<in> set (queue_list q)"
  by (auto simp: mmc_queue_contains_def list_ex_iff in_set_conv_nth queue_item_Some)

lemma queue_inv_listI:
  assumes "length (q_items q) = q_alloc q" and "q_len q \<le> q_alloc q"
    and "q_alloc q = 0 \<Longrightarrow> q_head q = 0 \<and> q_tail q = 0"
    and "q_alloc q > 0 \<Longrightarrow> q_head q < q_alloc q \<and> q_tail q < q_alloc q"
    and "q_len q = 0 \<Longrightarrow> q_head q = q_tail q"
    and "q_len q > 0 \<Longrightarrow>
        q_head q = (if q_tail q + q_len q - 1 < q_alloc q then q_tail q + q_len q - 1
                    else q_tail q + q_len q - 1 - q_alloc q)"
    and "length xs = q_len q" and "\<And>i. i < q_len q \<Longrightarrow> mmc_queue_item q i = Some (xs ! i)"
    and "distinct xs"
  shows "queue_inv q \<and> queue_list q = xs"
proof -
  have "queue_list q = xs"
    using assms(7,8) by (simp add: queue_list_def map_upt_eqI)
  then show ?thesis
    using assms by (auto simp: queue_inv_def)
qed

subsection \<open>Each operation against the list\<close>

lemma queue_grow:
  assumes inv: "queue_inv q"
  shows "queue_inv (mmc_queue_grow q) \<and> queue_list (mmc_queue_grow q) = queue_list q"
proof (cases "q_len q \<ge> q_alloc q")
  case False
  then show ?thesis using inv by (simp add: mmc_queue_grow_def)
next
  case full: True
  have len: "q_len q = q_alloc q" "length (q_items q) = q_alloc q"
    using full inv by (auto simp: queue_inv_def)
  show ?thesis
  proof (cases "q_head q < q_tail q")
    case True
    have wrap: "q_head q = q_tail q - 1" "0 < q_tail q" "q_tail q < q_alloc q"
      using inv len True by (auto simp: queue_inv_def split: if_splits)
    show ?thesis
    proof (rule queue_inv_listI)
      fix i assume "i < q_len (mmc_queue_grow q)"
      then have i: "i < q_len q" using full True by (simp add: mmc_queue_grow_def Let_def)
      show "mmc_queue_item (mmc_queue_grow q) i = Some (queue_list q ! i)"
        using queue_item_Some [OF inv i] i len full True wrap
        by (auto simp: mmc_queue_grow_def Let_def mmc_queue_item_def nth_memmove nth_realloc
              MMC_QUEUE_PREALLOC_def split: if_splits)
    qed (use inv full True len wrap in \<open>auto simp: mmc_queue_grow_def Let_def length_memmove
            MMC_QUEUE_PREALLOC_def queue_list_distinct\<close>)
  next
    case False
    have flat: "q_tail q = 0" "q_head q = q_len q - 1"
      using inv len False by (cases "q_len q = 0"; auto simp: queue_inv_def split: if_splits)+
    show ?thesis
    proof (rule queue_inv_listI)
      fix i assume "i < q_len (mmc_queue_grow q)"
      then have i: "i < q_len q" using full False by (simp add: mmc_queue_grow_def Let_def)
      show "mmc_queue_item (mmc_queue_grow q) i = Some (queue_list q ! i)"
        using queue_item_Some [OF inv i] i len full False flat
        by (auto simp: mmc_queue_grow_def Let_def mmc_queue_item_def nth_realloc split: if_splits)
    qed (use inv full False len flat in \<open>auto simp: mmc_queue_grow_def Let_def
            MMC_QUEUE_PREALLOC_def queue_list_distinct\<close>)
  qed
qed

lemma queue_grow_room:
  "queue_inv q \<Longrightarrow> q_len (mmc_queue_grow q) = q_len q \<and> q_len (mmc_queue_grow q) < q_alloc (mmc_queue_grow q)"
  by (auto simp: mmc_queue_grow_def Let_def queue_inv_def)

lemma queue_write:
  assumes inv: "queue_inv q" and room: "q_len q < q_alloc q" and new: "p \<notin> set (queue_list q)"
    and q': "q' = (mmc_queue_advance_head q)
               \<lparr>q_items := (q_items q)[q_head (mmc_queue_advance_head q) := Some p], q_len := q_len q + 1\<rparr>"
  shows "queue_inv q' \<and> queue_list q' = queue_list q @ [p]"
proof (rule queue_inv_listI)
  have head: "q_head q' = (if q_tail q + q_len q < q_alloc q then q_tail q + q_len q
                           else q_tail q + q_len q - q_alloc q)"
    using inv room by (auto simp: q' mmc_queue_advance_head_def queue_inv_def split: if_splits)
  have same: "q_alloc q' = q_alloc q" "q_tail q' = q_tail q" "q_len q' = q_len q + 1"
    "q_items q' = (q_items q)[q_head q' := Some p]"
    by (auto simp: q' mmc_queue_advance_head_def)
  have wf: "length (q_items q) = q_alloc q" "q_tail q < q_alloc q"
    using inv room by (auto simp: queue_inv_def)
  fix i assume i: "i < q_len q'"
  have pos: "q_len q - (q_alloc q - q_tail q) = q_tail q + q_len q - q_alloc q"
    using wf by simp
  show "mmc_queue_item q' i = Some ((queue_list q @ [p]) ! i)"
  proof (cases "i = q_len q")
    case True
    then show ?thesis
      using same wf room
      by (simp add: mmc_queue_item_def nth_append head pos add.commute)
  next
    case False
    then have il: "i < q_len q" using i same by simp
    from queue_item_Some [OF inv il] il same wf room show ?thesis
      by (auto simp: mmc_queue_item_def nth_append head nth_list_update)
  qed
qed (use inv room new in \<open>auto simp: q' mmc_queue_advance_head_def queue_inv_def split: if_splits\<close>)

lemma queue_push:
  assumes inv: "queue_inv q"
  shows "queue_inv (mmc_queue_push q p) \<and>
         queue_list (mmc_queue_push q p) =
           (if p \<in> set (queue_list q) then queue_list q else queue_list q @ [p])"
proof (cases "p \<in> set (queue_list q)")
  case True
  then show ?thesis using inv by (simp add: mmc_queue_push_def queue_contains_iff)
next
  case False
  let ?g = "mmc_queue_grow q"
  have g: "queue_inv ?g" "queue_list ?g = queue_list q" "q_len ?g < q_alloc ?g"
    using queue_grow [OF inv] queue_grow_room [OF inv] by auto
  have items: "q_items (mmc_queue_advance_head ?g) = q_items ?g" "q_len (mmc_queue_advance_head ?g) = q_len ?g"
    by (simp_all add: mmc_queue_advance_head_def)
  show ?thesis
    using queue_write [OF g(1,3) _ refl, of p] False g(2) items inv
    by (simp add: mmc_queue_push_def Let_def queue_contains_iff)
qed

lemma queue_pop_Nil:
  "queue_inv q \<Longrightarrow> queue_list q = [] \<Longrightarrow> mmc_queue_pop q = (None, q)"
  by (auto simp: mmc_queue_pop_def dest!: arg_cong [where f = length])

lemma queue_pop_Cons:
  assumes inv: "queue_inv q" and ql: "queue_list q = x # xs"
  shows "fst (mmc_queue_pop q) = Some x \<and> queue_inv (snd (mmc_queue_pop q)) \<and>
         queue_list (snd (mmc_queue_pop q)) = xs"
proof -
  have len: "q_len q = Suc (length xs)"
    using ql length_queue_list [of q] by simp
  have wf: "q_tail q < q_alloc q" "length (q_items q) = q_alloc q" "q_len q \<le> q_alloc q"
    using inv len by (auto simp: queue_inv_def)
  have nth: "mmc_queue_item q i = Some ((x # xs) ! i)" if "i < q_len q" for i
    using queue_item_Some [OF inv that] ql by simp
  have hd: "fst (mmc_queue_pop q) = Some x"
    using nth [of 0] len wf by (simp add: mmc_queue_pop_def Let_def mmc_queue_item_def)
  let ?q = "snd (mmc_queue_pop q)"
  have "queue_inv ?q \<and> queue_list ?q = xs"
  proof (rule queue_inv_listI)
    fix i assume "i < q_len ?q"
    then have i: "i < length xs" using len by (simp add: mmc_queue_pop_def Let_def split: if_splits)
    then have item: "mmc_queue_item q (Suc i) = Some (xs ! i)" using nth [of "Suc i"] len by simp
    have tail: "q_tail ?q = (if q_tail q + 1 \<ge> q_alloc q then 0 else q_tail q + 1)"
      "q_alloc ?q = q_alloc q" "q_items ?q = q_items q"
      using i len by (auto simp: mmc_queue_pop_def Let_def)
    have "mmc_queue_item ?q i = mmc_queue_item q (Suc i)"
    proof (cases "q_tail q + 1 = q_alloc q")
      case True
      moreover have "q_alloc q - q_tail q = 1" using True by simp
      ultimately show ?thesis using i len wf tail by (simp add: mmc_queue_item_def)
    next
      case False
      moreover have "Suc i - (q_alloc q - q_tail q) = i - (q_alloc q - Suc (q_tail q))"
        if "q_alloc q \<le> Suc (q_tail q + i)" using that wf by arith
      ultimately show ?thesis using i len wf tail by (simp add: mmc_queue_item_def)
    qed
    with item show "mmc_queue_item ?q i = Some (xs ! i)" by simp
  qed (use inv len wf queue_list_distinct [OF inv] ql in
        \<open>auto simp: mmc_queue_pop_def Let_def queue_inv_def neq_Nil_conv split: if_splits\<close>)
  with hd show ?thesis by simp
qed

lemma queue_remove_loop:
  "queue_inv original \<Longrightarrow> queue_inv queue \<Longrightarrow>
   set (queue_list original) \<inter> set (queue_list queue) = {} \<Longrightarrow>
   queue_inv (mmc_queue_remove_loop original queue p) \<and>
   queue_list (mmc_queue_remove_loop original queue p) =
     queue_list queue @ filter (\<lambda>x. x \<noteq> p) (queue_list original)"
proof (induction original queue p rule: mmc_queue_remove_loop.induct)
  case (1 original queue p)
  show ?case
  proof (cases "queue_list original")
    case Nil
    then have "q_len original = 0" by (metis length_queue_list list.size(3))
    then show ?thesis using 1(3) Nil by (simp add: mmc_queue_remove_loop.simps [of original])
  next
    case (Cons x xs)
    let ?q = "if x \<noteq> p then mmc_queue_push queue x else queue"
    obtain r where pop: "mmc_queue_pop original = (Some x, r)" "queue_inv r" "queue_list r = xs"
      using queue_pop_Cons [OF 1(2) Cons] by (metis prod.collapse)
    have len: "q_len original \<noteq> 0"
      using length_queue_list [of original] Cons by simp
    have dist: "x \<notin> set xs" using queue_list_distinct [OF 1(2)] Cons by simp
    have q: "queue_inv ?q" "queue_list ?q = queue_list queue @ filter (\<lambda>x. x \<noteq> p) [x]"
      using queue_push [OF 1(3), of x] 1(3,4) Cons by auto
    have "set (queue_list r) \<inter> set (queue_list ?q) = {}"
      using q pop dist 1(4) Cons by auto
    from 1(1) [OF len pop(1) [symmetric] refl pop(2) q(1) this] show ?thesis
      using q(2) pop len Cons by (simp add: mmc_queue_remove_loop.simps [of original])
  qed
qed

lemma queue_remove:
  "queue_inv q \<Longrightarrow> queue_inv (mmc_queue_remove q p) \<and>
   queue_list (mmc_queue_remove q p) = filter (\<lambda>x. x \<noteq> p) (queue_list q)"
  using queue_remove_loop [of q mmc_queue_zero p]
  by (simp add: mmc_queue_remove_def mmc_queue_release_def)

lemma queue_copy:
  assumes "queue_inv t" and "queue_inv s"
  shows "queue_inv (mmc_queue_copy t s) \<and> queue_list (mmc_queue_copy t s) = queue_list s"
proof -
  have len: "length (q_items s) = q_alloc s" "length (q_items t) = q_alloc t"
    using assms by (auto simp: queue_inv_def)
  then have "mmc_queue_copy t s = s"
    by (simp add: mmc_queue_copy_def memcpy_def Let_def)
  then show ?thesis using assms by simp
qed

subsection \<open>The interface the clients of a queue rely on\<close>

text \<open>
  A first-in first-out queue without duplicates: every operation is described by its effect
  on the list of the waiting items, oldest first.
\<close>

locale fifo_set =
  fixes empty :: "'q"
    and push :: "'q \<Rightarrow> 'a \<Rightarrow> 'q"
    and pop :: "'q \<Rightarrow> 'a option \<times> 'q"
    and member :: "'q \<Rightarrow> 'a \<Rightarrow> bool"
    and remove :: "'q \<Rightarrow> 'a \<Rightarrow> 'q"
    and reset :: "'q \<Rightarrow> 'q"
    and items :: "'q \<Rightarrow> 'a list"
    and inv :: "'q \<Rightarrow> bool"
  assumes empty_ok: "inv empty \<and> items empty = []"
    and push_ok: "inv q \<Longrightarrow> inv (push q x) \<and>
          items (push q x) = (if x \<in> set (items q) then items q else items q @ [x])"
    and pop_Nil: "inv q \<Longrightarrow> items q = [] \<Longrightarrow> pop q = (None, q)"
    and pop_Cons: "inv q \<Longrightarrow> items q = x # xs \<Longrightarrow>
          fst (pop q) = Some x \<and> inv (snd (pop q)) \<and> items (snd (pop q)) = xs"
    and member_ok: "inv q \<Longrightarrow> member q x \<longleftrightarrow> x \<in> set (items q)"
    and remove_ok: "inv q \<Longrightarrow> inv (remove q x) \<and> items (remove q x) = filter (\<lambda>y. y \<noteq> x) (items q)"
    and reset_ok: "inv q \<Longrightarrow> inv (reset q) \<and> items (reset q) = []"
    and distinct_ok: "inv q \<Longrightarrow> distinct (items q)"
begin

lemma push_all:
  "inv q \<Longrightarrow> inv (fold (\<lambda>x q. push q x) xs q) \<and>
   set (items (fold (\<lambda>x q. push q x) xs q)) = set (items q) \<union> set xs"
  by (induction xs arbitrary: q) (auto simp: push_ok)

lemma push_fresh_all:
  "inv q \<Longrightarrow> distinct (items q @ xs) \<Longrightarrow> items (fold (\<lambda>x q. push q x) xs q) = items q @ xs"
  by (induction xs arbitrary: q) (auto simp: push_ok)

lemma push_idem: "inv q \<Longrightarrow> items (push (push q x) x) = items (push q x)"
  by (simp add: push_ok)

lemma push_then_remove:
  "inv q \<Longrightarrow> x \<notin> set (items q) \<Longrightarrow> items (remove (push q x) x) = items q"
  by (auto simp: push_ok remove_ok intro!: filter_True)

text \<open>Popping as often as there are items returns them oldest first and empties the queue.\<close>

lemma pop_all:
  "inv q \<Longrightarrow> items q = xs \<Longrightarrow> \<exists>q'. inv q' \<and> items q' = [] \<and>
     ((\<lambda>(out, q). (case pop q of (Some x, r) \<Rightarrow> (out @ [x], r) | (None, r) \<Rightarrow> (out, r))) ^^ length xs) (out, q)
       = (out @ xs, q')"
proof (induction xs arbitrary: q out)
  case (Cons x xs)
  obtain r where p: "pop q = (Some x, r)" "inv r" "items r = xs"
    using pop_Cons [OF Cons.prems] by (metis prod.collapse)
  show ?case
    using Cons.IH [OF p(2,3), of "out @ [x]"] p(1)
    by (simp add: funpow_Suc_right del: funpow.simps)
qed auto

end

interpretation rq: fifo_set mmc_queue_zero mmc_queue_push mmc_queue_pop
  "\<lambda>q. mmc_queue_contains (Some q)" mmc_queue_remove mmc_queue_reset queue_list queue_inv
  by unfold_locales
    (auto simp: queue_push queue_pop_Nil queue_pop_Cons queue_contains_iff queue_remove
       queue_inv_reset queue_list_distinct)

subsection \<open>The type of well-formed queues\<close>

text \<open>
  The pool holds many queues. It holds them at this type, whose values are exactly the ring
  buffers that satisfy the invariant; the operations are the ones above.
\<close>

typedef 'a fifo = "{q :: 'a mmc_queue_t. queue_inv q}"
  by (rule exI [of _ mmc_queue_zero]) simp

setup_lifting type_definition_fifo

lift_definition fq_zero :: "'a fifo" is mmc_queue_zero by simp
lift_definition fq_push :: "'a fifo \<Rightarrow> 'a \<Rightarrow> 'a fifo" is mmc_queue_push by (simp add: queue_push)
lift_definition fq_remove :: "'a fifo \<Rightarrow> 'a \<Rightarrow> 'a fifo" is mmc_queue_remove by (simp add: queue_remove)
lift_definition fq_reset :: "'a fifo \<Rightarrow> 'a fifo" is mmc_queue_reset by (simp add: queue_inv_reset)
lift_definition fq_copy :: "'a fifo \<Rightarrow> 'a fifo \<Rightarrow> 'a fifo" is mmc_queue_copy by (simp add: queue_copy)
lift_definition fq_list :: "'a fifo \<Rightarrow> 'a list" is queue_list .
lift_definition fq_len :: "'a fifo \<Rightarrow> nat" is q_len .
lift_definition fq_contains :: "'a fifo \<Rightarrow> 'a \<Rightarrow> bool" is "\<lambda>q. mmc_queue_contains (Some q)" .
lift_definition fq_next :: "'a fifo \<Rightarrow> 'a option" is "\<lambda>q. fst (mmc_queue_pop q)" .
lift_definition fq_rest :: "'a fifo \<Rightarrow> 'a fifo" is "\<lambda>q. snd (mmc_queue_pop q)"
  by (metis list.exhaust queue_pop_Cons queue_pop_Nil snd_conv)

definition fq_pop :: "'a fifo \<Rightarrow> 'a option \<times> 'a fifo" where
  "fq_pop q = (fq_next q, fq_rest q)"

lemma fq_list_zero [simp]: "fq_list fq_zero = []"
  by transfer simp

lemma fq_list_push [simp]:
  "fq_list (fq_push q x) = (if x \<in> set (fq_list q) then fq_list q else fq_list q @ [x])"
  by transfer (simp add: queue_push)

lemma fq_list_remove [simp]: "fq_list (fq_remove q x) = filter (\<lambda>y. y \<noteq> x) (fq_list q)"
  by transfer (simp add: queue_remove)

lemma fq_list_reset [simp]: "fq_list (fq_reset q) = []"
  by transfer simp

lemma fq_list_copy [simp]: "fq_list (fq_copy t s) = fq_list s"
  by transfer (simp add: queue_copy)

lemma fq_len [simp]: "fq_len q = length (fq_list q)"
  by transfer simp

lemma fq_contains [simp]: "fq_contains q x \<longleftrightarrow> x \<in> set (fq_list q)"
  by transfer (simp add: queue_contains_iff)

lemma fq_distinct [simp]: "distinct (fq_list q)"
  by transfer (simp add: queue_list_distinct)

lemma fq_next [simp]: "fq_next q = (case fq_list q of [] \<Rightarrow> None | x # xs \<Rightarrow> Some x)"
  by transfer (auto simp: queue_pop_Nil queue_pop_Cons split: list.split)

lemma fq_list_rest [simp]: "fq_list (fq_rest q) = tl (fq_list q)"
proof (transfer)
  fix q :: "'a mmc_queue_t" assume "queue_inv q"
  then show "queue_list (snd (mmc_queue_pop q)) = tl (queue_list q)"
    by (cases "queue_list q") (auto simp: queue_pop_Nil queue_pop_Cons)
qed

interpretation fq: fifo_set fq_zero fq_push fq_pop fq_contains fq_remove fq_reset fq_list "\<lambda>q. True"
proof unfold_locales
  fix q :: "'a fifo" assume "fq_list q = []"
  then show "fq_pop q = (None, q)"
    unfolding fq_pop_def by transfer (simp add: queue_pop_Nil)
qed (auto simp: fq_pop_def)

subsection \<open>Properties\<close>

text \<open>The calls the clients make, and what they return.\<close>

datatype 'a queue_op = Push 'a | Pop | Contains 'a | Remove 'a | Reset
datatype 'a queue_out = Nothing | Item "'a option" | Answer bool

fun queue_step :: "'a queue_op \<Rightarrow> 'a mmc_queue_t \<Rightarrow> 'a queue_out \<times> 'a mmc_queue_t" where
  "queue_step (Push x) q = (Nothing, mmc_queue_push q x)"
| "queue_step Pop q = (let (x, q) = mmc_queue_pop q in (Item x, q))"
| "queue_step (Contains x) q = (Answer (mmc_queue_contains (Some q) x), q)"
| "queue_step (Remove x) q = (Nothing, mmc_queue_remove q x)"
| "queue_step Reset q = (Nothing, mmc_queue_reset q)"

text \<open>The specification: a list of distinct items, oldest first.\<close>

fun fifo_step :: "'a queue_op \<Rightarrow> 'a list \<Rightarrow> 'a queue_out \<times> 'a list" where
  "fifo_step (Push x) xs = (Nothing, if x \<in> set xs then xs else xs @ [x])"
| "fifo_step Pop xs = (case xs of [] \<Rightarrow> (Item None, []) | y # ys \<Rightarrow> (Item (Some y), ys))"
| "fifo_step (Contains x) xs = (Answer (x \<in> set xs), xs)"
| "fifo_step (Remove x) xs = (Nothing, filter (\<lambda>y. y \<noteq> x) xs)"
| "fifo_step Reset xs = (Nothing, [])"

fun run_ops :: "('o \<Rightarrow> 'q \<Rightarrow> 'r \<times> 'q) \<Rightarrow> 'o list \<Rightarrow> 'q \<Rightarrow> 'r list \<times> 'q" where
  "run_ops step [] q = ([], q)"
| "run_ops step (c # cs) q =
     (let (r, q) = step c q; (rs, q) = run_ops step cs q in (r # rs, q))"

lemma queue_step_refines:
  assumes "queue_inv q"
  shows "queue_inv (snd (queue_step c q)) \<and>
    fifo_step c (queue_list q) = (fst (queue_step c q), queue_list (snd (queue_step c q)))"
proof (cases c)
  case Pop
  show ?thesis
  proof (cases "queue_list q")
    case Nil
    then show ?thesis using rq.pop_Nil [OF assms Nil] Pop assms by simp
  next
    case (Cons x xs)
    then show ?thesis using rq.pop_Cons [OF assms Cons] Pop by (auto split: prod.split)
  qed
qed (use assms in \<open>simp_all add: rq.push_ok rq.member_ok rq.remove_ok rq.reset_ok\<close>)

lemma run_queue_refines:
  "queue_inv q \<Longrightarrow>
   run_ops fifo_step cs (queue_list q) =
     (fst (run_ops queue_step cs q), queue_list (snd (run_ops queue_step cs q)))"
proof (induction cs arbitrary: q)
  case (Cons c cs)
  then show ?case
    using queue_step_refines [OF Cons.prems, of c] by (auto simp: Let_def split: prod.split)
qed simp

text \<open>
  C18: The ring buffer is a first-in first-out queue without duplicates: every sequence of
  pushes, pops, membership tests, removals and resets on a fresh queue, through every
  growth, wrap-around and rebuild of the array, returns what a list of distinct items would
  return and ends with the same items waiting in the same order.
\<close>

theorem queue_refines_fifo:
  "run_ops fifo_step cs [] =
     (fst (run_ops queue_step cs mmc_queue_zero), queue_list (snd (run_ops queue_step cs mmc_queue_zero)))"
  using run_queue_refines [of mmc_queue_zero cs] by simp

end
