(* ===== verification/Mmc_Hash.thy ===== *)
theory Mmc_Hash
  imports Mmc_Prelude
begin

text \<open>
  The hash functions of \<^verbatim>\<open>src/memcache_pool.c\<close> behind the interface
  \<^verbatim>\<open>mmc_hash_function_t\<close> of \<^verbatim>\<open>src/memcache_pool.h\<close>: FNV-1a in full, and
  CRC32 over the per-byte step \<^verbatim>\<open>CRC32\<close> of PHP's \<^verbatim>\<open>ext/standard/crc32.h\<close>, which is
  not part of the repository and is a parameter here.

  The interface \<open>hash_function\<close> states what the hash strategies rely on: hashing may be
  split at any byte.
\<close>

record mmc_hash_function_t =
  hf_init :: u32
  hf_combine :: "u32 \<Rightarrow> buf \<Rightarrow> u32"
  hf_finish :: "u32 \<Rightarrow> u32"

definition mmc_hash :: "mmc_hash_function_t \<Rightarrow> buf \<Rightarrow> u32" where
  "mmc_hash h key = hf_finish h (hf_combine h (hf_init h) key)"

definition FNV_32_PRIME :: u32 where [mmc_consts]: "FNV_32_PRIME = 0x01000193"
definition FNV_32_INIT :: u32 where [mmc_consts]: "FNV_32_INIT = 0x811c9dc5"

subsection \<open>CRC32\<close>

definition mmc_hash_crc32_init :: u32 where "mmc_hash_crc32_init = NOT 0"
definition mmc_hash_crc32_finish :: "u32 \<Rightarrow> u32" where "mmc_hash_crc32_finish seed = NOT seed"

fun mmc_hash_crc32_combine :: "(u32 \<Rightarrow> u8 \<Rightarrow> u32) \<Rightarrow> u32 \<Rightarrow> buf \<Rightarrow> u32" where
  "mmc_hash_crc32_combine CRC32 seed [] = seed"
| "mmc_hash_crc32_combine CRC32 seed (p # key) = mmc_hash_crc32_combine CRC32 (CRC32 seed p) key"

definition mmc_hash_crc32 :: "(u32 \<Rightarrow> u8 \<Rightarrow> u32) \<Rightarrow> mmc_hash_function_t" where
  "mmc_hash_crc32 CRC32 = \<lparr>hf_init = mmc_hash_crc32_init,
     hf_combine = mmc_hash_crc32_combine CRC32, hf_finish = mmc_hash_crc32_finish\<rparr>"

subsection \<open>FNV-1a\<close>

text \<open>
  \<^verbatim>\<open>seed ^= (unsigned int)*(p++)\<close>: the pointer is to \<^verbatim>\<open>char\<close>, which is signed on the
  platforms the extension is built for, so a byte of 128 or more is sign-extended before
  the exclusive or.
\<close>

fun mmc_hash_fnv1a_combine :: "u32 \<Rightarrow> buf \<Rightarrow> u32" where
  "mmc_hash_fnv1a_combine seed [] = seed"
| "mmc_hash_fnv1a_combine seed (p # key) =
     mmc_hash_fnv1a_combine ((seed XOR scast p) * FNV_32_PRIME) key"

definition mmc_hash_fnv1a_init :: u32 where "mmc_hash_fnv1a_init = FNV_32_INIT"
definition mmc_hash_fnv1a_finish :: "u32 \<Rightarrow> u32" where "mmc_hash_fnv1a_finish seed = seed"

definition mmc_hash_fnv1a :: mmc_hash_function_t where
  "mmc_hash_fnv1a = \<lparr>hf_init = mmc_hash_fnv1a_init,
     hf_combine = mmc_hash_fnv1a_combine, hf_finish = mmc_hash_fnv1a_finish\<rparr>"

text \<open>The published 32-bit FNV-1a over octets, the reference the code is compared with.\<close>

definition fnv1a_32 :: "buf \<Rightarrow> u32" where
  "fnv1a_32 key = foldl (\<lambda>h b. (h XOR ucast b) * 0x01000193) 0x811c9dc5 key"

subsection \<open>The interface\<close>

locale hash_function =
  fixes h :: mmc_hash_function_t
  assumes combine_Nil: "hf_combine h seed [] = seed"
    and combine_append: "hf_combine h seed (xs @ ys) = hf_combine h (hf_combine h seed xs) ys"
begin

lemma hash_split: "hf_finish h (hf_combine h (hf_combine h (hf_init h) xs) ys) = mmc_hash h (xs @ ys)"
  by (simp add: mmc_hash_def combine_append)

lemma hash_prefix_cong:
  "hf_combine h (hf_init h) xs = hf_combine h (hf_init h) ys \<Longrightarrow>
   mmc_hash h (xs @ zs) = mmc_hash h (ys @ zs)"
  by (simp add: mmc_hash_def combine_append)

end

lemma crc32_combine_append:
  "mmc_hash_crc32_combine C seed (xs @ ys) = mmc_hash_crc32_combine C (mmc_hash_crc32_combine C seed xs) ys"
  by (induction xs arbitrary: seed) auto

lemma fnv1a_combine_append:
  "mmc_hash_fnv1a_combine seed (xs @ ys) = mmc_hash_fnv1a_combine (mmc_hash_fnv1a_combine seed xs) ys"
  by (induction xs arbitrary: seed) auto

interpretation crc: hash_function "mmc_hash_crc32 C" for C
  by unfold_locales (auto simp: mmc_hash_crc32_def crc32_combine_append)

interpretation fnv: hash_function mmc_hash_fnv1a
  by unfold_locales (auto simp: mmc_hash_fnv1a_def fnv1a_combine_append)

lemma scast_ascii: "b < 128 \<Longrightarrow> (scast (b :: u8) :: u32) = ucast b"
proof -
  assume "b < 128"
  then have "unat b div 2 ^ 7 = 0" by (simp add: word_less_nat_alt)
  then have "\<not> bit (unat b) 7" by (metis bit_iff_odd even_zero)
  then have msb: "\<not> bit b 7" by (simp add: bit_simps)
  show ?thesis
  proof (rule bit_word_eqI)
    fix n assume "n < LENGTH(32)"
    moreover have "bit b n \<Longrightarrow> n < 7"
      using bit_imp_le_length [of b n] msb by (cases "n = 7") auto
    ultimately show "bit (scast b :: u32) n \<longleftrightarrow> bit (ucast b :: u32) n"
      using msb by (cases "n < 7") (auto simp: bit_simps min_def)
  qed
qed

lemma fnv1a_combine_ascii:
  "\<forall>b \<in> set key. b < 128 \<Longrightarrow>
   mmc_hash_fnv1a_combine seed key = foldl (\<lambda>h b. (h XOR ucast b) * 0x01000193) seed key"
  by (induction key arbitrary: seed) (auto simp: scast_ascii FNV_32_PRIME_def)

subsection \<open>Properties\<close>

text \<open>
  On keys of 7-bit characters the FNV-1a of the extension is the published 32-bit
  FNV-1a.
\<close>

theorem fnv1a_ascii_is_fnv1a:
  assumes "\<forall>b \<in> set key. b < 128"
  shows "mmc_hash mmc_hash_fnv1a key = fnv1a_32 key"
  using fnv1a_combine_ascii [OF assms, of FNV_32_INIT]
  by (simp add: mmc_hash_def mmc_hash_fnv1a_def mmc_hash_fnv1a_init_def mmc_hash_fnv1a_finish_def
      fnv1a_32_def FNV_32_INIT_def)

text \<open>The published test vector of the one-letter string \<^verbatim>\<open>a\<close>.\<close>

theorem fnv1a_ascii_is_fnv1a_witness:
  "mmc_hash mmc_hash_fnv1a (bytes ''a'') = fnv1a_32 (bytes ''a'') \<and> fnv1a_32 (bytes ''a'') = 0xe40c292c"
proof
  have "\<forall>b \<in> set (bytes ''a''). b < 128" by (simp add: bytes_def of_char_def)
  then show "mmc_hash mmc_hash_fnv1a (bytes ''a'') = fnv1a_32 (bytes ''a'')" by (rule fnv1a_ascii_is_fnv1a)
  show "fnv1a_32 (bytes ''a'') = 0xe40c292c" by (simp add: fnv1a_32_def bytes_def of_char_def)
qed

lemma fnv_prime_cancel: "a * FNV_32_PRIME = b * FNV_32_PRIME \<Longrightarrow> a = b"
proof -
  have one: "FNV_32_PRIME * 0x359c449b = 1" by (simp add: FNV_32_PRIME_def)
  have inv: "(c * FNV_32_PRIME) * 0x359c449b = c" for c :: u32
    by (simp only: mult.assoc one mult_1_right)
  assume eq: "a * FNV_32_PRIME = b * FNV_32_PRIME"
  have "a = a * FNV_32_PRIME * 0x359c449b" by (simp only: inv)
  also have "\<dots> = b" by (simp only: eq inv)
  finally show "a = b" .
qed

text \<open>
  On a byte of 128 or more it is not: the sign extension of the \<^verbatim>\<open>char\<close> changes the hash
  of every such one-byte key, so a key outside 7-bit characters is placed differently from
  every client that follows the published function.
\<close>

theorem fnv1a_high_byte_differs:
  assumes "128 \<le> b"
  shows "mmc_hash mmc_hash_fnv1a [b] \<noteq> fnv1a_32 [b]"
proof
  assume "mmc_hash mmc_hash_fnv1a [b] = fnv1a_32 [b]"
  then have "(FNV_32_INIT XOR scast b) * FNV_32_PRIME = (FNV_32_INIT XOR ucast b) * FNV_32_PRIME"
    by (simp add: mmc_hash_def mmc_hash_fnv1a_def mmc_hash_fnv1a_init_def mmc_hash_fnv1a_finish_def
        fnv1a_32_def FNV_32_INIT_def FNV_32_PRIME_def)
  from fnv_prime_cancel [OF this]
  have "FNV_32_INIT XOR (FNV_32_INIT XOR scast b) = FNV_32_INIT XOR (FNV_32_INIT XOR ucast b)"
    by simp
  then have eq: "(scast b :: u32) = ucast b" by (simp flip: xor.assoc)
  have "\<not> bit b 8" using bit_imp_le_length [of b 8] by auto
  then have "bit (scast b :: u32) 8 \<longleftrightarrow> bit b 7" "\<not> bit (ucast b :: u32) 8"
    by (simp_all add: bit_simps)
  moreover have "bit b 7"
  proof (rule ccontr)
    assume n7: "\<not> bit b 7"
    have "take_bit 7 (unat b) = unat b"
    proof (rule bit_eqI)
      fix n
      have "bit b n \<Longrightarrow> n < 7" using bit_imp_le_length [of b n] n7 by (cases "n = 7") auto
      then show "bit (take_bit 7 (unat b)) n \<longleftrightarrow> bit (unat b) n"
        by (auto simp: bit_take_bit_iff bit_unsigned_iff)
    qed
    then have "unat b < 2 ^ 7" by (simp only: take_bit_nat_eq_self_iff)
    then show False using assms by (simp add: word_le_nat_alt)
  qed
  ultimately show False using eq by metis
qed

theorem fnv1a_high_byte_differs_witness: "mmc_hash mmc_hash_fnv1a [0xe9] \<noteq> fnv1a_32 [0xe9]"
  by (rule fnv1a_high_byte_differs) simp

subsection \<open>The interface of a hash strategy\<close>

text \<open>
  What the pool relies on in \<^verbatim>\<open>mmc_hash_strategy_t\<close>: in a usable state every key has a
  server, and looking one up never changes which server any key has (the lookup may change
  the state, since the consistent strategy sorts and caches on first use).
\<close>

locale hash_strategy =
  fixes find :: "'st \<Rightarrow> buf \<Rightarrow> ('m \<times> 'st) option"
    and usable :: "'st \<Rightarrow> bool"
    and owner :: "'st \<Rightarrow> buf \<Rightarrow> 'm"
  assumes find_owner: "usable st \<Longrightarrow>
    \<exists>st'. find st key = Some (owner st key, st') \<and> usable st' \<and> (\<forall>k. owner st' k = owner st k)"
begin

text \<open>A sequence of lookups finds the owner of each key, whatever was looked up before.\<close>

fun find_all :: "'st \<Rightarrow> buf list \<Rightarrow> ('m list \<times> 'st) option" where
  "find_all st [] = Some ([], st)"
| "find_all st (k # ks) =
     (case find st k of
        None \<Rightarrow> None
      | Some (m, st') \<Rightarrow> map_option (\<lambda>(ms, st''). (m # ms, st'')) (find_all st' ks))"

lemma find_all_owners:
  "usable st \<Longrightarrow> \<exists>st'. find_all st ks = Some (map (owner st) ks, st') \<and> usable st' \<and> (\<forall>k. owner st' k = owner st k)"
proof (induction ks arbitrary: st)
  case (Cons k ks)
  obtain st1 where f: "find st k = Some (owner st k, st1)" "usable st1" "\<forall>k. owner st1 k = owner st k"
    using find_owner [OF Cons.prems] by blast
  then have "map (owner st1) ks = map (owner st) ks" by simp
  then show ?case using Cons.IH [OF f(2)] f by auto
qed simp

end

end
