(* ===== verification/Mmc_Standard_Hash.thy ===== *)
theory Mmc_Standard_Hash
  imports Mmc_Hash
begin

text \<open>
  The standard (modulo) hash strategy of \<^verbatim>\<open>src/memcache_standard_hash.c\<close>. A server is
  the pointer the caller passes, of any type \<open>'m\<close>. A read outside the bucket array, which
  is undefined in C, is \<open>None\<close>.

  The bucket count is a natural: it cannot wrap, since the array of pointers would have to
  be allocated first.
\<close>

record 'm mmc_standard_state_t =
  ss_num_servers :: nat
  ss_buckets :: "'m list"
  ss_num_buckets :: nat
  ss_hash :: mmc_hash_function_t

definition mmc_standard_create_state :: "mmc_hash_function_t \<Rightarrow> 'm mmc_standard_state_t" where
  "mmc_standard_create_state h =
     \<lparr>ss_num_servers = 0, ss_buckets = [], ss_num_buckets = 0, ss_hash = h\<rparr>"

definition read_cell :: "'m list \<Rightarrow> nat \<Rightarrow> 'm option" where
  "read_cell xs i = (if i < length xs then Some (xs ! i) else None)"

text \<open>The "new-style" slot: 15 bits of the hash, with zero replaced by one.\<close>

definition mmc_standard_slot :: "'m mmc_standard_state_t \<Rightarrow> buf \<Rightarrow> u32" where
  "mmc_standard_slot st key =
     (let hash = drop_bit 16 (mmc_hash (ss_hash st) key) AND 0x7fff in if hash \<noteq> 0 then hash else 1)"

definition mmc_standard_find_server :: "'m mmc_standard_state_t \<Rightarrow> buf \<Rightarrow> 'm option" where
  "mmc_standard_find_server st key =
     (if ss_num_servers st > 1
      then if ss_num_buckets st = 0 then None
           else read_cell (ss_buckets st) (unat (mmc_standard_slot st key) mod ss_num_buckets st)
      else read_cell (ss_buckets st) 0)"

definition mmc_standard_add_server ::
  "'m mmc_standard_state_t \<Rightarrow> 'm \<Rightarrow> nat \<Rightarrow> 'm mmc_standard_state_t" where
  "mmc_standard_add_server st mmc weight =
     st\<lparr>ss_buckets := take (ss_num_buckets st) (ss_buckets st) @ replicate weight mmc,
        ss_num_buckets := ss_num_buckets st + weight,
        ss_num_servers := ss_num_servers st + 1\<rparr>"

subsection \<open>The state a sequence of additions builds\<close>

fun standard_add_all :: "'m mmc_standard_state_t \<Rightarrow> ('m \<times> nat) list \<Rightarrow> 'm mmc_standard_state_t" where
  "standard_add_all st [] = st"
| "standard_add_all st ((m, w) # ms) = standard_add_all (mmc_standard_add_server st m w) ms"

definition standard_inv :: "'m mmc_standard_state_t \<Rightarrow> bool" where
  "standard_inv st \<longleftrightarrow> length (ss_buckets st) = ss_num_buckets st"

lemma standard_inv_create [simp]: "standard_inv (mmc_standard_create_state h)"
  by (simp add: standard_inv_def mmc_standard_create_state_def)

lemma standard_inv_add: "standard_inv st \<Longrightarrow> standard_inv (mmc_standard_add_server st m w)"
  by (simp add: standard_inv_def mmc_standard_add_server_def)

lemma standard_add_all_state:
  "standard_inv st \<Longrightarrow>
   standard_add_all st ms = st\<lparr>ss_buckets := ss_buckets st @ concat (map (\<lambda>(m, w). replicate w m) ms),
     ss_num_buckets := ss_num_buckets st + (\<Sum>(m, w) \<leftarrow> ms. w),
     ss_num_servers := ss_num_servers st + length ms\<rparr>"
proof (induction ms arbitrary: st)
  case (Cons a ms)
  then show ?case
    using standard_inv_add [OF Cons.prems, of "fst a" "snd a"]
    by (cases a) (simp add: mmc_standard_add_server_def standard_inv_def)
qed simp

lemma length_standard_buckets:
  "length (concat (map (\<lambda>(m, w). replicate w m) ms)) = (\<Sum>(m, w) \<leftarrow> ms. w)"
  by (induction ms) auto

lemma standard_slot_bounds: "1 \<le> mmc_standard_slot st key \<and> unat (mmc_standard_slot st key) \<le> 0x7fff"
proof -
  let ?h = "drop_bit 16 (mmc_hash (ss_hash st) key) AND 0x7fff :: u32"
  have "?h \<le> 0x7fff" by (rule word_and_le1)
  then have "unat ?h \<le> 0x7fff" by (simp add: word_le_nat_alt)
  then show ?thesis
    by (simp add: mmc_standard_slot_def Let_def word_le_nat_alt Suc_le_eq unat_gt_0)
qed

lemma set_standard_buckets:
  "set (concat (map (\<lambda>(m, w). replicate w m) ms)) = {m. \<exists>w > 0. (m, w) \<in> set ms}"
  by (induction ms) (auto simp: set_replicate_conv_if)

lemma count_standard_buckets:
  "count_list (concat (map (\<lambda>(m, w). replicate w m) ms)) s = (\<Sum>(m, w) \<leftarrow> ms. if m = s then w else 0)"
proof (induction ms)
  case (Cons a ms)
  have "count_list (replicate w m) s = (if m = s then w else 0)" for w and m :: 'a
    by (induction w) auto
  with Cons show ?case by (cases a) simp
qed simp

subsection \<open>The strategy as the pool uses it\<close>

text \<open>A state in which the buckets agree with their counters and are not empty.\<close>

definition standard_usable :: "'m mmc_standard_state_t \<Rightarrow> bool" where
  "standard_usable st \<longleftrightarrow> standard_inv st \<and> ss_buckets st \<noteq> []"

definition standard_owner :: "'m mmc_standard_state_t \<Rightarrow> buf \<Rightarrow> 'm" where
  "standard_owner st key = the (mmc_standard_find_server st key)"

lemma standard_find_usable:
  "standard_usable st \<Longrightarrow> mmc_standard_find_server st key = Some (standard_owner st key)"
  using length_greater_0_conv [of "ss_buckets st"]
  by (simp add: standard_owner_def standard_usable_def standard_inv_def mmc_standard_find_server_def read_cell_def)

interpretation standard: hash_strategy "\<lambda>st key. map_option (\<lambda>m. (m, st)) (mmc_standard_find_server st key)"
  standard_usable standard_owner
  by unfold_locales (simp add: standard_find_usable)

subsection \<open>Properties\<close>

text \<open>
  The standard strategy never reads outside its buckets and only ever answers with a
  server that was added: after any sequence of additions with positive weights, every key
  has a server, and it is one of them.
\<close>

theorem standard_find_server_added:
  assumes "ms \<noteq> []" and "\<forall>(m, w) \<in> set ms. 0 < w"
  shows "\<exists>m. mmc_standard_find_server (standard_add_all (mmc_standard_create_state h) ms) key = Some m \<and>
    m \<in> fst ` set ms"
proof -
  let ?bs = "concat (map (\<lambda>(m, w). replicate w m) ms)"
  have st: "standard_add_all (mmc_standard_create_state h) ms =
      \<lparr>ss_num_servers = length ms, ss_buckets = ?bs, ss_num_buckets = length ?bs, ss_hash = h\<rparr>"
    unfolding standard_add_all_state [OF standard_inv_create]
    by (simp add: mmc_standard_create_state_def length_standard_buckets)
  have ne: "?bs \<noteq> []"
    using assms by (cases ms) auto
  have in_set: "?bs ! i \<in> fst ` set ms" if "i < length ?bs" for i
    using nth_mem [OF that] unfolding set_standard_buckets by force
  have "mmc_standard_find_server (standard_add_all (mmc_standard_create_state h) ms) key = Some (?bs ! i) \<and>
      i < length ?bs" if "i = (if length ms > 1 then
        unat (mmc_standard_slot (standard_add_all (mmc_standard_create_state h) ms) key) mod length ?bs else 0)" for i
    using ne that unfolding st by (auto simp: mmc_standard_find_server_def read_cell_def)
  then show ?thesis using in_set by blast
qed

theorem standard_find_server_added_witness:
  "\<exists>m. mmc_standard_find_server
      (standard_add_all (mmc_standard_create_state mmc_hash_fnv1a) [(1 :: nat, 1), (2, 3)]) (bytes ''k'') = Some m \<and>
    m \<in> {1, 2}"
  using standard_find_server_added [of "[(1 :: nat, 1), (2, 3)]" mmc_hash_fnv1a "bytes ''k''"] by simp

text \<open>
  A server's weight is its share of the buckets: after any additions the number of
  buckets is the sum of all weights, and a server owns as many of them as it was added with.
\<close>

theorem standard_weight_share:
  "length (ss_buckets (standard_add_all (mmc_standard_create_state h) ms)) = (\<Sum>(m, w) \<leftarrow> ms. w) \<and>
   count_list (ss_buckets (standard_add_all (mmc_standard_create_state h) ms)) s =
     (\<Sum>(m, w) \<leftarrow> ms. if m = s then w else 0)"
  unfolding standard_add_all_state [OF standard_inv_create]
  by (simp add: mmc_standard_create_state_def length_standard_buckets count_standard_buckets)

end
