(* ===== verification/Mmc_Consistent_Hash.thy ===== *)
theory Mmc_Consistent_Hash
  imports Mmc_Hash Mmc_Standard_Hash "HOL-Library.Multiset"
begin

text \<open>
  The consistent hash strategy of \<^verbatim>\<open>src/memcache_consistent_hash.c\<close>: every server puts
  points on a ring of 32-bit values, the ring is sorted with \<^verbatim>\<open>qsort\<close>, and 1024 buckets
  precompute the owner of equally spaced ring positions by binary search.

  \<^verbatim>\<open>qsort\<close> leaves the order of equal points open, so it is an argument \<open>qs\<close> of the
  definitions that is only known to sort (\<open>qsort_ok\<close>). Undefined reads and a search that does
  not return are \<open>None\<close>. Servers are pointers of any type \<open>'m\<close>; the host and the port the
  code reads through the pointer are passed beside it.
\<close>

definition MMC_CONSISTENT_POINTS :: u32 where [mmc_consts]: "MMC_CONSISTENT_POINTS = 160"
definition MMC_CONSISTENT_BUCKETS :: nat where [mmc_consts]: "MMC_CONSISTENT_BUCKETS = 1024"

record 'm mmc_consistent_point_t =
  cp_server :: 'm
  cp_point :: u32

record 'm mmc_consistent_state_t =
  cs_num_servers :: nat
  cs_points :: "'m mmc_consistent_point_t list"
  cs_buckets :: "'m list"
  cs_buckets_populated :: bool
  cs_hash :: mmc_hash_function_t

definition mmc_consistent_create_state :: "mmc_hash_function_t \<Rightarrow> 'm mmc_consistent_state_t" where
  "mmc_consistent_create_state h =
     \<lparr>cs_num_servers = 0, cs_points = [], cs_buckets = [], cs_buckets_populated = False, cs_hash = h\<rparr>"

definition mmc_consistent_compare :: "'m mmc_consistent_point_t \<Rightarrow> 'm mmc_consistent_point_t \<Rightarrow> int" where
  "mmc_consistent_compare a b =
     (if cp_point a < cp_point b then -1 else if cp_point a > cp_point b then 1 else 0)"

text \<open>What C promises of \<^verbatim>\<open>qsort(points, n, size, mmc_consistent_compare)\<close>.\<close>

definition qsort_ok ::
  "('m mmc_consistent_point_t list \<Rightarrow> 'm mmc_consistent_point_t list) \<Rightarrow> bool" where
  "qsort_ok qs \<longleftrightarrow>
     (\<forall>xs. mset (qs xs) = mset xs \<and> sorted_wrt (\<lambda>a b. mmc_consistent_compare a b \<le> 0) (qs xs))"

text \<open>C's integer division of a difference by two truncates towards zero.\<close>

definition half_trunc :: "int \<Rightarrow> int" where
  "half_trunc d = (if 0 \<le> d then d div 2 else - ((- d) div 2))"

partial_function (option) mmc_consistent_find_loop ::
  "'m mmc_consistent_point_t list \<Rightarrow> u32 \<Rightarrow> int \<Rightarrow> int \<Rightarrow> 'm option" where
  "mmc_consistent_find_loop points point lo hi =
     (if \<not> (0 \<le> lo \<and> lo < int (length points) \<and> 0 \<le> hi \<and> hi < int (length points)) then None
      else if point \<le> cp_point (points ! nat lo) \<or> point > cp_point (points ! nat hi)
      then Some (cp_server (points ! nat lo))
      else let mid = lo + half_trunc (hi - lo) in
           if point \<le> cp_point (points ! nat mid) \<and>
              point > (if mid \<noteq> 0 then cp_point (points ! nat (mid - 1)) else 0)
           then Some (cp_server (points ! nat mid))
           else if cp_point (points ! nat mid) < point
           then mmc_consistent_find_loop points point (mid + 1) hi
           else mmc_consistent_find_loop points point lo (mid - 1))"

definition mmc_consistent_find :: "'m mmc_consistent_state_t \<Rightarrow> u32 \<Rightarrow> 'm option" where
  "mmc_consistent_find st point =
     mmc_consistent_find_loop (cs_points st) point 0 (int (length (cs_points st)) - 1)"

definition mmc_consistent_step :: u32 where
  "mmc_consistent_step = 0xffffffff div of_nat MMC_CONSISTENT_BUCKETS"

definition mmc_consistent_populate_buckets ::
  "('m mmc_consistent_point_t list \<Rightarrow> 'm mmc_consistent_point_t list) \<Rightarrow>
   'm mmc_consistent_state_t \<Rightarrow> 'm mmc_consistent_state_t option" where
  "mmc_consistent_populate_buckets qs st =
     (let st' = st\<lparr>cs_points := qs (cs_points st)\<rparr> in
      do {
        buckets \<leftarrow> those (map (\<lambda>i. mmc_consistent_find st' (mmc_consistent_step * of_nat i))
                            [0..<MMC_CONSISTENT_BUCKETS]);
        Some (st'\<lparr>cs_buckets := buckets, cs_buckets_populated := True\<rparr>)
      })"

text \<open>The lookup populates the buckets on first use, so it also returns the state.\<close>

definition mmc_consistent_find_server ::
  "('m mmc_consistent_point_t list \<Rightarrow> 'm mmc_consistent_point_t list) \<Rightarrow>
   'm mmc_consistent_state_t \<Rightarrow> buf \<Rightarrow> ('m \<times> 'm mmc_consistent_state_t) option" where
  "mmc_consistent_find_server qs st key =
     (if cs_num_servers st > 1 then
        do {
          st' \<leftarrow> (if \<not> cs_buckets_populated st then mmc_consistent_populate_buckets qs st else Some st);
          m \<leftarrow> read_cell (cs_buckets st') (unat (mmc_hash (cs_hash st') key) mod MMC_CONSISTENT_BUCKETS);
          Some (m, st')
        }
      else map_option (\<lambda>p. (cp_server p, st)) (read_cell (cs_points st) 0))"

text \<open>
  The number of points is the \<^verbatim>\<open>int\<close> that \<^verbatim>\<open>weight * 160\<close> wraps to. A negative one cuts the
  ring down; when it leaves a negative number of points, \<^verbatim>\<open>erealloc\<close> is asked for more
  memory than there is, which ends the process: \<open>None\<close>.
\<close>

definition mmc_consistent_num_points :: "u32 \<Rightarrow> int" where
  "mmc_consistent_num_points weight = sint (weight * MMC_CONSISTENT_POINTS)"

definition mmc_consistent_add_server ::
  "'m mmc_consistent_state_t \<Rightarrow> 'm \<Rightarrow> buf \<Rightarrow> u16 \<Rightarrow> u32 \<Rightarrow> 'm mmc_consistent_state_t option" where
  "mmc_consistent_add_server st mmc host port weight =
     (let points = mmc_consistent_num_points weight;
          seed = hf_combine (cs_hash st) (hf_init (cs_hash st)) (host @ bytes '':'' @ dec (unat port) @ bytes ''-'');
          new = map (\<lambda>i. \<lparr>cp_server = mmc, cp_point = hf_finish (cs_hash st) (hf_combine (cs_hash st) seed (dec i))\<rparr>)
                  [0..<nat points];
          total = int (length (cs_points st)) + points
      in if total < 0 then None
         else Some (st\<lparr>cs_points := take (nat total) (cs_points st @ new),
                       cs_num_servers := cs_num_servers st + 1,
                       cs_buckets_populated := False\<rparr>))"

subsection \<open>Sorted rings and the owner of a ring position\<close>

text \<open>
  The promise of the strategy: the owner of a position is the server of the first point at
  or after it, and the ring wraps around to the first point.
\<close>

definition ring_succ :: "'m mmc_consistent_point_t list \<Rightarrow> u32 \<Rightarrow> 'm" where
  "ring_succ points v =
     (case List.find (\<lambda>p. v \<le> cp_point p) points of
        Some p \<Rightarrow> cp_server p
      | None \<Rightarrow> cp_server (hd points))"

definition ring_sorted :: "'m mmc_consistent_point_t list \<Rightarrow> bool" where
  "ring_sorted points \<longleftrightarrow> sorted (map cp_point points)"

lemma ring_sorted_nth:
  "ring_sorted points \<Longrightarrow> i \<le> j \<Longrightarrow> j < length points \<Longrightarrow>
   cp_point (points ! i) \<le> cp_point (points ! j)"
  using sorted_nth_mono [of "map cp_point points" i j] by (simp add: ring_sorted_def)

lemma ring_succ_first:
  assumes "j < length points" and "v \<le> cp_point (points ! j)"
    and "\<And>i. i < j \<Longrightarrow> cp_point (points ! i) < v"
  shows "ring_succ points v = cp_server (points ! j)"
proof -
  have "List.find (\<lambda>p. v \<le> cp_point p) points = Some (points ! j)"
    using assms by (auto simp: find_Some_iff linorder_not_le intro!: exI [of _ j])
  then show ?thesis by (simp add: ring_succ_def)
qed

lemma ring_succ_wrap:
  assumes "points \<noteq> []" and "\<And>i. i < length points \<Longrightarrow> cp_point (points ! i) < v"
  shows "ring_succ points v = cp_server (points ! 0)"
proof -
  have "List.find (\<lambda>p. v \<le> cp_point p) points = None"
    using assms(2) by (auto simp: find_None_iff in_set_conv_nth linorder_not_le)
  then show ?thesis using assms(1) by (simp add: ring_succ_def hd_conv_nth)
qed

lemma half_trunc_bounds: "lo \<le> hi \<Longrightarrow> lo \<le> lo + half_trunc (hi - lo) \<and> lo + half_trunc (hi - lo) \<le> hi"
  by (auto simp: half_trunc_def)

lemma find_loop_correct:
  assumes srt: "ring_sorted points" and ne: "points \<noteq> []"
  shows "0 \<le> lo \<Longrightarrow> lo \<le> hi \<Longrightarrow> hi < int (length points) \<Longrightarrow>
    (\<And>i. i < nat lo \<Longrightarrow> cp_point (points ! i) < v) \<Longrightarrow>
    (lo = 0 \<and> hi = int (length points) - 1) \<or> v \<le> cp_point (points ! nat hi) \<Longrightarrow>
    mmc_consistent_find_loop points v lo hi = Some (ring_succ points v)"
proof (induction "nat (hi - lo)" arbitrary: lo hi rule: less_induct)
  case less
  let ?pt = "\<lambda>i. cp_point (points ! nat i)"
  let ?mid = "lo + half_trunc (hi - lo)"
  let ?loop = "mmc_consistent_find_loop points v"
  have mid: "lo \<le> ?mid" "?mid \<le> hi" using half_trunc_bounds [OF less.prems(2)] by auto
  have range: "0 \<le> lo \<and> lo < int (length points) \<and> 0 \<le> hi \<and> hi < int (length points)"
    using less.prems by auto
  have mono: "?pt i \<le> ?pt j" if "i \<le> j" "j \<le> hi" for i j
  proof (rule ring_sorted_nth [OF srt])
    show "nat i \<le> nat j" using that by simp
    show "nat j < length points" using that less.prems(3) range by linarith
  qed
  consider (low) "v \<le> ?pt lo" | (high) "\<not> v \<le> ?pt lo" "v > ?pt hi" | (inside) "?pt lo < v" "v \<le> ?pt hi"
    by fastforce
  then show ?case
  proof cases
    case low
    then have "?loop lo hi = Some (cp_server (points ! nat lo))"
      using range by (subst mmc_consistent_find_loop.simps) simp
    moreover have "ring_succ points v = cp_server (points ! nat lo)"
      using low range less.prems(4) by (intro ring_succ_first) auto
    ultimately show ?thesis by simp
  next
    case high
    then have all: "lo = 0" "hi = int (length points) - 1" using less.prems(5) by auto
    have "?loop lo hi = Some (cp_server (points ! nat lo))"
      using high range by (subst mmc_consistent_find_loop.simps) simp
    moreover have "ring_succ points v = cp_server (points ! 0)"
    proof (rule ring_succ_wrap [OF ne])
      fix i assume "i < length points"
      then have "?pt (int i) \<le> ?pt hi" using all by (intro mono) auto
      then show "cp_point (points ! i) < v" using high(2) by simp
    qed
    ultimately show ?thesis using all by simp
  next
    case inside
    have nl: "\<not> (v \<le> ?pt lo \<or> v > ?pt hi)" using inside by (simp add: not_le not_less)
    have unfold: "?loop lo hi =
        (if v \<le> ?pt ?mid \<and> v > (if ?mid \<noteq> 0 then ?pt (?mid - 1) else 0)
         then Some (cp_server (points ! nat ?mid))
         else if ?pt ?mid < v then ?loop (?mid + 1) hi else ?loop lo (?mid - 1))"
      using nl by (subst mmc_consistent_find_loop.simps) (simp only: range simp_thms if_False if_True Let_def)
    show ?thesis
    proof (cases "?pt ?mid < v")
      case True
      then have "?mid \<noteq> hi" using inside by auto
      then have step: "?mid + 1 \<le> hi" using mid by simp
      have "?loop (?mid + 1) hi = Some (ring_succ points v)"
      proof (rule less.hyps)
        fix i assume "i < nat (?mid + 1)"
        then have "?pt (int i) \<le> ?pt ?mid" using mid by (intro mono) auto
        with True show "cp_point (points ! i) < v" by simp
      qed (use step mid range inside in auto)
      moreover have "\<not> v \<le> ?pt ?mid" using True by (simp add: not_le)
      ultimately show ?thesis using True by (simp only: unfold simp_thms if_False if_True)
    next
      case False
      then have neq: "?mid \<noteq> lo" using inside by auto
      have nz: "?mid \<noteq> 0" using neq mid range by linarith
      have le: "v \<le> ?pt ?mid" using False by (simp add: not_less)
      show ?thesis
      proof (cases "v > ?pt (?mid - 1)")
        case True
        have "ring_succ points v = cp_server (points ! nat ?mid)"
        proof (rule ring_succ_first)
          fix i assume "i < nat ?mid"
          then have "?pt (int i) \<le> ?pt (?mid - 1)" using mid range neq by (intro mono) auto
          with True show "cp_point (points ! i) < v" by simp
        qed (use False mid range in auto)
        with True show ?thesis by (simp only: unfold le nz simp_thms if_True)
      next
        case small: False
        have "?loop lo (?mid - 1) = Some (ring_succ points v)"
          using small mid range neq less.prems(4) by (intro less.hyps) auto
        with small False show ?thesis by (simp only: unfold nz simp_thms if_True if_False)
      qed
    qed
  qed
qed

lemma consistent_find_correct:
  "ring_sorted (cs_points st) \<Longrightarrow> cs_points st \<noteq> [] \<Longrightarrow>
   mmc_consistent_find st v = Some (ring_succ (cs_points st) v)"
  unfolding mmc_consistent_find_def
  by (rule find_loop_correct) (auto simp: Suc_le_eq)

lemma consistent_compare_le [simp]: "mmc_consistent_compare a b \<le> 0 \<longleftrightarrow> cp_point a \<le> cp_point b"
  by (auto simp: mmc_consistent_compare_def)

lemma qsort_ok_sorted: "qsort_ok qs \<Longrightarrow> ring_sorted (qs xs)"
  by (simp add: qsort_ok_def ring_sorted_def sorted_map)

lemma qsort_ok_set [simp]: "qsort_ok qs \<Longrightarrow> set (qs xs) = set xs"
  by (metis mset_eq_setD qsort_ok_def)

lemma qsort_ok_Nil_iff [simp]: "qsort_ok qs \<Longrightarrow> qs xs = [] \<longleftrightarrow> xs = []"
  by (metis qsort_ok_set set_empty)

lemma qsort_ok_sort_key: "qsort_ok (sort_key cp_point)"
  unfolding qsort_ok_def consistent_compare_le by (metis mset_sort sorted_map sorted_sort_key)

definition bucket_owner :: "'m mmc_consistent_point_t list \<Rightarrow> nat \<Rightarrow> 'm" where
  "bucket_owner points i = ring_succ points (mmc_consistent_step * of_nat i)"

lemma populate_correct:
  assumes "qsort_ok qs" and "cs_points st \<noteq> []"
  shows "mmc_consistent_populate_buckets qs st =
    Some (st\<lparr>cs_points := qs (cs_points st),
             cs_buckets := map (bucket_owner (qs (cs_points st))) [0..<MMC_CONSISTENT_BUCKETS],
             cs_buckets_populated := True\<rparr>)"
proof -
  let ?st = "st\<lparr>cs_points := qs (cs_points st)\<rparr>"
  have "mmc_consistent_find ?st v = Some (ring_succ (qs (cs_points st)) v)" for v
    using consistent_find_correct [of ?st v] assms qsort_ok_sorted [OF assms(1)] by simp
  then have "those (map (\<lambda>i. mmc_consistent_find ?st (mmc_consistent_step * of_nat i)) [0..<MMC_CONSISTENT_BUCKETS])
      = Some (map (bucket_owner (qs (cs_points st))) [0..<MMC_CONSISTENT_BUCKETS])"
    by (intro those_map_Some) (simp add: bucket_owner_def)
  then show ?thesis by (simp add: mmc_consistent_populate_buckets_def)
qed

lemma ring_succ_set:
  assumes "ring_sorted points" and "points \<noteq> []"
  shows "\<exists>p \<in> set points. ring_succ points v = cp_server p \<and>
    (v \<le> cp_point p \<and> (\<forall>q \<in> set points. v \<le> cp_point q \<longrightarrow> cp_point p \<le> cp_point q) \<or>
     (\<forall>q \<in> set points. cp_point q < v) \<and> (\<forall>q \<in> set points. cp_point p \<le> cp_point q))"
proof (cases "\<exists>j < length points. v \<le> cp_point (points ! j)")
  case True
  define j where "j = (LEAST j. j < length points \<and> v \<le> cp_point (points ! j))"
  have j: "j < length points" "v \<le> cp_point (points ! j)"
    using True LeastI_ex [of "\<lambda>j. j < length points \<and> v \<le> cp_point (points ! j)"] by (auto simp: j_def)
  have less: "cp_point (points ! i) < v" if "i < j" for i
    using not_less_Least [OF that [unfolded j_def]] that j(1) by (auto simp: not_le)
  have "cp_point (points ! j) \<le> cp_point (points ! i)" if "i < length points" "v \<le> cp_point (points ! i)" for i
    using less [of i] that ring_sorted_nth [OF assms(1), of j i] by (cases "i < j") auto
  then show ?thesis
    using j less ring_succ_first [of j points v] by (intro bexI [of _ "points ! j"]) (auto simp: in_set_conv_nth)
next
  case False
  then have "ring_succ points v = cp_server (points ! 0)"
    using ring_succ_wrap [OF assms(2)] by (auto simp: not_le)
  moreover have "\<forall>q \<in> set points. cp_point (points ! 0) \<le> cp_point q"
    using ring_sorted_nth [OF assms(1), of 0] by (auto simp: in_set_conv_nth)
  ultimately show ?thesis
    using False assms(2) by (intro bexI [of _ "points ! 0"]) (auto simp: in_set_conv_nth not_le)
qed

lemma ring_succ_in: "ring_sorted points \<Longrightarrow> points \<noteq> [] \<Longrightarrow> ring_succ points v \<in> cp_server ` set points"
  using ring_succ_set [of points v] by auto

text \<open>Adding the points of one server moves a position to that server or leaves it alone.\<close>

lemma ring_succ_extend:
  assumes old: "ring_sorted old" "old \<noteq> []" and ext: "ring_sorted ext" "set ext = set old \<union> set new"
    and inj: "inj_on cp_point (set ext)" and new: "\<forall>p \<in> set new. cp_server p = s"
  shows "ring_succ ext v = ring_succ old v \<or> ring_succ ext v = s"
proof -
  have ne: "ext \<noteq> []" using old(2) ext(2) by auto
  obtain p where p: "p \<in> set old" "ring_succ old v = cp_server p"
    "v \<le> cp_point p \<and> (\<forall>q \<in> set old. v \<le> cp_point q \<longrightarrow> cp_point p \<le> cp_point q) \<or>
     (\<forall>q \<in> set old. cp_point q < v) \<and> (\<forall>q \<in> set old. cp_point p \<le> cp_point q)"
    using ring_succ_set [OF old, of v] by blast
  obtain q where q: "q \<in> set ext" "ring_succ ext v = cp_server q"
    "v \<le> cp_point q \<and> (\<forall>r \<in> set ext. v \<le> cp_point r \<longrightarrow> cp_point q \<le> cp_point r) \<or>
     (\<forall>r \<in> set ext. cp_point r < v) \<and> (\<forall>r \<in> set ext. cp_point q \<le> cp_point r)"
    using ring_succ_set [OF ext(1) ne, of v] by blast
  show ?thesis
  proof (cases "q \<in> set new")
    case True
    then show ?thesis using q(2) new by simp
  next
    case False
    then have q_old: "q \<in> set old" using q(1) ext(2) by blast
    have "cp_point p = cp_point q"
      using p q q_old ext(2) by (metis UnI1 antisym linorder_not_le)
    then have "p = q" using inj p(1) q(1) ext(2) by (auto dest: inj_onD)
    then show ?thesis using p(2) q(2) by simp
  qed
qed

subsection \<open>Properties\<close>

text \<open>
  C29: The binary search finds the owner: on a sorted ring it returns (it neither loops nor
  reads outside the ring), and what it returns is the server of the first point at or after
  the position, or of the first point of the ring.
\<close>

theorem consistent_find_owner:
  assumes "ring_sorted (cs_points st)" and "cs_points st \<noteq> []"
  shows "mmc_consistent_find st v = Some (ring_succ (cs_points st) v)"
  by (rule consistent_find_correct [OF assms])

theorem consistent_find_owner_witness:
  "mmc_consistent_find
     \<lparr>cs_num_servers = 2, cs_points = [\<lparr>cp_server = ''a'', cp_point = 5\<rparr>, \<lparr>cp_server = ''b'', cp_point = 9\<rparr>],
      cs_buckets = [], cs_buckets_populated = False, cs_hash = mmc_hash_fnv1a\<rparr> 6 = Some ''b''"
  by (subst consistent_find_owner) (simp_all add: ring_sorted_def ring_succ_def)

text \<open>The lookup as a function of the ring alone.\<close>

definition consistent_owner ::
  "('m mmc_consistent_point_t list \<Rightarrow> 'm mmc_consistent_point_t list) \<Rightarrow> 'm mmc_consistent_state_t \<Rightarrow> buf \<Rightarrow> 'm" where
  "consistent_owner qs st key =
     bucket_owner (qs (cs_points st)) (unat (mmc_hash (cs_hash st) key) mod MMC_CONSISTENT_BUCKETS)"

lemma find_server_fresh:
  assumes "qsort_ok qs" and "cs_points st \<noteq> []" and "cs_num_servers st > 1" and "\<not> cs_buckets_populated st"
  shows "\<exists>st'. mmc_consistent_find_server qs st key = Some (consistent_owner qs st key, st') \<and>
    mmc_consistent_populate_buckets qs st = Some st'"
  using assms
  by (simp add: mmc_consistent_find_server_def populate_correct read_cell_def consistent_owner_def
      MMC_CONSISTENT_BUCKETS_def)

text \<open>
  C28: The lookup answers with the owner of the key's bucket on the sorted ring; the buckets
  it computes on first use do not change any later answer: every further lookup, of any key,
  finds the same server it would have found first, and leaves the state alone.
\<close>

theorem consistent_find_server_owner:
  assumes "qsort_ok qs" and "cs_points st \<noteq> []" and "cs_num_servers st > 1" and "\<not> cs_buckets_populated st"
  shows "\<exists>st'. mmc_consistent_find_server qs st key = Some (consistent_owner qs st key, st') \<and>
    (\<forall>key'. mmc_consistent_find_server qs st' key' = Some (consistent_owner qs st key', st'))"
proof -
  obtain st' where st': "mmc_consistent_find_server qs st key = Some (consistent_owner qs st key, st')"
    "mmc_consistent_populate_buckets qs st = Some st'"
    using find_server_fresh [OF assms] by blast
  then have "st' = st\<lparr>cs_points := qs (cs_points st),
      cs_buckets := map (bucket_owner (qs (cs_points st))) [0..<MMC_CONSISTENT_BUCKETS], cs_buckets_populated := True\<rparr>"
    using populate_correct [OF assms(1,2)] by simp
  then have "mmc_consistent_find_server qs st' key' = Some (consistent_owner qs st key', st')" for key'
    using assms(3)
    by (simp add: mmc_consistent_find_server_def read_cell_def consistent_owner_def MMC_CONSISTENT_BUCKETS_def)
  with st'(1) show ?thesis by blast
qed

text \<open>A usable state: a ring with points, and buckets that are those of the sorted ring once they are filled.\<close>

definition consistent_usable ::
  "('m mmc_consistent_point_t list \<Rightarrow> 'm mmc_consistent_point_t list) \<Rightarrow> 'm mmc_consistent_state_t \<Rightarrow> bool" where
  "consistent_usable qs st \<longleftrightarrow> qsort_ok qs \<and> cs_points st \<noteq> [] \<and>
     (cs_buckets_populated st \<longrightarrow> length (cs_buckets st) = MMC_CONSISTENT_BUCKETS)"

definition consistent_server ::
  "('m mmc_consistent_point_t list \<Rightarrow> 'm mmc_consistent_point_t list) \<Rightarrow> 'm mmc_consistent_state_t \<Rightarrow> buf \<Rightarrow> 'm" where
  "consistent_server qs st key =
     (if cs_num_servers st > 1 then
        if cs_buckets_populated st then cs_buckets st ! (unat (mmc_hash (cs_hash st) key) mod MMC_CONSISTENT_BUCKETS)
        else consistent_owner qs st key
      else cp_server (cs_points st ! 0))"

lemma consistent_find_usable:
  assumes "consistent_usable qs st"
  shows "\<exists>st'. mmc_consistent_find_server qs st key = Some (consistent_server qs st key, st') \<and>
    consistent_usable qs st' \<and> (\<forall>k. consistent_server qs st' k = consistent_server qs st k)"
proof (cases "cs_num_servers st > 1 \<and> \<not> cs_buckets_populated st")
  case True
  then obtain st' where f: "mmc_consistent_find_server qs st key = Some (consistent_owner qs st key, st')"
    "mmc_consistent_populate_buckets qs st = Some st'"
    using find_server_fresh [of qs st key] assms by (auto simp: consistent_usable_def)
  have st': "st' = st\<lparr>cs_points := qs (cs_points st),
      cs_buckets := map (bucket_owner (qs (cs_points st))) [0..<MMC_CONSISTENT_BUCKETS], cs_buckets_populated := True\<rparr>"
    using populate_correct [of qs st] f(2) assms by (simp add: consistent_usable_def)
  have "consistent_usable qs st'" using assms by (simp add: st' consistent_usable_def)
  moreover have "0 < MMC_CONSISTENT_BUCKETS" by (simp add: MMC_CONSISTENT_BUCKETS_def)
  then have "consistent_server qs st' k = consistent_server qs st k" for k
    using True by (simp add: consistent_server_def st' consistent_owner_def)
  ultimately show ?thesis using f(1) True by (simp add: consistent_server_def)
next
  case False
  have "0 < MMC_CONSISTENT_BUCKETS" by (simp add: MMC_CONSISTENT_BUCKETS_def)
  then show ?thesis
    using False assms
    by (auto simp: consistent_usable_def consistent_server_def mmc_consistent_find_server_def read_cell_def)
qed

interpretation consistent: hash_strategy "mmc_consistent_find_server qs" "consistent_usable qs" "consistent_server qs" for qs
  by unfold_locales (rule consistent_find_usable)

definition ring_example :: "nat mmc_consistent_state_t" where
  "ring_example = \<lparr>cs_num_servers = 2,
     cs_points = [\<lparr>cp_server = 2, cp_point = 2000\<rparr>, \<lparr>cp_server = 1, cp_point = 1000\<rparr>],
     cs_buckets = [], cs_buckets_populated = False,
     cs_hash = \<lparr>hf_init = 0, hf_combine = (\<lambda>seed key. word_of_nat (digits_val 0 (filter is_digit key))),
       hf_finish = (\<lambda>seed. seed)\<rparr>\<rparr>"

theorem consistent_find_server_owner_witness:
  "\<exists>st'. mmc_consistent_find_server (sort_key cp_point) ring_example [49] =
      Some (consistent_owner (sort_key cp_point) ring_example [49], st') \<and>
    consistent_owner (sort_key cp_point) ring_example [49] = 1"
proof -
  have "consistent_owner (sort_key cp_point) ring_example [49] = 1"
    by (simp add: consistent_owner_def bucket_owner_def ring_succ_def ring_example_def mmc_hash_def
        mmc_consistent_step_def MMC_CONSISTENT_BUCKETS_def is_digit_def)
  then show ?thesis
    using consistent_find_server_owner [OF qsort_ok_sort_key, of ring_example "[49]"]
    by (auto simp: ring_example_def)
qed

lemma num_points_iff:
  "mmc_consistent_num_points weight = 160 * int (unat weight) \<longleftrightarrow> unat weight \<le> 13421772"
proof -
  have "weight * MMC_CONSISTENT_POINTS = word_of_int (160 * int (unat weight))"
    by (simp add: MMC_CONSISTENT_POINTS_def)
  then have "sint (weight * MMC_CONSISTENT_POINTS) = signed_take_bit 31 (160 * int (unat weight))"
    by (simp only: sint_sbintrunc') simp
  moreover have "signed_take_bit 31 (160 * int n) = 160 * int n \<longleftrightarrow> n \<le> 13421772" for n
    unfolding signed_take_bit_int_eq_self_iff by simp linarith
  ultimately show ?thesis
    unfolding mmc_consistent_num_points_def by (simp only:)
qed

text \<open>What an addition does when the number of points does not overflow.\<close>

lemma add_server_small_weight:
  assumes "unat weight \<le> 13421772"
  shows "mmc_consistent_add_server st mmc host port weight =
    Some (st\<lparr>cs_points := cs_points st @
        map (\<lambda>i. \<lparr>cp_server = mmc, cp_point = hf_finish (cs_hash st) (hf_combine (cs_hash st)
              (hf_combine (cs_hash st) (hf_init (cs_hash st)) (host @ bytes '':'' @ dec (unat port) @ bytes ''-''))
              (dec i))\<rparr>) [0..<160 * unat weight],
      cs_num_servers := cs_num_servers st + 1, cs_buckets_populated := False\<rparr>)"
proof -
  define k where "k = 160 * unat weight"
  have n: "mmc_consistent_num_points weight = int k"
    using num_points_iff [of weight] assms by (simp add: k_def)
  show ?thesis
    unfolding mmc_consistent_add_server_def Let_def n nat_int k_def [symmetric] by (simp add: nat_add_distrib)
qed

text \<open>
  C20: Adding a server disturbs as little as possible: as long as no two points collide,
  every key is served by the server that served it before or by the new one, for every weight
  whose number of points is an \<^verbatim>\<open>int\<close>.
\<close>

theorem consistent_minimal_disruption:
  assumes "qsort_ok qs" and "cs_points st \<noteq> []" and "cs_num_servers st > 1" and "\<not> cs_buckets_populated st"
    and "unat weight \<le> 13421772" and "mmc_consistent_add_server st mmc host port weight = Some st2"
    and "inj_on cp_point (set (cs_points st2))"
  shows "\<exists>old st' m st2'. mmc_consistent_find_server qs st key = Some (old, st') \<and>
    mmc_consistent_find_server qs st2 key = Some (m, st2') \<and> (m = old \<or> m = mmc)"
proof -
  obtain new where st2: "cs_points st2 = cs_points st @ new" "\<forall>p \<in> set new. cp_server p = mmc"
    "cs_num_servers st2 = cs_num_servers st + 1" "\<not> cs_buckets_populated st2" "cs_hash st2 = cs_hash st"
    using assms(6) unfolding add_server_small_weight [OF assms(5)] by auto
  let ?old = "qs (cs_points st)" and ?ext = "qs (cs_points st2)"
  have "ring_succ ?ext v = ring_succ ?old v \<or> ring_succ ?ext v = mmc" for v
    using assms(1,2,7) st2(1,2) qsort_ok_sorted [OF assms(1)]
    by (intro ring_succ_extend [of ?old ?ext new]) auto
  then have "consistent_owner qs st2 key = consistent_owner qs st key \<or> consistent_owner qs st2 key = mmc"
    by (simp add: consistent_owner_def bucket_owner_def st2(5))
  moreover have "cs_points st2 \<noteq> []" "cs_num_servers st2 > 1" using st2 assms(2,3) by simp_all
  ultimately show ?thesis
    using find_server_fresh [OF assms(1-4), of key] find_server_fresh [OF assms(1) _ _ st2(4), of key] by blast
qed

lemma ring_example_add:
  "\<exists>st2. mmc_consistent_add_server ring_example 3 [] 0 1 = Some st2 \<and>
    cs_points st2 = cs_points ring_example @ map (\<lambda>i. \<lparr>cp_server = 3, cp_point = word_of_nat i\<rparr>) [0..<160] \<and>
    inj_on cp_point (set (cs_points st2))"
proof -
  have f: "filter is_digit (dec i) = dec i" for i using dec_digits by simp
  have dv: "digits_val 0 (dec i) = i" for i using dec_val [of 0 i] by simp
  let ?old = "cs_points ring_example" and ?new = "map (\<lambda>i. \<lparr>cp_server = 3, cp_point = word_of_nat i\<rparr>) [0..<160]"
  have less: "unat (word_of_nat i :: u32) = i" if "i < 160" for i
    using that by (simp add: unsigned_of_nat take_bit_nat_eq_self_iff)
  have "inj_on cp_point (set ?old \<union> set ?new)"
  proof (rule inj_onI)
    have new: "cp_point p = word_of_nat (unat (cp_point p)) \<and> unat (cp_point p) < 160 \<and> cp_server p = 3"
      if "p \<in> set ?new" for p
      using that less by auto
    have old: "p = \<lparr>cp_server = 2, cp_point = 2000\<rparr> \<or> p = \<lparr>cp_server = 1, cp_point = 1000\<rparr>"
      if "p \<in> set ?old" for p
      using that by (auto simp: ring_example_def)
    fix p q assume "p \<in> set ?old \<union> set ?new" "q \<in> set ?old \<union> set ?new" "cp_point p = cp_point q"
    then show "p = q"
      using new [of p] new [of q] old [of p] old [of q] by (cases p; cases q) auto
  qed
  then show ?thesis
    using add_server_small_weight [of 1 ring_example] by (simp add: ring_example_def f dv)
qed

theorem consistent_minimal_disruption_witness:
  "\<exists>st2 old st' m st2'. mmc_consistent_add_server ring_example 3 [] 0 1 = Some st2 \<and>
    mmc_consistent_find_server (sort_key cp_point) ring_example [49] = Some (old, st') \<and>
    mmc_consistent_find_server (sort_key cp_point) st2 [49] = Some (m, st2') \<and> (m = old \<or> m = 3)"
proof -
  obtain st2 where st2: "mmc_consistent_add_server ring_example 3 [] 0 1 = Some st2"
    "inj_on cp_point (set (cs_points st2))"
    using ring_example_add by blast
  have "cs_points ring_example \<noteq> []" "cs_num_servers ring_example > 1" "\<not> cs_buckets_populated ring_example"
    "unat (1 :: u32) \<le> 13421772"
    by (simp_all add: ring_example_def)
  from consistent_minimal_disruption [OF qsort_ok_sort_key this st2, of "[49]"] st2(1) show ?thesis by blast
qed

text \<open>
  A server's ring points are the hashes of its numbered name: with CRC32 as with FNV-1a,
  the partial hash that is shared between the points gives for the \<open>i\<close>th point the hash of
  \<^verbatim>\<open>host:port-i\<close>.
\<close>

theorem consistent_points_are_hashes:
  assumes "cs_hash st = mmc_hash_fnv1a \<or> cs_hash st = mmc_hash_crc32 C" and "unat weight \<le> 13421772"
  shows "\<exists>st'. mmc_consistent_add_server st mmc host port weight = Some st' \<and>
    cs_points st' = cs_points st @
    map (\<lambda>i. \<lparr>cp_server = mmc,
               cp_point = mmc_hash (cs_hash st) (host @ bytes '':'' @ dec (unat port) @ bytes ''-'' @ dec i)\<rparr>)
      [0..<160 * unat weight]"
proof -
  let ?h = "cs_hash st" and ?pre = "host @ bytes '':'' @ dec (unat port) @ bytes ''-''"
  have "hf_finish ?h (hf_combine ?h (hf_combine ?h (hf_init ?h) ?pre) xs) = mmc_hash ?h (?pre @ xs)" for xs
    using assms(1) fnv.hash_split [of ?pre xs] crc.hash_split [of C ?pre xs] by metis
  then show ?thesis unfolding add_server_small_weight [OF assms(2)] by simp
qed

theorem consistent_points_are_hashes_witness:
  "\<exists>st'. mmc_consistent_add_server (mmc_consistent_create_state mmc_hash_fnv1a) (7 :: nat) (bytes ''h'') 11211 1 = Some st' \<and>
    cs_points st' ! 0 = \<lparr>cp_server = 7, cp_point = mmc_hash mmc_hash_fnv1a (bytes ''h:11211-0'')\<rparr>"
proof -
  let ?st = "mmc_consistent_create_state mmc_hash_fnv1a :: nat mmc_consistent_state_t"
  have "cs_hash ?st = mmc_hash_fnv1a \<or> cs_hash ?st = mmc_hash_crc32 (\<lambda>c b. c)" "unat (1 :: u32) \<le> 13421772"
    by (simp_all add: mmc_consistent_create_state_def)
  from consistent_points_are_hashes [OF this, of 7 "bytes ''h''" 11211] show ?thesis
    by (auto simp: mmc_consistent_create_state_def bytes_def of_char_def dec.simps)
qed

text \<open>
  The weight gives 160 points each exactly up to 13421772: above that the \<^verbatim>\<open>int\<close>
  product wraps around, and a weight of 134217728 gives no point at all.
\<close>

theorem consistent_weight_points_iff:
  "mmc_consistent_num_points weight = 160 * int (unat weight) \<longleftrightarrow> unat weight \<le> 13421772"
  by (rule num_points_iff)

end
