(* ===== verification/Mmc_Key.thy ===== *)
theory Mmc_Key
  imports Mmc_Prelude
begin

text \<open>
  Key preparation: \<^verbatim>\<open>mmc_prepare_key_ex\<close> of \<^verbatim>\<open>src/memcache_pool.c\<close>, which cleans, prefixes
  and truncates a key into the caller's buffer, and the prefixes of \<^verbatim>\<open>src/memcache.c\<close> that
  \<^verbatim>\<open>get_key_prefix\<close> and \<^verbatim>\<open>get_session_key_prefix\<close> build from the configuration.

  A write outside the buffer, undefined in C, is \<open>None\<close>.
\<close>

subsection \<open>mmc\_prepare\_key\_ex\<close>

text \<open>Consecutive stores into a buffer, one cell at a time.\<close>

fun write_cells :: "'a list \<Rightarrow> nat \<Rightarrow> 'a list \<Rightarrow> 'a list option" where
  "write_cells mem i [] = Some mem"
| "write_cells mem i (b # bs) =
     (if i < length mem then write_cells (mem[i := b]) (Suc i) bs else None)"

text \<open>\<^verbatim>\<open>((unsigned char)c) > ' ' ? c : '_'\<close>\<close>

definition key_byte :: "u8 \<Rightarrow> u8" where
  "key_byte c = (if c > 32 then c else 95)"

text \<open>
  The result is the return code, the buffer and \<^verbatim>\<open>*result_len\<close> (\<open>None\<close> where the code
  leaves it alone). The prefix is a C string, so its length is \<^verbatim>\<open>strlen(prefix)\<close>.
\<close>

definition mmc_prepare_key_ex ::
  "buf \<Rightarrow> buf \<Rightarrow> buf option \<Rightarrow> (int \<times> buf \<times> nat option) option" where
  "mmc_prepare_key_ex key result prefix =
     (if length key = 0 then Some (MMC_REQUEST_FAILURE, result, None)
      else
        let pre = (case prefix of None \<Rightarrow> [] | Some p \<Rightarrow> p);
            prefix_len = length pre;
            result_len = (if prefix_len + length key < MMC_MAX_KEY_LEN
                          then prefix_len + length key else MMC_MAX_KEY_LEN)
        in do {
          mem1 \<leftarrow> write_cells result result_len [0];
          mem2 \<leftarrow> (if prefix_len \<noteq> 0 then
                    do {
                      m \<leftarrow> write_cells mem1 0 (map key_byte pre);
                      m \<leftarrow> write_cells m prefix_len (map key_byte (take (result_len - prefix_len) key));
                      write_cells m result_len [0]
                    }
                  else write_cells mem1 0 (map key_byte (take result_len key)));
          Some (MMC_OK, mem2, Some result_len)
        })"

text \<open>The key buffer of a request, \<^verbatim>\<open>char key[MMC_MAX_KEY_LEN + 1]\<close>.\<close>

definition key_buffer :: "buf \<Rightarrow> bool" where
  "key_buffer mem \<longleftrightarrow> length mem = MMC_MAX_KEY_LEN + 1"

text \<open>The key that is sent: the bytes of the buffer up to \<^verbatim>\<open>*result_len\<close>.\<close>

definition prepared_key :: "(int \<times> buf \<times> nat option) option \<Rightarrow> buf option" where
  "prepared_key r = (case r of Some (c, mem, Some n) \<Rightarrow> Some (take n mem) | _ \<Rightarrow> None)"

lemma write_cells_eq:
  "write_cells mem i bs =
     (if i + length bs \<le> length mem \<or> bs = [] then Some (take i mem @ bs @ drop (i + length bs) mem)
      else None)"
proof (induction bs arbitrary: mem i)
  case (Cons b bs)
  have "take (Suc i) (mem[i := b]) = take i mem @ [b]" if "i < length mem"
    using that by (simp add: take_Suc_conv_app_nth)
  then show ?case using Cons by auto
qed simp

lemma write_cells_SomeI:
  "i + length bs \<le> length mem \<Longrightarrow> write_cells mem i bs = Some (take i mem @ bs @ drop (i + length bs) mem)"
  by (simp add: write_cells_eq)

lemma write_cells_length: "write_cells mem i bs = Some mem' \<Longrightarrow> length mem' = length mem"
  by (auto simp: write_cells_eq split: if_splits)

lemma key_byte_printable: "key_byte c > 32"
  by (simp add: key_byte_def)

lemma key_byte_id: "c > 32 \<Longrightarrow> key_byte c = c"
  by (simp add: key_byte_def)

lemma key_byte_idem [simp]: "key_byte (key_byte c) = key_byte c"
  by (rule key_byte_id [OF key_byte_printable])

lemma prepare_key_ex_ok:
  assumes key: "key \<noteq> []" and buf: "key_buffer mem"
    and prefix: "length p \<le> MMC_MAX_KEY_LEN" "p = (case prefix of None \<Rightarrow> [] | Some p \<Rightarrow> p)"
  shows "\<exists>mem'. mmc_prepare_key_ex key mem prefix =
           Some (MMC_OK, mem', Some (min (length p + length key) MMC_MAX_KEY_LEN)) \<and>
         length mem' = length mem \<and>
         take (min (length p + length key) MMC_MAX_KEY_LEN) mem' =
           take MMC_MAX_KEY_LEN (map key_byte (p @ key)) \<and>
         mem' ! min (length p + length key) MMC_MAX_KEY_LEN = 0"
proof -
  define n where "n = min (length p + length key) MMC_MAX_KEY_LEN"
  let ?k = "take (n - length p) key"
  have n: "n \<le> MMC_MAX_KEY_LEN" "n < length mem" "length p \<le> n" "length p + length ?k = n"
    "take MMC_MAX_KEY_LEN (map key_byte (p @ key)) = map key_byte p @ map key_byte ?k"
    using buf prefix(1) by (auto simp: n_def key_buffer_def MMC_MAX_KEY_LEN_def min_def take_map)
  let ?m1 = "take n mem @ [0] @ drop (n + 1) mem"
  let ?m = "map key_byte p @ map key_byte ?k @ 0 # drop (n + 1) mem"
  have len: "(if length p + length key < MMC_MAX_KEY_LEN then length p + length key else MMC_MAX_KEY_LEN) = n"
    by (auto simp: n_def)
  have w1: "write_cells mem n [0] = Some ?m1" using n by (simp add: write_cells_eq)
  have w2: "write_cells ?m1 0 (map key_byte p) = Some (map key_byte p @ drop (length p) ?m1)"
    using n(2,3) by (auto simp: write_cells_eq)
  have w3: "write_cells (map key_byte p @ drop (length p) ?m1) (length p) (map key_byte ?k) = Some ?m"
    using n by (auto simp: write_cells_eq)
  have w4: "write_cells ?m n [0] = Some ?m" using n by (auto simp: write_cells_eq)
  have w5: "write_cells ?m1 0 (map key_byte (take n key)) = Some ?m" if "p = []"
    using n that by (auto simp: write_cells_eq)
  have "mmc_prepare_key_ex key mem prefix = Some (MMC_OK, ?m, Some n)"
  proof (cases "p = []")
    case True
    have "(if length key < MMC_MAX_KEY_LEN then length key else MMC_MAX_KEY_LEN) = n"
      using True by (auto simp: n_def min_def)
    with w1 w5 [OF True] key prefix(2) [symmetric] True show ?thesis
      by (simp only: mmc_prepare_key_ex_def Let_def list.size add_0 simp_thms if_False Option.bind.simps
          length_0_conv)
  next
    case False
    with w1 w2 w3 w4 len key prefix(2) [symmetric] show ?thesis
      by (simp only: mmc_prepare_key_ex_def Let_def simp_thms if_False if_True Option.bind.simps length_0_conv)
  qed
  moreover have "length ?m = length mem" "take n ?m = map key_byte p @ map key_byte ?k" "?m ! n = 0"
    using n by (auto simp: nth_append)
  ultimately show ?thesis using n by (auto simp: n_def)
qed

text \<open>A prefix longer than the key buffer is written past its end, whatever the key.\<close>

lemma prepare_key_ex_overflow:
  assumes "key \<noteq> []" and "key_buffer mem" and "MMC_MAX_KEY_LEN + 1 < length p"
  shows "mmc_prepare_key_ex key mem (Some p) = None"
proof -
  have "write_cells (take n mem @ [0] @ drop (n + 1) mem) 0 (map key_byte p) = None" if "n \<le> MMC_MAX_KEY_LEN" for n
    using assms that by (auto simp: write_cells_eq key_buffer_def)
  then show ?thesis
    using assms by (auto simp: mmc_prepare_key_ex_def Let_def write_cells_eq key_buffer_def
        simp del: write_cells.simps append_Cons append.simps)
qed

text \<open>
  A prefix of exactly 251 bytes still fits: its last byte lands on the cell of the
  terminator, which is stored again afterwards.
\<close>

lemma prepare_key_ex_251:
  assumes "key \<noteq> []" and "key_buffer mem" and "length p = MMC_MAX_KEY_LEN + 1"
  shows "mmc_prepare_key_ex key mem (Some p) \<noteq> None"
  using assms by (auto simp: mmc_prepare_key_ex_def Let_def write_cells_eq key_buffer_def
      MMC_MAX_KEY_LEN_def simp del: write_cells.simps)

subsection \<open>The configured prefixes\<close>

text \<open>
  The settings one of the two prefix functions reads. \<^verbatim>\<open>$_SERVER['SERVER_NAME']\<close> belongs
  to PHP: it is an argument, \<open>None\<close> when the variable is missing or not a string.
\<close>

record prefix_settings =
  ps_static_key :: "buf option"
  ps_host_key :: bool
  ps_remove_www :: bool
  ps_remove_subdomain :: bool

definition tolower :: "u8 \<Rightarrow> u8" where
  "tolower c = (if 65 \<le> c \<and> c \<le> 90 then c + 32 else c)"

definition strncasecmp_eq :: "buf \<Rightarrow> buf \<Rightarrow> nat \<Rightarrow> bool" where
  "strncasecmp_eq a b n \<longleftrightarrow> map tolower (take n a) = map tolower (take n b)"

text \<open>
  The scan for dots runs from \<^verbatim>\<open>strlen(server_name)\<close> down to index 1 and stores what it finds
  in \<^verbatim>\<open>char *dots_ptr[3]\<close>. Its guard compares the count with \<^verbatim>\<open>sizeof(dots_ptr)\<close>, the size
  in bytes (24 with 8-byte pointers), so a fourth dot is stored outside the array: \<open>None\<close>.
\<close>

definition sizeof_dots_ptr :: nat where "sizeof_dots_ptr = 24"

fun scan_dots :: "buf \<Rightarrow> nat \<Rightarrow> nat list \<Rightarrow> nat list option" where
  "scan_dots name 0 dots = Some dots"
| "scan_dots name (Suc i) dots =
     (if length dots = sizeof_dots_ptr then Some dots
      else if Suc i < length name \<and> name ! Suc i = 46
      then (if length dots < 3 then scan_dots name i (dots @ [Suc i]) else None)
      else scan_dots name i dots)"

definition remove_subdomain :: "buf \<Rightarrow> buf option" where
  "remove_subdomain name =
     do {
       dots \<leftarrow> scan_dots name (length name) [];
       Some (if 1 < length dots \<and> dots ! 1 + 1 < length name then drop (dots ! 1 + 1) name else name)
     }"

definition prefix_server_name :: "prefix_settings \<Rightarrow> buf option \<Rightarrow> buf option" where
  "prefix_server_name ps token =
     (case token of
        None \<Rightarrow> Some []
      | Some t \<Rightarrow>
          if ps_host_key ps then
            let name = (if ps_remove_www ps \<and> strncasecmp_eq (bytes ''www.'') t 4 then drop 4 t else t)
            in if ps_remove_subdomain ps then remove_subdomain name else Some name
          else Some [])"

text \<open>The outer option is a store outside \<^verbatim>\<open>dots_ptr\<close>, the inner one the NULL prefix.\<close>

definition get_key_prefix :: "prefix_settings \<Rightarrow> buf option \<Rightarrow> buf option option" where
  "get_key_prefix ps token =
     do {
       server_name \<leftarrow> prefix_server_name ps token;
       let static_key = (case ps_static_key ps of None \<Rightarrow> [] | Some k \<Rightarrow> k);
       Some (if static_key = [] \<and> server_name = [] then None else Some (static_key @ server_name))
     }"

definition get_session_key_prefix :: "prefix_settings \<Rightarrow> buf option \<Rightarrow> buf option option" where
  "get_session_key_prefix ps token =
     do {
       server_name \<leftarrow> prefix_server_name ps token;
       let static_key = (case ps_static_key ps of None \<Rightarrow> [] | Some k \<Rightarrow> k);
       Some (if static_key = [] \<and> server_name = [] then None else Some (static_key @ server_name))
     }"

text \<open>The dots of a name that the scan sees: all but one at index 0, rightmost first.\<close>

definition dot_positions :: "buf \<Rightarrow> nat \<Rightarrow> nat list" where
  "dot_positions name n = rev (filter (\<lambda>i. i < length name \<and> name ! i = 46) [1..<Suc n])"

lemma dot_positions_Suc:
  "dot_positions name (Suc n) =
     (if Suc n < length name \<and> name ! Suc n = 46 then [Suc n] else []) @ dot_positions name n"
  by (simp add: dot_positions_def)

lemma dot_positions_0 [simp]: "dot_positions name 0 = []"
  by (simp add: dot_positions_def)

lemma scan_dots_eq:
  "length dots \<le> 3 \<Longrightarrow>
   scan_dots name n dots =
     (if length dots + length (dot_positions name n) \<le> 3 then Some (dots @ dot_positions name n) else None)"
  by (induction name n dots rule: scan_dots.induct)
     (auto simp: dot_positions_Suc sizeof_dots_ptr_def)

lemma remove_subdomain_eq:
  "remove_subdomain name =
     (let dots = dot_positions name (length name) in
      if length dots > 3 then None
      else Some (if 1 < length dots \<and> dots ! 1 + 1 < length name then drop (dots ! 1 + 1) name else name))"
  by (simp add: remove_subdomain_def scan_dots_eq Let_def not_less)

lemma prepare_key_ex_prepared:
  assumes "key \<noteq> []" and "key_buffer mem" and "length p \<le> MMC_MAX_KEY_LEN"
    and "p = (case prefix of None \<Rightarrow> [] | Some p \<Rightarrow> p)"
  shows "\<exists>mem' n k. mmc_prepare_key_ex key mem prefix = Some (MMC_OK, mem', Some n) \<and>
    prepared_key (mmc_prepare_key_ex key mem prefix) = Some k \<and> key_buffer mem' \<and>
    k = take MMC_MAX_KEY_LEN (map key_byte (p @ key)) \<and> mem' ! n = 0 \<and>
    k \<noteq> [] \<and> length k \<le> MMC_MAX_KEY_LEN \<and> (\<forall>b \<in> set k. 32 < b)"
proof -
  let ?k = "take MMC_MAX_KEY_LEN (map key_byte (p @ key))"
  have "\<forall>b \<in> set ?k. 32 < b" by (auto simp: key_byte_printable dest!: in_set_takeD)
  moreover have "?k \<noteq> []" using assms(1) by (simp add: MMC_MAX_KEY_LEN_def)
  ultimately show ?thesis
    using prepare_key_ex_ok [OF assms] assms(2) by (auto simp: prepared_key_def key_buffer_def)
qed

subsection \<open>Properties\<close>

text \<open>
  C26: What is sent for a key: with a prefix of at most 250 bytes, the prepared key is the
  prefix and the key cut to 250 bytes, every byte up to the space replaced by an underscore;
  it is not empty, it holds no space or control character, and a terminator follows it.
\<close>

theorem prepare_key_ex_result:
  assumes "key \<noteq> []" and "key_buffer mem" and "length p \<le> MMC_MAX_KEY_LEN"
    and "p = (case prefix of None \<Rightarrow> [] | Some p \<Rightarrow> p)"
  shows "\<exists>mem' n k. mmc_prepare_key_ex key mem prefix = Some (MMC_OK, mem', Some n) \<and>
    prepared_key (mmc_prepare_key_ex key mem prefix) = Some k \<and> key_buffer mem' \<and>
    k = take MMC_MAX_KEY_LEN (map key_byte (p @ key)) \<and> mem' ! n = 0 \<and>
    k \<noteq> [] \<and> length k \<le> MMC_MAX_KEY_LEN \<and> (\<forall>b \<in> set k. 32 < b)"
  by (rule prepare_key_ex_prepared [OF assms])

theorem prepare_key_ex_result_witness:
  "\<exists>k. prepared_key (mmc_prepare_key_ex [97, 32, 10] (replicate 251 0) (Some [112])) = Some k \<and>
    k = [112, 97, 95, 95]"
  using prepare_key_ex_result [of "[97, 32, 10]" "replicate 251 0" "[112]" "Some [112]"]
  by (auto simp: key_buffer_def MMC_MAX_KEY_LEN_def key_byte_def)

text \<open>
  The key buffer is overrun exactly by a prefix of more than 251 bytes: the loop that
  copies the prefix is not bounded by the buffer, only the part of the key is.
\<close>

theorem prepare_key_ex_safe_iff:
  assumes "key \<noteq> []" and "key_buffer mem"
  shows "mmc_prepare_key_ex key mem prefix \<noteq> None \<longleftrightarrow>
    length (case prefix of None \<Rightarrow> [] | Some p \<Rightarrow> p) \<le> MMC_MAX_KEY_LEN + 1"
proof -
  let ?p = "case prefix of None \<Rightarrow> [] | Some p \<Rightarrow> p"
  consider "length ?p \<le> MMC_MAX_KEY_LEN" | "length ?p = MMC_MAX_KEY_LEN + 1" | "MMC_MAX_KEY_LEN + 1 < length ?p"
    by linarith
  then show ?thesis
  proof cases
    case 1
    then show ?thesis using prepare_key_ex_ok [OF assms 1 refl] by auto
  next
    case 2
    then obtain p where "prefix = Some p" by (cases prefix) auto
    then show ?thesis using prepare_key_ex_251 [OF assms, of p] 2 by simp
  next
    case 3
    then obtain p where "prefix = Some p" by (cases prefix) auto
    then show ?thesis using prepare_key_ex_overflow [OF assms, of p] 3 by simp
  qed
qed

theorem prepare_key_ex_safe_iff_witness:
  "mmc_prepare_key_ex [107] (replicate 251 0) (Some (replicate 252 112)) = None"
  using prepare_key_ex_safe_iff [of "[107]" "replicate 251 0" "Some (replicate 252 112)"]
  by (simp add: key_buffer_def MMC_MAX_KEY_LEN_def del: not_None_eq)

text \<open>
  Building the key prefix stores outside \<^verbatim>\<open>dots_ptr\<close> exactly when the subdomain is to be
  removed from a server name that has more than three dots after its first character.
\<close>

theorem get_key_prefix_safe_iff:
  "get_key_prefix ps (Some t) \<noteq> None \<longleftrightarrow>
     \<not> (ps_host_key ps \<and> ps_remove_subdomain ps \<and>
        (let name = (if ps_remove_www ps \<and> strncasecmp_eq (bytes ''www.'') t 4 then drop 4 t else t)
         in 3 < length (filter (\<lambda>i. name ! i = 46) [1..<length name])))"
proof -
  have "length (dot_positions name (length name)) = length (filter (\<lambda>i. name ! i = 46) [1..<length name])" for name
  proof -
    have "filter (\<lambda>i. i < length name \<and> name ! i = 46) [1..<Suc (length name)] =
        filter (\<lambda>i. name ! i = 46) [1..<length name]"
      by (cases "length name") (auto intro!: filter_cong)
    then show ?thesis by (simp add: dot_positions_def)
  qed
  then show ?thesis
    by (auto simp: get_key_prefix_def prefix_server_name_def remove_subdomain_eq Let_def)
qed

end
