(* ===== verification/Mmc_Value.thy ===== *)
theory Mmc_Value
  imports Mmc_Key
begin

text \<open>
  Values: \<^verbatim>\<open>mmc_pack_value\<close>, \<^verbatim>\<open>mmc_compress\<close>, \<^verbatim>\<open>mmc_uncompress\<close> and \<^verbatim>\<open>mmc_unpack_value\<close> of
  \<^verbatim>\<open>src/memcache_pool.c\<close>. A PHP value is turned into bytes and 32 bits of flags that say how
  to read them back.

  PHP's serializer, zlib and the conversions of floating point numbers are not part of the
  repository: they are the fields of \<open>php_runtime\<close>. The type \<open>'d\<close> is PHP's double and \<open>'o\<close>
  stands for arrays and objects, which the code only hands to the serializer.
\<close>

subsection \<open>Flags (memcache\_pool.h)\<close>

definition MMC_SERIALIZED :: u32 where [mmc_consts]: "MMC_SERIALIZED = 0x0001"
definition MMC_COMPRESSED :: u32 where [mmc_consts]: "MMC_COMPRESSED = 0x0002"
definition MMC_TYPE_STRING :: u32 where [mmc_consts]: "MMC_TYPE_STRING = 0x0000"
definition MMC_TYPE_BOOL :: u32 where [mmc_consts]: "MMC_TYPE_BOOL = 0x0100"
definition MMC_TYPE_LONG :: u32 where [mmc_consts]: "MMC_TYPE_LONG = 0x0300"
definition MMC_TYPE_DOUBLE :: u32 where [mmc_consts]: "MMC_TYPE_DOUBLE = 0x0700"

subsection \<open>PHP values and the runtime they need\<close>

datatype ('d, 'o) zval =
    IS_NULL | IS_FALSE | IS_TRUE | IS_LONG "64 word" | IS_DOUBLE 'd | IS_STRING buf | IS_OTHER 'o

datatype z_status = Z_OK buf | Z_BUF_ERROR | Z_DATA_ERROR

record ('d, 'o) php_runtime =
  php_var_serialize :: "('d, 'o) zval \<Rightarrow> buf option"
  php_var_unserialize :: "buf \<Rightarrow> ('d, 'o) zval option"
  z_compress :: "buf \<Rightarrow> nat \<Rightarrow> buf option"
  z_uncompress :: "buf \<Rightarrow> nat \<Rightarrow> z_status"
  printf_g14 :: "'d \<Rightarrow> buf"
  scanf_lg :: "buf \<Rightarrow> 'd"

text \<open>
  The settings of the pool that compression reads. \<open>savings_room n\<close> is the value of the C
  expression \<^verbatim>\<open>n * (1 - pool->min_compress_savings)\<close> as an \<^verbatim>\<open>unsigned long\<close>.
\<close>

record compress_settings =
  compress_threshold :: u32
  savings_room :: "nat \<Rightarrow> nat"

text \<open>The documented behaviour of the runtime that the round trip relies on.\<close>

definition php_runtime_ok :: "('d, 'o) php_runtime \<Rightarrow> bool" where
  "php_runtime_ok rt \<longleftrightarrow>
     (\<forall>v s. php_var_serialize rt v = Some s \<longrightarrow> s \<noteq> [] \<and> php_var_unserialize rt s = Some v) \<and>
     (\<forall>x n z. z_compress rt x n = Some z \<longrightarrow>
        length z \<le> n \<and> length x \<le> 1032 * length z \<and>
        (\<forall>m. z_uncompress rt z m = (if length x \<le> m then Z_OK x else Z_BUF_ERROR)))"

subsection \<open>Packing\<close>

definition mmc_compress ::
  "('d, 'o) php_runtime \<Rightarrow> compress_settings \<Rightarrow> buf \<Rightarrow> buf \<Rightarrow> u32 \<Rightarrow> bool \<Rightarrow> buf \<times> u32" where
  "mmc_compress rt pool buffer value flags copy =
     (let flags = (if compress_threshold pool \<noteq> 0 \<and> length value \<ge> unat (compress_threshold pool)
                   then flags OR MMC_COMPRESSED else flags) in
      if flags AND MMC_COMPRESSED \<noteq> 0 then
        let header = (if copy then take (length buffer - length value) buffer else buffer) in
        case z_compress rt value (savings_room pool (length value)) of
          Some out \<Rightarrow> (header @ out, flags)
        | None \<Rightarrow> (header @ value, flags AND NOT MMC_COMPRESSED)
      else if \<not> copy then (buffer @ value, flags)
      else (buffer, flags))"

definition reserved_flags :: "u32 \<Rightarrow> bool" where
  "reserved_flags flags \<longleftrightarrow> flags AND 0xffff AND NOT MMC_COMPRESSED \<noteq> 0"

text \<open>Return code, buffer and flags; a failure leaves what it has already appended.\<close>

definition mmc_pack_value ::
  "('d, 'o) php_runtime \<Rightarrow> compress_settings \<Rightarrow> buf \<Rightarrow> ('d, 'o) zval \<Rightarrow> u32 \<Rightarrow> int \<times> buf \<times> u32" where
  "mmc_pack_value rt pool buffer v flags =
     (if reserved_flags flags then (MMC_REQUEST_FAILURE, buffer, flags)
      else
        let flags = flags AND NOT MMC_SERIALIZED in
        case v of
          IS_STRING s \<Rightarrow>
            (let (b, f) = mmc_compress rt pool buffer s (flags OR MMC_TYPE_STRING) False in (MMC_OK, b, f))
        | IS_LONG l \<Rightarrow>
            (MMC_OK, buffer @ dec_int (sint l), (flags OR MMC_TYPE_LONG) AND NOT MMC_COMPRESSED)
        | IS_DOUBLE d \<Rightarrow>
            (MMC_OK, buffer @ printf_g14 rt d, (flags OR MMC_TYPE_DOUBLE) AND NOT MMC_COMPRESSED)
        | IS_TRUE \<Rightarrow> (MMC_OK, buffer @ [49], (flags OR MMC_TYPE_BOOL) AND NOT MMC_COMPRESSED)
        | IS_FALSE \<Rightarrow> (MMC_OK, buffer @ [48], (flags OR MMC_TYPE_BOOL) AND NOT MMC_COMPRESSED)
        | _ \<Rightarrow>
            (case php_var_serialize rt v of
               None \<Rightarrow> (MMC_REQUEST_FAILURE, buffer, flags)
             | Some s \<Rightarrow>
                 if s = [] then (MMC_REQUEST_FAILURE, buffer, flags)
                 else (let (b, f) = mmc_compress rt pool (buffer @ s) s (flags OR MMC_SERIALIZED) True
                       in (MMC_OK, b, f))))"

subsection \<open>Unpacking\<close>

text \<open>The output buffer is doubled until zlib has room, sixteen tries at most.\<close>

function mmc_uncompress_loop :: "('d, 'o) php_runtime \<Rightarrow> buf \<Rightarrow> nat \<Rightarrow> z_status" where
  "mmc_uncompress_loop rt data factor =
     (case z_uncompress rt data (length data * 2 ^ factor) of
        Z_BUF_ERROR \<Rightarrow> if factor + 1 < 16 then mmc_uncompress_loop rt data (factor + 1) else Z_BUF_ERROR
      | r \<Rightarrow> r)"
  by pat_completeness auto
termination by (relation "measure (\<lambda>(rt, data, factor). 16 - factor)") auto

declare mmc_uncompress_loop.simps [simp del]

definition mmc_uncompress :: "('d, 'o) php_runtime \<Rightarrow> buf \<Rightarrow> buf option" where
  "mmc_uncompress rt data =
     (case mmc_uncompress_loop rt data 1 of Z_OK r \<Rightarrow> Some r | _ \<Rightarrow> None)"

definition is_space :: "u8 \<Rightarrow> bool" where
  "is_space c \<longleftrightarrow> c = 32 \<or> 9 \<le> c \<and> c \<le> 13"

text \<open>\<^verbatim>\<open>strtol(data, NULL, 10)\<close>, which saturates at the ends of a 64-bit \<^verbatim>\<open>long\<close>.\<close>

definition strtol :: "buf \<Rightarrow> int" where
  "strtol data =
     (let s = dropWhile is_space data;
          neg = (s \<noteq> [] \<and> hd s = 45);
          s = (if s \<noteq> [] \<and> (hd s = 45 \<or> hd s = 43) then tl s else s);
          v = int (digits_val 0 (takeWhile is_digit s))
      in max (- (2 ^ 63)) (min (2 ^ 63 - 1) (if neg then - v else v)))"

text \<open>
  What a call does: hand a value to the request's value handler, return without one, or
  copy a key longer than \<^verbatim>\<open>char key_tmp[MMC_MAX_KEY_LEN + 1]\<close> into that array.
\<close>

datatype ('d, 'o) unpack_outcome =
    UnpackDeliver buf "('d, 'o) zval" u32 u64
  | UnpackDone
  | UnpackKeyOverflow

definition mmc_unpack_value ::
  "('d, 'o) php_runtime \<Rightarrow> buf \<Rightarrow> u32 \<Rightarrow> u64 \<Rightarrow> buf \<Rightarrow> ('d, 'o) unpack_outcome" where
  "mmc_unpack_value rt key flags cas payload =
     (case (if flags AND MMC_COMPRESSED \<noteq> 0 then mmc_uncompress rt payload else Some payload) of
        None \<Rightarrow> UnpackDone
      | Some data \<Rightarrow>
          if flags AND MMC_SERIALIZED \<noteq> 0 then
            if length key + 1 > MMC_MAX_KEY_LEN + 1 then UnpackKeyOverflow
            else (case php_var_unserialize rt data of
                    None \<Rightarrow> UnpackDone
                  | Some object \<Rightarrow> UnpackDeliver key object flags cas)
          else
            let kind = flags AND 0x0f00;
                object = (if kind = MMC_TYPE_LONG then IS_LONG (word_of_int (strtol data))
                          else if kind = MMC_TYPE_DOUBLE then IS_DOUBLE (scanf_lg rt data)
                          else if kind = MMC_TYPE_BOOL then (if data = [49] then IS_TRUE else IS_FALSE)
                          else IS_STRING data)
            in UnpackDeliver key object flags cas)"

subsection \<open>Decimal round trip\<close>

lemma dec_hd: "hd (dec n) \<noteq> 45 \<and> hd (dec n) \<noteq> 43 \<and> \<not> is_space (hd (dec n))"
proof -
  have "is_digit (hd (dec n))" using dec_digits [of n] hd_in_set [OF dec_not_Nil] by blast
  then show ?thesis
    by (auto simp: is_digit_def is_space_def word_le_nat_alt)
qed

lemma takeWhile_dec [simp]: "takeWhile is_digit (dec n) = dec n"
  using dec_digits [of n] by (simp add: takeWhile_eq_all_conv)

lemma dropWhile_dec [simp]: "dropWhile is_space (dec n) = dec n"
  using dec_hd [of n] by (cases "dec n") auto

lemma digits_val_dec [simp]: "digits_val 0 (dec n) = n"
  using dec_val [of 0 n] by simp

lemma strtol_dec_int:
  assumes "- (2 ^ 63) \<le> i" and "i < 2 ^ 63"
  shows "strtol (dec_int i) = i"
proof (cases "i < 0")
  case True
  then have "strtol (dec_int i) = max (- (2 ^ 63)) (min (2 ^ 63 - 1) (- int (nat (- i))))"
    by (simp add: strtol_def dec_int_def Let_def is_space_def)
  then show ?thesis using True assms by simp
next
  case False
  then have "strtol (dec_int i) = max (- (2 ^ 63)) (min (2 ^ 63 - 1) (int (nat i)))"
    using dec_hd [of "nat i"] by (simp add: strtol_def dec_int_def Let_def)
  then show ?thesis using False assms by simp
qed

lemma strtol_dec_sint [simp]: "strtol (dec_int (sint (w :: 64 word))) = sint w"
  using sint_greater_eq [of w] sint_less [of w] by (intro strtol_dec_int) auto

subsection \<open>Compression undone\<close>

lemma uncompress_loop_ok:
  assumes un: "\<forall>m. z_uncompress rt z m = (if length x \<le> m then Z_OK x else Z_BUF_ERROR)"
    and len: "length x \<le> length z * 2 ^ 15"
  shows "factor \<le> 15 \<Longrightarrow> mmc_uncompress_loop rt z factor = Z_OK x"
proof (induction "15 - factor" arbitrary: factor)
  case 0
  then have "factor = 15" by simp
  then show ?case using un len by (subst mmc_uncompress_loop.simps) simp
next
  case (Suc k)
  then have "mmc_uncompress_loop rt z (factor + 1) = Z_OK x" by simp
  moreover have "factor < 15" using Suc(2) by simp
  ultimately show ?case using un by (simp add: mmc_uncompress_loop.simps [of rt z factor])
qed

lemma uncompress_compress:
  assumes "php_runtime_ok rt" and "z_compress rt x n = Some z"
  shows "mmc_uncompress rt z = Some x"
proof -
  have "length x \<le> 1032 * length z"
    "\<forall>m. z_uncompress rt z m = (if length x \<le> m then Z_OK x else Z_BUF_ERROR)"
    using assms by (auto simp: php_runtime_ok_def)
  then have "mmc_uncompress_loop rt z 1 = Z_OK x"
    by (intro uncompress_loop_ok) auto
  then show ?thesis by (simp add: mmc_uncompress_def)
qed

text \<open>What one call of \<^verbatim>\<open>mmc_compress\<close> appends behind the bytes that were there before.\<close>

lemma compress_cases:
  assumes "mmc_compress rt pool (pre @ (if copy then v else [])) v f copy = (b, f')"
  shows "\<exists>body. b = pre @ body \<and>
    ((\<exists>n. z_compress rt v n = Some body) \<and> f' = f OR MMC_COMPRESSED \<or>
     body = v \<and> f' = f AND NOT MMC_COMPRESSED)"
proof -
  let ?f = "if compress_threshold pool \<noteq> 0 \<and> length v \<ge> unat (compress_threshold pool)
            then f OR MMC_COMPRESSED else f"
  have two: "g OR 2 = g" if "g AND 2 \<noteq> 0" for g :: u32
  proof (rule bit_word_eqI)
    fix n assume "n < LENGTH(32)"
    have "bit g 1"
      using that by (metis and_exp_eq_0_iff_not_bit power_one_right)
    then show "bit (g OR 2) n \<longleftrightarrow> bit g n" by (auto simp: bit_simps bit_2_iff)
  qed
  have zero: "g AND NOT 2 = g" if "g AND 2 = 0" for g :: u32
  proof (rule bit_word_eqI)
    fix n assume "n < LENGTH(32)"
    have "\<not> bit g 1"
      using that by (metis and_exp_eq_0_iff_not_bit power_one_right)
    then show "bit (g AND NOT 2) n \<longleftrightarrow> bit g n"
      using \<open>n < LENGTH(32)\<close> by (auto simp: bit_simps bit_2_iff)
  qed
  have drop: "(f OR 2) AND NOT 2 = f AND NOT 2" by (simp add: bit.conj_disj_distrib2)
  show ?thesis
  proof (cases "?f AND MMC_COMPRESSED \<noteq> 0")
    case True
    then have f: "?f = f OR 2" using two by (auto simp: MMC_COMPRESSED_def)
    show ?thesis
      using assms True f drop
      by (cases "z_compress rt v (savings_room pool (length v))")
        (auto simp: mmc_compress_def Let_def MMC_COMPRESSED_def split: if_splits)
  next
    case False
    then have f: "?f = f AND NOT 2" "?f = f"
      using zero by (auto simp: MMC_COMPRESSED_def bit.conj_disj_distrib2 split: if_splits)
    show ?thesis
      using assms False f
      by (auto simp: mmc_compress_def Let_def MMC_COMPRESSED_def split: if_splits)
  qed
qed

subsection \<open>Flag arithmetic\<close>

lemma clean_flags_and:
  assumes "\<not> reserved_flags f" and "m AND (0xffff AND NOT MMC_COMPRESSED) = m"
  shows "f AND m = 0"
proof -
  have "f AND m = (f AND 0xffff AND NOT MMC_COMPRESSED) AND m"
    using assms(2) by (metis and.assoc and.commute)
  then show ?thesis using assms(1) by (simp add: reserved_flags_def)
qed

lemma clean_flags:
  "\<not> reserved_flags f \<Longrightarrow> f AND 1 = 0 \<and> f AND 0x0f00 = 0"
  using clean_flags_and [of f 1] clean_flags_and [of f "0x0f00"]
  by (simp add: MMC_COMPRESSED_def)

lemmas flag_eval = bit.conj_disj_distrib2 and.assoc MMC_SERIALIZED_def MMC_COMPRESSED_def
  MMC_TYPE_STRING_def MMC_TYPE_BOOL_def MMC_TYPE_LONG_def MMC_TYPE_DOUBLE_def

subsection \<open>Round trip, value by value\<close>

lemma unpack_scalar:
  assumes "f' AND MMC_COMPRESSED = 0" and "f' AND MMC_SERIALIZED = 0"
  shows "mmc_unpack_value rt key f' cas body =
    UnpackDeliver key
      (if f' AND 0x0f00 = MMC_TYPE_LONG then IS_LONG (word_of_int (strtol body))
       else if f' AND 0x0f00 = MMC_TYPE_DOUBLE then IS_DOUBLE (scanf_lg rt body)
       else if f' AND 0x0f00 = MMC_TYPE_BOOL then (if body = [49] then IS_TRUE else IS_FALSE)
       else IS_STRING body) f' cas"
  using assms by (simp add: mmc_unpack_value_def Let_def)

text \<open>Reading back a body that \<open>compress_cases\<close> describes restores the data.\<close>

lemma unpack_compressed:
  assumes "php_runtime_ok rt"
    and "(\<exists>n. z_compress rt v n = Some body) \<and> f' = f OR MMC_COMPRESSED \<or>
         body = v \<and> f' = f AND NOT MMC_COMPRESSED"
  shows "(if f' AND MMC_COMPRESSED \<noteq> 0 then mmc_uncompress rt body else Some body) = Some v"
  using assms uncompress_compress [OF assms(1)] by (auto simp: flag_eval)

lemma pack_unpack_string:
  assumes "php_runtime_ok rt" and "\<not> reserved_flags flags"
    and "mmc_pack_value rt pool pre (IS_STRING s) flags = (MMC_OK, b, f')"
  shows "\<exists>body. b = pre @ body \<and> mmc_unpack_value rt key f' cas body = UnpackDeliver key (IS_STRING s) f' cas"
proof -
  have "mmc_compress rt pool (pre @ (if False then s else [])) s ((flags AND NOT MMC_SERIALIZED) OR MMC_TYPE_STRING) False = (b, f')"
    using assms(2,3) by (auto simp: mmc_pack_value_def Let_def split: prod.splits)
  from compress_cases [OF this] obtain body where body: "b = pre @ body"
    "(\<exists>n. z_compress rt s n = Some body) \<and> f' = (flags AND NOT MMC_SERIALIZED OR MMC_TYPE_STRING) OR MMC_COMPRESSED \<or>
     body = s \<and> f' = (flags AND NOT MMC_SERIALIZED OR MMC_TYPE_STRING) AND NOT MMC_COMPRESSED"
    by blast
  have "f' AND MMC_SERIALIZED = 0" "f' AND 0x0f00 = 0"
    using body(2) clean_flags [OF assms(2)] by (auto simp: flag_eval)
  then have "mmc_unpack_value rt key f' cas body = UnpackDeliver key (IS_STRING s) f' cas"
    using unpack_compressed [OF assms(1) body(2)]
    by (simp add: mmc_unpack_value_def Let_def flag_eval)
  then show ?thesis using body(1) by blast
qed

lemma pack_unpack_serialized:
  assumes "php_runtime_ok rt" and "\<not> reserved_flags flags" and "length key \<le> MMC_MAX_KEY_LEN"
    and "v = IS_NULL \<or> (\<exists>x. v = IS_OTHER x)"
    and "mmc_pack_value rt pool pre v flags = (MMC_OK, b, f')"
  shows "\<exists>body. b = pre @ body \<and> mmc_unpack_value rt key f' cas body = UnpackDeliver key v f' cas"
proof -
  obtain s where s: "php_var_serialize rt v = Some s"
    "mmc_compress rt pool (pre @ s) s ((flags AND NOT MMC_SERIALIZED) OR MMC_SERIALIZED) True = (b, f')"
    using assms(2,4,5)
    by (auto simp: mmc_pack_value_def Let_def mmc_consts split: option.splits if_splits prod.splits)
  have un: "php_var_unserialize rt s = Some v"
    using assms(1) s(1) by (auto simp: php_runtime_ok_def)
  have "mmc_compress rt pool (pre @ (if True then s else [])) s ((flags AND NOT MMC_SERIALIZED) OR MMC_SERIALIZED) True = (b, f')"
    using s(2) by simp
  from compress_cases [OF this] obtain body where body: "b = pre @ body"
    "(\<exists>n. z_compress rt s n = Some body) \<and> f' = (flags AND NOT MMC_SERIALIZED OR MMC_SERIALIZED) OR MMC_COMPRESSED \<or>
     body = s \<and> f' = (flags AND NOT MMC_SERIALIZED OR MMC_SERIALIZED) AND NOT MMC_COMPRESSED"
    by blast
  have "f' AND MMC_SERIALIZED \<noteq> 0"
    using body(2) by (auto simp: flag_eval)
  then have "mmc_unpack_value rt key f' cas body = UnpackDeliver key v f' cas"
    using unpack_compressed [OF assms(1) body(2)] un assms(3)
    by (simp add: mmc_unpack_value_def Let_def)
  then show ?thesis using body(1) by blast
qed

lemma pack_unpack_scalar:
  assumes "\<not> reserved_flags flags"
    and "v = IS_TRUE \<or> v = IS_FALSE \<or> (\<exists>l. v = IS_LONG l) \<or> (\<exists>d. v = IS_DOUBLE d \<and> scanf_lg rt (printf_g14 rt d) = d)"
    and "mmc_pack_value rt pool pre v flags = (MMC_OK, b, f')"
  shows "\<exists>body. b = pre @ body \<and> mmc_unpack_value rt key f' cas body = UnpackDeliver key v f' cas"
proof -
  have pk: "flags AND 1 = 0" "flags AND 0x0f00 = 0" using clean_flags [OF assms(1)] by auto
  from assms show ?thesis
    by (auto simp: mmc_pack_value_def Let_def unpack_scalar flag_eval pk)
qed

lemma pack_ok_not_reserved:
  "mmc_pack_value rt pool pre v flags = (MMC_OK, b, f') \<Longrightarrow> \<not> reserved_flags flags"
  by (auto simp: mmc_pack_value_def mmc_consts)

lemma compress_high_flags:
  assumes "mmc_compress rt pool buffer v f copy = (b, f')"
  shows "f' AND 0xffff0000 = f AND 0xffff0000"
  using assms by (auto simp: mmc_compress_def Let_def flag_eval split: if_splits option.splits)

lemma pack_high_flags:
  assumes "mmc_pack_value rt pool pre v flags = (c, b, f')"
  shows "f' AND 0xffff0000 = flags AND 0xffff0000"
  using assms
  by (auto simp: mmc_pack_value_def Let_def flag_eval dest!: compress_high_flags
      split: if_splits option.splits zval.splits prod.splits)

text \<open>Packing only appends, and what it appends reads back.\<close>

lemma pack_unpack_any:
  assumes "php_runtime_ok rt" and "length key \<le> MMC_MAX_KEY_LEN"
    and "\<And>d. v = IS_DOUBLE d \<Longrightarrow> scanf_lg rt (printf_g14 rt d) = d"
    and "mmc_pack_value rt pool pre v flags = (MMC_OK, b, f')"
  shows "\<exists>body. b = pre @ body \<and> mmc_unpack_value rt key f' cas body = UnpackDeliver key v f' cas"
proof -
  note clean = pack_ok_not_reserved [OF assms(4)]
  show ?thesis
  proof (cases v)
    case (IS_STRING s)
    then show ?thesis using pack_unpack_string [OF assms(1) clean] assms(4) by blast
  next
    case IS_NULL
    then show ?thesis using pack_unpack_serialized [OF assms(1) clean assms(2) _ assms(4)] by blast
  next
    case (IS_OTHER x)
    then show ?thesis using pack_unpack_serialized [OF assms(1) clean assms(2) _ assms(4)] by blast
  qed (use pack_unpack_scalar [OF clean _ assms(4)] assms(3) in blast)+
qed

lemma pack_appends:
  assumes "mmc_pack_value rt pool pre v flags = (MMC_OK, b, f')"
  shows "\<exists>body. b = pre @ body"
proof -
  have cmp: "\<exists>body. b = pre @ body" if "mmc_compress rt pool (pre @ (if copy then s else [])) s f copy = (b, f')" for s f copy
    using compress_cases [OF that] by blast
  show ?thesis
    using assms cmp [where copy = False] cmp [where copy = True]
    by (auto simp: mmc_pack_value_def Let_def mmc_consts split: if_splits zval.splits option.splits prod.splits)
qed

subsection \<open>Properties\<close>

text \<open>
  C19: Whatever \<^verbatim>\<open>mmc_pack_value\<close> accepts, \<^verbatim>\<open>mmc_unpack_value\<close> reads back from the bytes it
  appended and the flags it set: strings, integers, booleans, null, arrays and objects,
  compressed or not, for every key that fits a request. Doubles come back when their
  14-digit text determines them. The application's flags (the upper 16 bits) are kept.
\<close>

theorem pack_unpack_roundtrip:
  assumes "php_runtime_ok rt" and "length key \<le> MMC_MAX_KEY_LEN"
    and "\<And>d. v = IS_DOUBLE d \<Longrightarrow> scanf_lg rt (printf_g14 rt d) = d"
    and "mmc_pack_value rt pool pre v flags = (MMC_OK, b, f')"
  shows "\<exists>body. b = pre @ body \<and>
           mmc_unpack_value rt key f' cas body = UnpackDeliver key v f' cas \<and>
           f' AND 0xffff0000 = flags AND 0xffff0000"
proof -
  have "\<exists>body. b = pre @ body \<and> mmc_unpack_value rt key f' cas body = UnpackDeliver key v f' cas"
    by (rule pack_unpack_any [OF assms])
  then show ?thesis using pack_high_flags [OF assms(4)] by blast
qed

text \<open>A runtime for the witness: no double or array, serialization by a marker byte, no zlib.\<close>

definition plain_runtime :: "(unit, unit) php_runtime" where
  "plain_runtime = \<lparr>php_var_serialize = (\<lambda>v. if v = IS_NULL then Some [78] else None),
     php_var_unserialize = (\<lambda>s. if s = [78] then Some IS_NULL else None),
     z_compress = (\<lambda>x n. None), z_uncompress = (\<lambda>z m. Z_DATA_ERROR),
     printf_g14 = (\<lambda>d. [48]), scanf_lg = (\<lambda>s. ())\<rparr>"

lemma plain_runtime_ok: "php_runtime_ok plain_runtime"
  by (auto simp: php_runtime_ok_def plain_runtime_def split: if_splits)

theorem pack_unpack_roundtrip_witness:
  "\<exists>body. mmc_pack_value plain_runtime \<lparr>compress_threshold = 20000, savings_room = (\<lambda>n. n)\<rparr> [1]
     (IS_LONG (- 7)) 0x10000 = (MMC_OK, [1, 45, 55], 0x10300) \<and>
   [1, 45, 55] = [1] @ body \<and>
   mmc_unpack_value plain_runtime (bytes ''k'') 0x10300 5 body =
     UnpackDeliver (bytes ''k'') (IS_LONG (- 7)) 0x10300 5"
proof -
  have "mmc_pack_value plain_runtime \<lparr>compress_threshold = 20000, savings_room = (\<lambda>n. n)\<rparr> [1]
     (IS_LONG (- 7)) 0x10000 = (MMC_OK, [1, 45, 55], 0x10300)"
    by (simp add: mmc_pack_value_def Let_def flag_eval reserved_flags_def dec_int_def dec.simps)
  from pack_unpack_roundtrip [OF plain_runtime_ok _ _ this, of "bytes ''k''" 5] this show ?thesis
    by (auto simp: MMC_MAX_KEY_LEN_def)
qed

text \<open>
  \<^verbatim>\<open>mmc_unpack_value\<close> copies the key of a serialized value into an array of 251 bytes
  without a check: a call overflows it exactly when the value is serialized, could be
  uncompressed, and the key is longer than 250 bytes. (The binary protocol passes the
  caller's own key, which no one has truncated.)
\<close>

theorem unpack_key_overflow_iff:
  "mmc_unpack_value rt key flags cas payload = UnpackKeyOverflow \<longleftrightarrow>
     flags AND MMC_SERIALIZED \<noteq> 0 \<and> MMC_MAX_KEY_LEN < length key \<and>
     \<not> (flags AND MMC_COMPRESSED \<noteq> 0 \<and> mmc_uncompress rt payload = None)"
  by (auto simp: mmc_unpack_value_def Let_def split: option.splits if_splits)

end
