(* ===== verification/Mmc_Stream.thy ===== *)
theory Mmc_Stream
  imports Mmc_Prelude
begin

text \<open>
  Streams: the read buffer of a stream with \<^verbatim>\<open>mmc_stream_read_buffered\<close> and
  \<^verbatim>\<open>mmc_stream_readline_buffered\<close> of \<^verbatim>\<open>src/memcache_pool.c\<close>, the line reader of the ascii
  protocol and the block reader of the binary one, which both collect partial input in
  \<^verbatim>\<open>io->input\<close> until it is complete.

  A stream over TCP reads with PHP's \<^verbatim>\<open>php_stream_read\<close> and \<^verbatim>\<open>php_stream_get_line\<close>; on the
  bytes that have arrived they do what the two buffered readers do, so the buffer of the
  model holds the received bytes of either kind of stream.
\<close>

record mmc_buffer_t =
  b_value :: buf
  b_idx :: nat

record mmc_io =
  io_buffer :: mmc_buffer_t
  io_input :: buf

definition mmc_buffer_reset :: "mmc_buffer_t \<Rightarrow> mmc_buffer_t" where
  "mmc_buffer_reset b = b\<lparr>b_value := [], b_idx := 0\<rparr>"

definition mmc_stream_read_buffered :: "mmc_buffer_t \<Rightarrow> nat \<Rightarrow> buf \<times> mmc_buffer_t" where
  "mmc_stream_read_buffered b count =
     (let toread = (if length (b_value b) - b_idx b < count then length (b_value b) - b_idx b else count)
      in (take toread (drop (b_idx b) (b_value b)), b\<lparr>b_idx := b_idx b + toread\<rparr>))"

text \<open>\<^verbatim>\<open>memchr\<close> returns the offset of the byte; \<^verbatim>\<open>maxlen\<close> counts the terminating NUL.\<close>

fun memchr :: "u8 \<Rightarrow> buf \<Rightarrow> nat option" where
  "memchr c [] = None"
| "memchr c (b # bs) = (if b = c then Some 0 else map_option Suc (memchr c bs))"

definition mmc_stream_readline_buffered :: "mmc_buffer_t \<Rightarrow> nat \<Rightarrow> buf \<times> mmc_buffer_t" where
  "mmc_stream_readline_buffered b maxlen =
     (let rest = drop (b_idx b) (b_value b);
          retlen = (case memchr 10 rest of Some eol \<Rightarrow> eol + 1 | None \<Rightarrow> length (b_value b) - b_idx b);
          retlen = (if retlen \<ge> maxlen then maxlen - 1 else retlen)
      in (take retlen rest, b\<lparr>b_idx := b_idx b + retlen\<rparr>))"

subsection \<open>Collecting a line and a block\<close>

text \<open>\<open>None\<close> is the return value 0: no complete line yet.\<close>

definition mmc_stream_get_line :: "mmc_io \<Rightarrow> buf option \<times> mmc_io" where
  "mmc_stream_get_line io =
     (let (got, b) = mmc_stream_readline_buffered (io_buffer io) (MMC_BUFFER_SIZE - length (io_input io));
          inp = io_input io @ got
      in if inp \<noteq> [] \<and> last inp = 10
         then (Some inp, io\<lparr>io_buffer := b, io_input := []\<rparr>)
         else (None, io\<lparr>io_buffer := b, io_input := inp\<rparr>))"

definition mmc_stream_get :: "mmc_io \<Rightarrow> nat \<Rightarrow> buf option \<times> mmc_io" where
  "mmc_stream_get io n =
     (let (got, b) = mmc_stream_read_buffered (io_buffer io) (n - length (io_input io));
          inp = io_input io @ got
      in if length inp \<ge> n
         then (Some inp, io\<lparr>io_buffer := b, io_input := []\<rparr>)
         else (None, io\<lparr>io_buffer := b, io_input := inp\<rparr>))"

subsection \<open>What has arrived and was not read\<close>

definition unread :: "mmc_io \<Rightarrow> buf" where
  "unread io = drop (b_idx (io_buffer io)) (b_value (io_buffer io))"

text \<open>The network delivers more bytes.\<close>

definition receive :: "mmc_io \<Rightarrow> buf \<Rightarrow> mmc_io" where
  "receive io bs = io\<lparr>io_buffer := (io_buffer io)\<lparr>b_value := b_value (io_buffer io) @ bs\<rparr>\<rparr>"

definition io_ok :: "mmc_io \<Rightarrow> bool" where
  "io_ok io \<longleftrightarrow> b_idx (io_buffer io) \<le> length (b_value (io_buffer io)) \<and>
     length (io_input io) < MMC_BUFFER_SIZE"

lemma receive_simps [simp]:
  "io_ok io \<Longrightarrow> unread (receive io bs) = unread io @ bs"
  "io_input (receive io bs) = io_input io"
  "io_ok io \<Longrightarrow> io_ok (receive io bs)"
  by (auto simp: receive_def unread_def io_ok_def)

definition empty_io :: mmc_io where
  "empty_io = \<lparr>io_buffer = \<lparr>b_value = [], b_idx = 0\<rparr>, io_input = []\<rparr>"

lemma empty_io_simps [simp]: "io_ok empty_io" "unread empty_io = []" "io_input empty_io = []"
  by (simp_all add: empty_io_def io_ok_def unread_def MMC_BUFFER_SIZE_def)

definition fresh_io :: "buf \<Rightarrow> mmc_io" where
  "fresh_io body = \<lparr>io_buffer = \<lparr>b_value = body, b_idx = 0\<rparr>, io_input = []\<rparr>"

lemma memchr_None: "memchr c xs = None \<longleftrightarrow> c \<notin> set xs"
  by (induction xs) auto

lemma memchr_Some: "memchr c xs = Some n \<Longrightarrow> n < length xs \<and> xs ! n = c \<and> c \<notin> set (take n xs)"
  by (induction xs arbitrary: n) (auto split: if_splits)

lemma memchr_append: "c \<notin> set xs \<Longrightarrow> memchr c (xs @ c # ys) = Some (length xs)"
  by (induction xs) auto

lemma length_unread: "length (b_value (io_buffer io)) - b_idx (io_buffer io) = length (unread io)"
  by (simp add: unread_def)

lemma get_line_complete:
  assumes "io_ok io" and "10 \<notin> set xs" and "unread io = xs @ 10 # rest"
    and "length (io_input io) + length xs + 1 < MMC_BUFFER_SIZE"
  shows "\<exists>io'. mmc_stream_get_line io = (Some (io_input io @ xs @ [10]), io') \<and>
     io_ok io' \<and> io_input io' = [] \<and> unread io' = rest"
proof -
  let ?v = "b_value (io_buffer io)" and ?i = "b_idx (io_buffer io)"
  have rest: "drop (?i + Suc (length xs)) ?v = rest"
    using assms(3) by (metis add.commute append_Cons append_Nil append_assoc append_eq_conv_conj
        drop_drop length_append_singleton unread_def)
  have "length ?v - ?i = length xs + 1 + length rest"
    using arg_cong [OF assms(3), of length] by (simp add: unread_def)
  then have len: "?i + Suc (length xs) \<le> length ?v" by linarith
  show ?thesis
    using assms rest len
    by (simp add: mmc_stream_get_line_def mmc_stream_readline_buffered_def Let_def memchr_append
        unread_def io_ok_def)
qed

lemma get_line_partial:
  assumes "io_ok io" and "10 \<notin> set (unread io)" and "10 \<notin> set (io_input io)"
    and "length (io_input io) + length (unread io) < MMC_BUFFER_SIZE"
  shows "\<exists>io'. mmc_stream_get_line io = (None, io') \<and>
     io_ok io' \<and> io_input io' = io_input io @ unread io \<and> unread io' = []"
proof -
  have "last (io_input io @ unread io) \<noteq> 10" if "io_input io @ unread io \<noteq> []"
    using assms(2,3) that last_in_set [OF that] by auto
  moreover have "memchr 10 (unread io) = None" using assms(2) by (simp add: memchr_None)
  ultimately show ?thesis
    using assms
    by (auto simp: mmc_stream_get_line_def mmc_stream_readline_buffered_def Let_def
        unread_def io_ok_def)
qed

text \<open>
  The input buffer \<^verbatim>\<open>char value[MMC_BUFFER_SIZE]\<close> keeps one free cell for the NUL.
\<close>

lemma get_line_ok: "io_ok io \<Longrightarrow> io_ok (snd (mmc_stream_get_line io))"
  by (auto simp: mmc_stream_get_line_def mmc_stream_readline_buffered_def Let_def io_ok_def
      MMC_BUFFER_SIZE_def split: option.splits dest!: memchr_Some)

text \<open>
  One call on a stream whose next line is \<open>xs\<close>, when part of it may not have arrived yet
  (\<open>future\<close>): the line is returned, or everything that has arrived is kept as input.
\<close>

lemma get_line_stream:
  assumes "io_ok io" and "10 \<notin> set (io_input io)" and "10 \<notin> set xs"
    and "io_input io @ unread io @ future = xs @ 10 # rest" and "length xs + 1 < MMC_BUFFER_SIZE"
  shows "(\<exists>io'. mmc_stream_get_line io = (Some (xs @ [10]), io') \<and> io_ok io' \<and> io_input io' = [] \<and>
            unread io' @ future = rest) \<or>
         (\<exists>io'. mmc_stream_get_line io = (None, io') \<and> io_ok io' \<and> 10 \<notin> set (io_input io') \<and>
            unread io' = [] \<and> io_input io' @ future = xs @ 10 # rest)"
proof (cases "10 \<in> set (unread io)")
  case True
  then obtain u w where c: "unread io = u @ 10 # w" "10 \<notin> set u" by (meson split_list_first)
  have "(io_input io @ u) @ 10 # (w @ future) = xs @ 10 # rest"
    using assms(4) c by simp
  then have eq: "io_input io @ u = xs" "w @ future = rest"
    using assms(2,3) c(2) split_first_unique [of 10 "io_input io @ u" xs] by auto
  have "length (io_input io) + length u + 1 < MMC_BUFFER_SIZE"
    using assms(5) by (simp flip: eq(1))
  from get_line_complete [OF assms(1) c(2,1) this] show ?thesis using eq by auto
next
  case False
  have "length (io_input io @ unread io) \<le> length xs"
  proof (rule ccontr)
    assume long: "\<not> length (io_input io @ unread io) \<le> length xs"
    then have "(io_input io @ unread io) ! length xs = 10"
      using assms(4) by (metis append_assoc not_le nth_append nth_append_length)
    then show False using False assms(2) long
      by (metis not_le nth_mem set_append UnE)
  qed
  then have "length (io_input io) + length (unread io) < MMC_BUFFER_SIZE"
    using assms(5) by simp
  from get_line_partial [OF assms(1) False assms(2) this] False assms(2,4) show ?thesis by auto
qed

subsection \<open>Later bytes do not change earlier reads\<close>

lemma receive_Nil: "receive io [] = io"
  by (simp add: receive_def)

lemma receive_receive: "receive io (c @ d) = receive (receive io c) d"
  by (simp add: receive_def)

lemma io_eqI:
  "b_value (io_buffer x) = b_value (io_buffer y) \<Longrightarrow> b_idx (io_buffer x) = b_idx (io_buffer y) \<Longrightarrow>
   io_input x = io_input y \<Longrightarrow> x = (y :: mmc_io)"
  by (cases x; cases y) (auto intro: mmc_buffer_t.equality)

lemma memchr_append_Some: "memchr c xs = Some n \<Longrightarrow> memchr c (xs @ ys) = Some n"
  by (induction xs arbitrary: n) auto

lemma memchr_append_None:
  "memchr c xs = None \<Longrightarrow> memchr c (xs @ ys) = map_option (\<lambda>n. length xs + n) (memchr c ys)"
  by (cases "memchr c ys"; induction xs) (auto split: if_splits)

definition read_io :: "mmc_io \<Rightarrow> bool" where
  "read_io io \<longleftrightarrow> b_idx (io_buffer io) \<le> length (b_value (io_buffer io))"

lemma unread_receive: "read_io io \<Longrightarrow> unread (receive io d) = unread io @ d"
  by (simp add: read_io_def unread_def receive_def)

lemma read_io_receive: "read_io io \<Longrightarrow> read_io (receive io d)"
  by (simp add: read_io_def receive_def)

text \<open>Reading \<open>k\<close> of the bytes that have arrived commutes with the arrival of more.\<close>

definition advance :: "nat \<Rightarrow> mmc_io \<Rightarrow> mmc_io" where
  "advance k io = io\<lparr>io_buffer := (io_buffer io)\<lparr>b_idx := b_idx (io_buffer io) + k\<rparr>\<rparr>"

lemma advance_simps:
  "io_input (advance k io) = io_input io"
  "unread (advance k io) = drop k (unread io)"
  "advance k (receive io d) = receive (advance k io) d"
  "advance j (advance k io) = advance (k + j) io"
  "read_io io \<Longrightarrow> k \<le> length (unread io) \<Longrightarrow> read_io (advance k io)"
  by (auto simp: advance_def unread_def receive_def read_io_def add.commute add.assoc)

lemma receive_input: "receive (io\<lparr>io_input := i\<rparr>) d = (receive io d)\<lparr>io_input := i\<rparr>"
  by (simp add: receive_def)

lemma io_input_upd: "(io :: mmc_io)\<lparr>io_input := i\<rparr>\<lparr>io_input := j\<rparr> = io\<lparr>io_input := j\<rparr>"
  by simp

lemma read_io_input [simp]: "read_io (io\<lparr>io_input := i\<rparr>) = read_io io"
  and unread_input [simp]: "unread (io\<lparr>io_input := i\<rparr>) = unread io"
  and advance_input: "advance k (io\<lparr>io_input := i\<rparr>) = (advance k io)\<lparr>io_input := i\<rparr>"
  by (simp_all add: read_io_def unread_def advance_def)

text \<open>The number of bytes a line read takes, and what it leaves.\<close>

definition line_take :: "nat \<Rightarrow> buf \<Rightarrow> nat" where
  "line_take m rest = min (m - 1) (case memchr 10 rest of Some eol \<Rightarrow> eol + 1 | None \<Rightarrow> length rest)"

lemma get_line_eq:
  assumes "io_ok io"
  shows "mmc_stream_get_line io =
    (let k = line_take (MMC_BUFFER_SIZE - length (io_input io)) (unread io);
         inp = io_input io @ take k (unread io);
         io' = advance k io
     in if inp \<noteq> [] \<and> last inp = 10 then (Some inp, io'\<lparr>io_input := []\<rparr>) else (None, io'\<lparr>io_input := inp\<rparr>))"
proof -
  have m: "0 < MMC_BUFFER_SIZE - length (io_input io)" using assms by (simp add: io_ok_def)
  then have k: "(let r = (case memchr 10 rest of Some eol \<Rightarrow> eol + 1 | None \<Rightarrow> length rest) in
      if r \<ge> MMC_BUFFER_SIZE - length (io_input io) then MMC_BUFFER_SIZE - length (io_input io) - 1 else r) =
    line_take (MMC_BUFFER_SIZE - length (io_input io)) rest" for rest
    by (auto simp: line_take_def Let_def min_def)
  have "mmc_stream_readline_buffered (io_buffer io) (MMC_BUFFER_SIZE - length (io_input io)) =
    (take (line_take (MMC_BUFFER_SIZE - length (io_input io)) (unread io)) (unread io),
     (io_buffer io)\<lparr>b_idx := b_idx (io_buffer io) + line_take (MMC_BUFFER_SIZE - length (io_input io)) (unread io)\<rparr>)"
    unfolding mmc_stream_readline_buffered_def unread_def [symmetric] length_unread
    using k [of "unread io"] by (simp add: Let_def)
  then show ?thesis by (simp add: mmc_stream_get_line_def Let_def advance_def)
qed

lemma line_take_le: "line_take m rest \<le> length rest"
  by (auto simp: line_take_def split: option.splits dest: memchr_Some)

lemma line_take_no_nl:
  assumes "\<not> (a @ take (line_take m rest) rest \<noteq> [] \<and> last (a @ take (line_take m rest) rest) = 10)"
  shows "10 \<notin> set (take (line_take m rest) rest)"
proof
  let ?k = "line_take m rest"
  assume t: "10 \<in> set (take ?k rest)"
  then obtain i where i: "i < ?k" "i < length rest" "rest ! i = 10" by (auto simp: in_set_conv_nth)
  obtain n where n: "memchr 10 rest = Some n" using i by (metis memchr_None nth_mem option.exhaust)
  then have "?k \<le> n + 1" by (simp add: line_take_def)
  moreover have "n \<le> i"
  proof (rule ccontr)
    assume "\<not> n \<le> i"
    then have "10 \<in> set (take n rest)" using i by (auto simp: in_set_conv_nth)
    with memchr_Some [OF n] show False by simp
  qed
  ultimately have k: "i = n" "?k = n + 1" using i by auto
  then have "last (take ?k rest) = 10" using i by (simp add: take_Suc_conv_app_nth)
  moreover have "take ?k rest \<noteq> []" using t by (metis empty_iff empty_set)
  ultimately show False using assms by (metis append_is_Nil_conv last_appendR)
qed

lemma line_take_append_complete:
  "take (line_take m rest) rest \<noteq> [] \<Longrightarrow> last (take (line_take m rest) rest) = 10 \<Longrightarrow>
   line_take m (rest @ d) = line_take m rest"
proof (cases "memchr 10 rest")
  case None
  assume "take (line_take m rest) rest \<noteq> []" "last (take (line_take m rest) rest) = 10"
  then have "10 \<in> set rest" by (metis in_set_takeD last_in_set)
  with None show ?thesis by (simp add: memchr_None)
next
  case (Some n)
  then show ?thesis by (simp add: line_take_def memchr_append_Some)
qed

lemma line_take_append_partial:
  assumes "10 \<notin> set (take (line_take m rest) rest)" and "0 < m"
  shows "line_take m (rest @ d) =
    line_take m rest + line_take (m - line_take m rest) (drop (line_take m rest) rest @ d)"
proof -
  let ?k = "line_take m rest"
  show ?thesis
  proof (cases "?k = m - 1")
    case True
    have "m - 1 \<le> (case memchr 10 rest of Some eol \<Rightarrow> eol + 1 | None \<Rightarrow> length rest)"
      using True by (simp add: line_take_def min_def split: if_splits)
    then have "line_take m (rest @ d) = m - 1"
      by (auto simp: line_take_def memchr_append_Some memchr_append_None split: option.splits)
    moreover have "m - ?k = 1" using True assms(2) by simp
    ultimately show ?thesis using True by (simp add: line_take_def)
  next
    case False
    have none: "memchr 10 rest = None"
    proof (rule ccontr)
      assume "memchr 10 rest \<noteq> None"
      then obtain n where n: "memchr 10 rest = Some n" by auto
      then have "?k = n + 1" using False by (auto simp: line_take_def min_def)
      with memchr_Some [OF n] have "10 \<in> set (take ?k rest)" by (auto simp: in_set_conv_nth)
      with assms(1) show False by simp
    qed
    then have k: "?k = length rest" "length rest < m - 1"
      using False by (auto simp: line_take_def min_def split: if_splits)
    show ?thesis
      using none k by (auto simp: line_take_def memchr_append_None split: option.split)
  qed
qed

definition line_io :: "mmc_io \<Rightarrow> bool" where
  "line_io io \<longleftrightarrow> io_ok io \<and> 10 \<notin> set (io_input io)"

lemma line_io_receive: "line_io io \<Longrightarrow> line_io (receive io c)"
  by (simp add: line_io_def)

lemma get_line_stable:
  assumes "line_io io"
  shows "case mmc_stream_get_line io of
      (Some line, io') \<Rightarrow> line_io io' \<and> (\<forall>d. mmc_stream_get_line (receive io d) = (Some line, receive io' d))
    | (None, io') \<Rightarrow> line_io io' \<and> (\<forall>d. mmc_stream_get_line (receive io d) = mmc_stream_get_line (receive io' d))"
proof -
  let ?m = "MMC_BUFFER_SIZE - length (io_input io)" and ?rest = "unread io"
  let ?k = "line_take ?m ?rest"
  let ?inp = "io_input io @ take ?k ?rest"
  have ok: "io_ok io" and nl: "10 \<notin> set (io_input io)" using assms by (auto simp: line_io_def)
  have m: "0 < ?m" using ok by (simp add: io_ok_def)
  have km: "?k \<le> ?m - 1" "?k \<le> length ?rest" by (simp add: line_take_def) (rule line_take_le)
  have rd: "read_io io" "read_io (advance ?k io)"
    using ok km(2) advance_simps(5) [of io ?k] by (auto simp: io_ok_def read_io_def)
  have u: "unread (receive io d) = ?rest @ d" for d using unread_receive [OF rd(1)] .
  show ?thesis
  proof (cases "?inp \<noteq> [] \<and> last ?inp = 10")
    case True
    have t: "take ?k ?rest \<noteq> []"
    proof
      assume "take ?k ?rest = []"
      then have "?inp = io_input io" by (simp only: append_Nil2)
      then show False using True nl last_in_set [of "io_input io"] by simp
    qed
    then have t10: "last (take ?k ?rest) = 10" using True by (metis last_appendR)
    let ?io' = "(advance ?k io)\<lparr>io_input := []\<rparr>"
    have "mmc_stream_get_line (receive io d) = (Some ?inp, receive ?io' d)" for d
    proof -
      have "line_take ?m (?rest @ d) = ?k" by (rule line_take_append_complete [OF t t10])
      moreover have "take ?k (?rest @ d) = take ?k ?rest" using km(2) by simp
      ultimately show ?thesis
        using get_line_eq [of "receive io d"] ok
        by (simp only: receive_simps Let_def u True if_True simp_thms advance_simps(3) receive_input)
    qed
    moreover have "line_io ?io'" using rd(2) by (simp add: line_io_def io_ok_def read_io_def MMC_BUFFER_SIZE_def)
    ultimately show ?thesis
      unfolding get_line_eq [OF ok] Let_def using True by simp
  next
    case False
    have n10: "10 \<notin> set (take ?k ?rest)"
      using False by (rule line_take_no_nl)
    let ?io' = "(advance ?k io)\<lparr>io_input := ?inp\<rparr>"
    have ok': "line_io ?io'"
      using rd(2) km(1) m nl n10 by (auto simp: line_io_def io_ok_def read_io_def)
    have "mmc_stream_get_line (receive io d) = mmc_stream_get_line (receive ?io' d)" for d
    proof -
      have u': "unread (receive ?io' d) = drop ?k ?rest @ d" "io_input (receive ?io' d) = ?inp"
        using unread_receive [of ?io'] rd(2) by (simp_all add: advance_simps)
      have ui: "io_input (receive io d) = io_input io" by simp
      have len: "MMC_BUFFER_SIZE - length ?inp = ?m - ?k" using km by simp
      let ?j = "line_take (?m - ?k) (drop ?k ?rest @ d)"
      have tot: "line_take ?m (?rest @ d) = ?k + ?j"
        by (rule line_take_append_partial [OF n10 m])
      have tk: "take (?k + ?j) (?rest @ d) = take ?k ?rest @ take ?j (drop ?k ?rest @ d)"
        using km(2) by (simp add: take_add add.commute)
      have adv: "advance ?j (receive ?io' d) = (advance (?k + ?j) (receive io d))\<lparr>io_input := ?inp\<rparr>"
        by (simp add: receive_input advance_input advance_simps(3,4))
      have a: "io_ok (receive io d)" "io_ok (receive ?io' d)" using ok ok' by (simp_all add: line_io_def)
      show ?thesis
        by (simp only: get_line_eq [OF a(1)] get_line_eq [OF a(2)] u u' ui len Let_def adv tk tot
            append_assoc io_input_upd)
    qed
    then show ?thesis
      unfolding get_line_eq [OF ok] Let_def using False ok' by auto
  qed
qed

lemma stream_get_eq:
  "mmc_stream_get io n =
    (let k = min (length (unread io)) (n - length (io_input io));
         inp = io_input io @ take k (unread io);
         io' = io\<lparr>io_buffer := (io_buffer io)\<lparr>b_idx := b_idx (io_buffer io) + k\<rparr>\<rparr>
     in if length inp \<ge> n then (Some inp, io'\<lparr>io_input := []\<rparr>) else (None, io'\<lparr>io_input := inp\<rparr>))"
proof -
  have "mmc_stream_read_buffered (io_buffer io) c =
    (take (min (length (unread io)) c) (unread io),
     (io_buffer io)\<lparr>b_idx := b_idx (io_buffer io) + min (length (unread io)) c\<rparr>)" for c
    unfolding mmc_stream_read_buffered_def unread_def [symmetric] length_unread by (simp add: Let_def min_def)
  then show ?thesis by (simp add: mmc_stream_get_def Let_def)
qed

lemma stream_get_stable:
  assumes io: "read_io io"
  shows "case mmc_stream_get io n of
      (Some bs, io') \<Rightarrow> read_io io' \<and> (\<forall>d. mmc_stream_get (receive io d) n = (Some bs, receive io' d))
    | (None, io') \<Rightarrow> read_io io' \<and> (\<forall>d. mmc_stream_get (receive io d) n = mmc_stream_get (receive io' d) n)"
proof -
  let ?m = "n - length (io_input io)" and ?u = "unread io"
  have eq: "mmc_stream_get x n =
    (let k = min (length (unread x)) (n - length (io_input x)); inp = io_input x @ take k (unread x)
     in if length inp \<ge> n then (Some inp, (advance k x)\<lparr>io_input := []\<rparr>) else (None, (advance k x)\<lparr>io_input := inp\<rparr>))"
    for x by (simp only: stream_get_eq advance_def Let_def)
  have ui: "unread (receive io d) = ?u @ d" "io_input (receive io d) = io_input io" for d
    using unread_receive [OF io] by simp_all
  show ?thesis
  proof (cases "?m \<le> length ?u")
    case True
    then have "mmc_stream_get io n = (Some (io_input io @ take ?m ?u), (advance ?m io)\<lparr>io_input := []\<rparr>)"
      by (auto simp: eq Let_def)
    moreover have "mmc_stream_get (receive io d) n =
        (Some (io_input io @ take ?m ?u), receive ((advance ?m io)\<lparr>io_input := []\<rparr>) d)" for d
      using True by (auto simp: eq [of "receive io d"] ui Let_def advance_simps(3) receive_input)
    ultimately show ?thesis using True advance_simps(5) [OF io] by simp
  next
    case False
    let ?io' = "(advance (length ?u) io)\<lparr>io_input := io_input io @ ?u\<rparr>"
    have r: "read_io ?io'" using advance_simps(5) [OF io] by simp
    have "mmc_stream_get io n = (None, ?io')"
      using False by (auto simp: eq Let_def)
    moreover have "mmc_stream_get (receive io d) n = mmc_stream_get (receive ?io' d) n" for d
    proof -
      have u': "unread (receive ?io' d) = d" "io_input (receive ?io' d) = io_input io @ ?u"
        using unread_receive [OF r] by (simp_all add: advance_simps receive_input)
      have k: "min (length (?u @ d)) ?m = length ?u + min (length d) (?m - length ?u)"
        using False by simp
      have a: "(advance (min (length (?u @ d)) ?m) (receive io d))\<lparr>io_input := i\<rparr> =
          (advance (min (length d) (?m - length ?u)) (receive ?io' d))\<lparr>io_input := i\<rparr>" for i
        unfolding k by (simp add: receive_input advance_input advance_simps(3,4))
      show ?thesis
        unfolding eq ui u' Let_def a using k by simp linarith
    qed
    ultimately show ?thesis using r by simp
  qed
qed

text \<open>Filling a read buffer \<open>rb\<close> up to \<open>need\<close> bytes with what has arrived.\<close>

definition fill :: "mmc_io \<Rightarrow> buf \<Rightarrow> nat \<Rightarrow> buf \<times> mmc_io" where
  "fill io rb need =
     (let k = min (length (unread io)) (need - length rb) in (rb @ take k (unread io), advance k io))"

lemma read_buffered_fill:
  "mmc_stream_read_buffered (io_buffer io) (need - length rb) = (got, b) \<Longrightarrow>
   fill io rb need = (rb @ got, io\<lparr>io_buffer := b\<rparr>)"
  unfolding mmc_stream_read_buffered_def unread_def [symmetric] length_unread
  by (auto simp: fill_def Let_def min_def advance_def split: if_splits)

lemma fill_io:
  "read_io io \<Longrightarrow> read_io (snd (fill io rb need)) \<and> io_input (snd (fill io rb need)) = io_input io"
  by (simp add: fill_def Let_def advance_simps)

lemma fill_mono:
  "read_io io \<Longrightarrow> length (fst (fill io rb need)) \<le> length (fst (fill (receive io d) rb need))"
  by (simp add: fill_def Let_def unread_receive)

lemma fill_length: "length rb \<le> need \<Longrightarrow> length (fst (fill io rb need)) \<le> need"
  by (simp add: fill_def Let_def)

lemma fill_complete:
  assumes "read_io io" and "length rb \<le> need" and "need \<le> length (fst (fill io rb need))"
  shows "fill (receive io d) rb need = (fst (fill io rb need), receive (snd (fill io rb need)) d)"
proof -
  have k: "need - length rb \<le> length (unread io)" using assms(2,3) by (simp add: fill_def Let_def min_def split: if_splits)
  then show ?thesis using unread_receive [OF assms(1)] by (simp add: fill_def Let_def advance_simps(3))
qed

lemma fill_partial:
  assumes "read_io io" and "length (fst (fill io rb need)) < need"
  shows "fill (receive io d) rb need = fill (receive (snd (fill io rb need)) d) (fst (fill io rb need)) need"
proof -
  let ?u = "unread io"
  have k: "length ?u < need - length rb" using assms(2) by (simp add: fill_def Let_def min_def split: if_splits)
  then have f: "fill io rb need = (rb @ ?u, advance (length ?u) io)" by (simp add: fill_def Let_def)
  have r: "read_io (advance (length ?u) io)" using advance_simps(5) [OF assms(1)] by simp
  have m: "min (length ?u + length d) (need - length rb) = length ?u + min (length d) (need - (length rb + length ?u))"
    using k by simp
  show ?thesis
    unfolding f fst_conv snd_conv
    unfolding fill_def Let_def unread_receive [OF assms(1)] unread_receive [OF r] length_append m
    by (simp add: advance_simps)
qed

text \<open>Read lines as the network delivers chunks, until one is complete.\<close>

fun pump_line :: "mmc_io \<Rightarrow> buf list \<Rightarrow> (buf \<times> buf list) option \<times> mmc_io" where
  "pump_line io [] = (None, io)"
| "pump_line io (c # cs) =
     (case mmc_stream_get_line (receive io c) of
        (Some line, io') \<Rightarrow> (Some (line, cs), io')
      | (None, io') \<Rightarrow> pump_line io' cs)"

text \<open>
  Lines are put together from any fragmentation: however the network cuts a line that
  fits the 4096-byte input buffer (and whatever follows it) into chunks, the line reader
  returns exactly that line, keeps every later byte for the next read, and leaves the input
  buffer empty.
\<close>

theorem pump_line_fragmentation:
  assumes "io_ok io" and "10 \<notin> set (io_input io)" and "10 \<notin> set xs"
    and "unread io = []" and "io_input io @ concat cs = xs @ 10 # rest"
    and "length xs + 1 < MMC_BUFFER_SIZE"
  shows "\<exists>io' cs'. pump_line io cs = (Some (xs @ [10], cs'), io') \<and> io_ok io' \<and>
           io_input io' = [] \<and> unread io' @ concat cs' = rest"
  using assms(1,2,4,5)
proof (induction cs arbitrary: io)
  case Nil
  then have "10 \<in> set (io_input io)" by (metis append_Nil2 concat.simps(1) in_set_conv_decomp)
  with Nil.prems(2) show ?case by simp
next
  case (Cons c cs)
  have "io_ok (receive io c)" "10 \<notin> set (io_input (receive io c))"
    "io_input (receive io c) @ unread (receive io c) @ concat cs = xs @ 10 # rest"
    using Cons.prems by simp_all
  from get_line_stream [OF this(1,2) assms(3) this(3) assms(6)] show ?case
    using Cons.IH by fastforce
qed

theorem pump_line_fragmentation_witness:
  "\<exists>io' cs'. pump_line \<lparr>io_buffer = \<lparr>b_value = [], b_idx = 0\<rparr>, io_input = []\<rparr>
       [bytes ''EN'', bytes ''D'', [13, 10, 65]] = (Some (bytes ''END'' @ [13, 10], cs'), io') \<and>
     unread io' @ concat cs' = [65]"
proof -
  let ?io = "\<lparr>io_buffer = \<lparr>b_value = [], b_idx = 0\<rparr>, io_input = []\<rparr> :: mmc_io"
  have "io_ok ?io" "unread ?io = []" by (simp_all add: io_ok_def unread_def MMC_BUFFER_SIZE_def)
  from pump_line_fragmentation [OF this(1) _ _ this(2), of "bytes ''END'' @ [13]"
      "[bytes ''EN'', bytes ''D'', [13, 10, 65]]" "[65]"]
  show ?thesis by (auto simp: bytes_def of_char_def MMC_BUFFER_SIZE_def)
qed

end
