(* ===== verification/Mmc_Request.thy ===== *)
theory Mmc_Request
  imports Mmc_Value Mmc_Stream
begin

text \<open>
  What the two protocols share: the operation codes and the handlers of a request
  (\<^verbatim>\<open>src/memcache_pool.h\<close>), the \<^verbatim>\<open>sscanf\<close> conversions the parsers use, the hand-over of an
  unpacked value to the request's value handler, and the datagram reader
  \<^verbatim>\<open>mmc_request_read_udp\<close> of \<^verbatim>\<open>src/memcache_pool.c\<close>.
\<close>

subsection \<open>Operation codes\<close>

definition MMC_OP_GET :: int where [mmc_consts]: "MMC_OP_GET = 0x00"
definition MMC_OP_SET :: int where [mmc_consts]: "MMC_OP_SET = 0x01"
definition MMC_OP_ADD :: int where [mmc_consts]: "MMC_OP_ADD = 0x02"
definition MMC_OP_REPLACE :: int where [mmc_consts]: "MMC_OP_REPLACE = 0x03"
definition MMC_OP_GETS :: int where [mmc_consts]: "MMC_OP_GETS = 0x32"
definition MMC_OP_CAS :: int where [mmc_consts]: "MMC_OP_CAS = 0x33"
definition MMC_OP_APPEND :: int where [mmc_consts]: "MMC_OP_APPEND = 0x34"
definition MMC_OP_PREPEND :: int where [mmc_consts]: "MMC_OP_PREPEND = 0x35"

subsection \<open>Handlers of a request\<close>

text \<open>
  The callbacks of a request, on the state \<open>'s\<close> of whoever issued it (the return value of
  the PHP function and the pool): the response code with the message and its length as the
  \<^verbatim>\<open>unsigned int\<close> that is passed, a value with its key, flags and CAS token, and
  \<^verbatim>\<open>mmc_server_failure\<close> with its message.
\<close>

record ('d, 'o, 's) mmc_handlers =
  response_handler :: "int \<Rightarrow> buf \<Rightarrow> u32 \<Rightarrow> 's \<Rightarrow> int \<times> 's"
  value_handler :: "buf \<Rightarrow> ('d, 'o) zval \<Rightarrow> u32 \<Rightarrow> u64 \<Rightarrow> 's \<Rightarrow> int \<times> 's"
  server_failure :: "string \<Rightarrow> 's \<Rightarrow> int \<times> 's"

text \<open>
  \<^verbatim>\<open>mmc_unpack_value\<close> up to and including the call of the value handler; \<open>None\<close> is the copy
  of a key past the end of \<^verbatim>\<open>key_tmp\<close>.
\<close>

definition deliver_value ::
  "('d, 'o) php_runtime \<Rightarrow> ('d, 'o, 's) mmc_handlers \<Rightarrow> buf \<Rightarrow> u32 \<Rightarrow> u64 \<Rightarrow> buf \<Rightarrow> 's \<Rightarrow> (int \<times> 's) option" where
  "deliver_value rt h key flags cas payload s =
     (case mmc_unpack_value rt key flags cas payload of
        UnpackDeliver k v f c \<Rightarrow> Some (value_handler h k v f c s)
      | UnpackDone \<Rightarrow> Some (MMC_REQUEST_DONE, s)
      | UnpackKeyOverflow \<Rightarrow> None)"

lemma deliver_value_short_key:
  "length key \<le> MMC_MAX_KEY_LEN \<Longrightarrow> \<exists>r. deliver_value rt h key flags cas payload s = Some r"
  by (auto simp: deliver_value_def mmc_unpack_value_def Let_def split: option.splits)

definition mmc_str_left :: "buf \<Rightarrow> buf \<Rightarrow> bool" where
  "mmc_str_left h n \<longleftrightarrow> (if length h \<ge> length n then take (length n) h = n else False)"

subsection \<open>sscanf\<close>

text \<open>\<^verbatim>\<open>sscanf\<close> reads up to the terminating NUL of its input.\<close>

definition c_string :: "buf \<Rightarrow> buf" where
  "c_string bs = takeWhile (\<lambda>b. b \<noteq> 0) bs"

text \<open>
  The integer conversions: white space, an optional sign and digits, read as an unbounded
  integer together with the rest of the input; \<open>None\<close> when there is no digit.
\<close>

definition scan_int :: "buf \<Rightarrow> (int \<times> buf) option" where
  "scan_int inp =
     (let s = dropWhile is_space inp;
          neg = (s \<noteq> [] \<and> hd s = 45);
          s = (if s \<noteq> [] \<and> (hd s = 45 \<or> hd s = 43) then tl s else s);
          ds = takeWhile is_digit s;
          v = int (digits_val 0 ds)
      in if ds = [] then None else Some (if neg then - v else v, dropWhile is_digit s))"

text \<open>\<^verbatim>\<open>%ld\<close> saturates like \<^verbatim>\<open>strtol\<close>.\<close>

definition scan_ld :: "buf \<Rightarrow> int option" where
  "scan_ld inp = map_option (\<lambda>(v, _). max (- (2 ^ 63)) (min (2 ^ 63 - 1) v)) (scan_int (c_string inp))"

text \<open>\<^verbatim>\<open>%lu\<close> is \<^verbatim>\<open>strtoul\<close>: too large a magnitude gives the greatest value, a sign negates.\<close>

definition scan_lu :: "buf \<Rightarrow> (u64 \<times> buf) option" where
  "scan_lu inp =
     map_option (\<lambda>(v, rest). (if \<bar>v\<bar> < 2 ^ 64 then word_of_int v else - 1, rest)) (scan_int inp)"

text \<open>\<^verbatim>\<open>%250s\<close>: at least one and at most 250 bytes that are not white space.\<close>

definition scan_key :: "buf \<Rightarrow> (buf \<times> buf) option" where
  "scan_key inp =
     (let s = dropWhile is_space inp; k = take MMC_MAX_KEY_LEN (takeWhile (\<lambda>b. \<not> is_space b) s)
      in if k = [] then None else Some (k, drop (length k) s))"

text \<open>
  \<^verbatim>\<open>sscanf(line, MMC_VALUE_HEADER, ...)\<close> with \<^verbatim>\<open>"VALUE %250s %u %lu %lu"\<close>: \<open>None\<close> when fewer
  than three conversions succeed; the fourth is optional.
\<close>

definition scan_value_header :: "buf \<Rightarrow> (buf \<times> u32 \<times> u64 \<times> u64 option) option" where
  "scan_value_header line =
     (let inp = c_string line in
      if take 5 inp = bytes ''VALUE'' then
        do {
          (key, inp) \<leftarrow> scan_key (drop 5 inp);
          (flags, inp) \<leftarrow> scan_lu inp;
          (len, inp) \<leftarrow> scan_lu inp;
          Some (key, ucast flags, len, map_option fst (scan_lu inp))
        }
      else None)"

subsection \<open>The parse loop of a readable connection\<close>

text \<open>
  \<^verbatim>\<open>do { result = readreq->parse(mmc, readreq); } while (result == MMC_REQUEST_AGAIN)\<close> of
  \<^verbatim>\<open>mmc_pool_select_impl\<close> for one request. A parser returns \<open>None\<close> for a memory error; a
  loop that does not end is the outer \<open>None\<close>.
\<close>

partial_function (option) parse_loop :: "('x \<Rightarrow> (int \<times> 'x) option) \<Rightarrow> 'x \<Rightarrow> (int \<times> 'x) option option" where
  "parse_loop step x =
     (case step x of
        None \<Rightarrow> Some None
      | Some (r, x') \<Rightarrow> if r = MMC_REQUEST_AGAIN then parse_loop step x' else Some (Some (r, x')))"

lemma parse_loop_step:
  "step x = Some (r, x') \<Longrightarrow>
   parse_loop step x = (if r = MMC_REQUEST_AGAIN then parse_loop step x' else Some (Some (r, x')))"
  by (subst parse_loop.simps) simp

lemma parse_loop_None: "step x = None \<Longrightarrow> parse_loop step x = Some None"
  by (subst parse_loop.simps) simp

lemma parse_loop_induct:
  assumes run: "parse_loop step x = Some y"
    and fault: "\<And>x. step x = None \<Longrightarrow> P x None"
    and again: "\<And>x x' y. step x = Some (MMC_REQUEST_AGAIN, x') \<Longrightarrow> P x' y \<Longrightarrow> P x y"
    and stop: "\<And>x r x'. step x = Some (r, x') \<Longrightarrow> r \<noteq> MMC_REQUEST_AGAIN \<Longrightarrow> P x (Some (r, x'))"
  shows "P x y"
proof -
  have "(case (step, x) of (st, x) \<Rightarrow> \<lambda>y. st = step \<longrightarrow> P x y) y"
  proof (rule parse_loop.raw_induct [where P = "\<lambda>st x y. st = step \<longrightarrow> P x y" and xa = "(step, x)"])
    fix loop st x y
    assume IH: "\<And>st x y. loop st x = Some y \<Longrightarrow> st = step \<longrightarrow> P x y"
      and run: "(case st x of None \<Rightarrow> Some None
        | Some (r, x') \<Rightarrow> if r = MMC_REQUEST_AGAIN then loop st x' else Some (Some (r, x'))) = Some y"
    show "st = step \<longrightarrow> P x y"
    proof
      assume st: "st = step"
      show "P x y"
      proof (cases "step x")
        case None
        then show ?thesis using run st fault by simp
      next
        case (Some rx)
        then obtain r x' where x': "step x = Some (r, x')" by (cases rx) auto
        show ?thesis
        proof (cases "r = MMC_REQUEST_AGAIN")
          case True
          then show ?thesis using run st x' IH again by auto
        next
          case False
          then have "y = Some (r, x')" using run st x' by simp
          then show ?thesis using stop [OF x' False] by simp
        qed
      qed
    qed
  qed (use run in simp)
  then show ?thesis by simp
qed

text \<open>
  The socket becomes readable again and again, each time with one more chunk; the loop runs
  each time until it wants more, and the chunks that were not needed are returned.
\<close>

fun pump :: "('x \<Rightarrow> (int \<times> 'x) option) \<Rightarrow> (buf \<Rightarrow> 'x \<Rightarrow> 'x) \<Rightarrow> 'x \<Rightarrow> buf list \<Rightarrow> (int \<times> 'x \<times> buf list) option option" where
  "pump step recv x [] = Some (Some (MMC_REQUEST_MORE, x, []))"
| "pump step recv x (c # cs) =
     (case parse_loop step (recv c x) of
        None \<Rightarrow> None
      | Some None \<Rightarrow> Some None
      | Some (Some (r, x')) \<Rightarrow>
          if r = MMC_REQUEST_MORE then pump step recv x' cs else Some (Some (r, x', cs)))"

text \<open>
  What makes a parser independent of the fragmentation of its input: bytes that arrive later
  do not change a step that was complete without them, and a step that stopped for more
  input has lost nothing.
\<close>

locale incremental_parser =
  fixes step :: "'x \<Rightarrow> (int \<times> 'x) option"
    and recv :: "buf \<Rightarrow> 'x \<Rightarrow> 'x"
    and ok :: "'x \<Rightarrow> bool"
  assumes recv_Nil: "recv [] x = x"
    and recv_append: "recv (c @ d) x = recv d (recv c x)"
    and recv_ok: "ok x \<Longrightarrow> ok (recv c x)"
    and step_ok: "ok x \<Longrightarrow> step x = Some (r, x') \<Longrightarrow> ok x'"
    and step_more: "ok x \<Longrightarrow> step x = Some (MMC_REQUEST_MORE, x') \<Longrightarrow> step (recv d x) = step (recv d x')"
    and step_done: "ok x \<Longrightarrow> step x = Some (r, x') \<Longrightarrow> r \<noteq> MMC_REQUEST_MORE \<Longrightarrow>
          step (recv d x) = Some (r, recv d x')"
    and step_fault: "ok x \<Longrightarrow> step x = None \<Longrightarrow> step (recv d x) = None"
begin

text \<open>The same laws for a whole run of the loop.\<close>

definition stable :: "'x \<Rightarrow> (int \<times> 'x) option \<Rightarrow> bool" where
  "stable x y \<longleftrightarrow>
     (case y of
        None \<Rightarrow> \<forall>d. parse_loop step (recv d x) = Some None
      | Some (r, x') \<Rightarrow> ok x' \<and>
          (\<forall>d. parse_loop step (recv d x) =
             (if r = MMC_REQUEST_MORE then parse_loop step (recv d x') else Some (Some (r, recv d x')))))"

lemma loop_stable:
  assumes "parse_loop step x = Some y" shows "ok x \<longrightarrow> stable x y"
proof (rule parse_loop_induct [where P = "\<lambda>x y. ok x \<longrightarrow> stable x y", OF assms]; rule impI)
  fix x assume "step x = None" "ok x"
  then show "stable x None" using step_fault by (simp add: stable_def parse_loop_None)
next
  fix x x' y
  assume st: "step x = Some (MMC_REQUEST_AGAIN, x')" and IH: "ok x' \<longrightarrow> stable x' y" and ok: "ok x"
  have "step (recv d x) = Some (MMC_REQUEST_AGAIN, recv d x')" for d
    by (rule step_done [OF ok st]) (simp add: mmc_consts)
  then have eq: "parse_loop step (recv d x) = parse_loop step (recv d x')" for d
    by (simp add: parse_loop_step)
  have "stable x' y" using IH step_ok [OF ok st] by simp
  then show "stable x y" by (simp only: stable_def eq)
next
  fix x r x' assume st: "step x = Some (r, x')" and na: "r \<noteq> MMC_REQUEST_AGAIN" and ok: "ok x"
  show "stable x (Some (r, x'))"
  proof (cases "r = MMC_REQUEST_MORE")
    case True
    then have "step (recv d x) = step (recv d x')" for d using step_more [OF ok] st by blast
    then have "parse_loop step (recv d x) = parse_loop step (recv d x')" for d
      by (subst (1 2) parse_loop.simps) simp
    then show ?thesis using True step_ok [OF ok st] by (simp add: stable_def)
  next
    case False
    then have "step (recv d x) = Some (r, recv d x')" for d by (rule step_done [OF ok st])
    then show ?thesis
      using False na step_ok [OF ok st] by (simp add: stable_def parse_loop_step)
  qed
qed

text \<open>Any fragmentation gives what the undivided input gives.\<close>

lemma pump_unfragmented:
  "ok x \<Longrightarrow> pump step recv x cs = Some (Some (r, x', rest)) \<Longrightarrow> r \<noteq> MMC_REQUEST_MORE \<Longrightarrow>
   parse_loop step (recv (concat cs) x) = Some (Some (r, recv (concat rest) x'))"
proof (induction cs arbitrary: x)
  case (Cons c cs)
  obtain y where l: "parse_loop step (recv c x) = Some y" using Cons.prems(2) by (auto split: option.splits)
  note st = loop_stable [OF l, rule_format, OF recv_ok [OF Cons.prems(1)]]
  obtain r1 x1 where y: "y = Some (r1, x1)" using Cons.prems(2) l by (auto split: option.splits)
  show ?case
  proof (cases "r1 = MMC_REQUEST_MORE")
    case True
    then have "pump step recv x1 cs = Some (Some (r, x', rest))" "ok x1"
      using Cons.prems(2) l y st by (auto simp: stable_def)
    from Cons.IH [OF this(2,1) Cons.prems(3)] st y True show ?thesis
      by (simp add: stable_def recv_append)
  next
    case False
    then show ?thesis using Cons.prems(2) l y st by (auto simp: stable_def recv_append)
  qed
qed simp

lemma loop_shorter:
  assumes "parse_loop step z = Some y"
  shows "\<forall>x d. z = recv d x \<longrightarrow> ok x \<longrightarrow> (\<exists>y'. parse_loop step x = Some y')"
proof (rule parse_loop_induct [where P = "\<lambda>z y. \<forall>x d. z = recv d x \<longrightarrow> ok x \<longrightarrow> (\<exists>y'. parse_loop step x = Some y')", OF assms];
    intro allI impI)
  fix z x d assume z: "step z = None" "z = recv d x" "ok x"
  show "\<exists>y'. parse_loop step x = Some y'"
  proof (cases "step x")
    case (Some rx)
    then obtain r x' where st: "step x = Some (r, x')" by (cases rx) auto
    have "r = MMC_REQUEST_MORE" using step_done [OF z(3) st, of d] z by auto
    then show ?thesis using st by (simp add: parse_loop_step mmc_consts)
  qed (simp add: parse_loop_None)
next
  fix z z' y x d
  assume z: "step z = Some (MMC_REQUEST_AGAIN, z')" "z = recv d x" "ok x"
    and IH: "\<forall>x d. z' = recv d x \<longrightarrow> ok x \<longrightarrow> (\<exists>y'. parse_loop step x = Some y')"
  show "\<exists>y'. parse_loop step x = Some y'"
  proof (cases "step x")
    case (Some rx)
    then obtain r x' where st: "step x = Some (r, x')" by (cases rx) auto
    then show ?thesis
      using step_done [OF z(3) st, of d] step_ok [OF z(3) st] z(1,2) IH
      by (cases "r = MMC_REQUEST_MORE") (auto simp: parse_loop_step mmc_consts)
  qed (simp add: parse_loop_None)
next
  fix z r z' x d assume z: "step z = Some (r, z')" "r \<noteq> MMC_REQUEST_AGAIN" "z = recv d x" "ok x"
  show "\<exists>y'. parse_loop step x = Some y'"
  proof (cases "step x")
    case (Some rx)
    then obtain r' x' where st: "step x = Some (r', x')" by (cases rx) auto
    then show ?thesis
      using step_done [OF z(4) st, of d] z(1-3)
      by (cases "r' = MMC_REQUEST_MORE") (auto simp: parse_loop_step mmc_consts)
  qed (simp add: parse_loop_None)
qed

text \<open>And whatever the undivided input gives, any fragmentation gives.\<close>

lemma pump_fragmented:
  "ok x \<Longrightarrow> parse_loop step x = Some (Some (MMC_REQUEST_MORE, x0)) \<Longrightarrow>
   parse_loop step (recv (concat cs) x) = Some (Some (r, y)) \<Longrightarrow> r \<noteq> MMC_REQUEST_MORE \<Longrightarrow>
   \<exists>x' rest. pump step recv x cs = Some (Some (r, x', rest)) \<and> ok x' \<and> recv (concat rest) x' = y"
proof (induction cs arbitrary: x x0)
  case Nil
  then show ?case by (simp add: recv_Nil)
next
  case (Cons c cs)
  have run: "parse_loop step (recv (concat cs) (recv c x)) = Some (Some (r, y))"
    using Cons.prems(3) by (simp add: recv_append)
  have okc: "ok (recv c x)" by (rule recv_ok [OF Cons.prems(1)])
  obtain y1 where l: "parse_loop step (recv c x) = Some y1"
    using loop_shorter [OF run] okc by blast
  note st = loop_stable [OF l, rule_format, OF okc]
  obtain r1 x1 where y1: "y1 = Some (r1, x1)" using st run by (cases y1) (auto simp: stable_def)
  show ?case
  proof (cases "r1 = MMC_REQUEST_MORE")
    case True
    have eq: "parse_loop step (recv d (recv c x)) = parse_loop step (recv d x1)" for d
      using st y1 True by (simp add: stable_def)
    have "parse_loop step x1 = Some (Some (MMC_REQUEST_MORE, x1))"
      using eq [of "[]"] l y1 True by (simp add: recv_Nil)
    moreover have "ok x1" using st y1 by (simp add: stable_def)
    moreover have "parse_loop step (recv (concat cs) x1) = Some (Some (r, y))" using run eq by simp
    ultimately show ?thesis using Cons.IH [of x1 x1] Cons.prems(4) l y1 True by simp
  next
    case False
    then show ?thesis using st y1 l run by (auto simp: stable_def)
  qed
qed

end

text \<open>All laws of one step together, as the protocols prove them.\<close>

definition step_incremental ::
  "('x \<Rightarrow> (int \<times> 'x) option) \<Rightarrow> (buf \<Rightarrow> 'x \<Rightarrow> 'x) \<Rightarrow> ('x \<Rightarrow> bool) \<Rightarrow> 'x \<Rightarrow> bool" where
  "step_incremental step recv ok x \<longleftrightarrow>
     (case step x of
        None \<Rightarrow> \<forall>d. step (recv d x) = None
      | Some (r, x') \<Rightarrow> ok x' \<and>
          (\<forall>d. step (recv d x) = (if r = MMC_REQUEST_MORE then step (recv d x') else Some (r, recv d x'))))"

lemma incremental_parserI:
  assumes "\<And>x. recv [] x = x" and "\<And>c d x. recv (c @ d) x = recv d (recv c x)" and "\<And>x c. ok x \<Longrightarrow> ok (recv c x)"
    and inc: "\<And>x. ok x \<Longrightarrow> step_incremental step recv ok x"
  shows "incremental_parser step recv ok"
proof unfold_locales
  fix x r x' assume "ok x" "step x = Some (r, x')"
  then show "ok x'" using inc [of x] by (simp add: step_incremental_def)
next
  fix x x' d assume "ok x" "step x = Some (MMC_REQUEST_MORE, x')"
  then show "step (recv d x) = step (recv d x')" using inc [of x] by (simp add: step_incremental_def)
next
  fix x r x' d assume "ok x" "step x = Some (r, x')" "r \<noteq> MMC_REQUEST_MORE"
  then show "step (recv d x) = Some (r, recv d x')" using inc [of x] by (simp add: step_incremental_def)
next
  fix x d assume "ok x" "step x = None"
  then show "step (recv d x) = None" using inc [of x] by (simp add: step_incremental_def)
qed (use assms(1-3) in simp_all)

text \<open>
  Both protocols ask for more input with \<^verbatim>\<open>MMC_REQUEST_MORE\<close> themselves; a handler that has
  been given a complete answer does not.
\<close>

definition handlers_no_more :: "('d, 'o, 's) mmc_handlers \<Rightarrow> bool" where
  "handlers_no_more h \<longleftrightarrow>
     (\<forall>r m n s. fst (response_handler h r m n s) \<noteq> MMC_REQUEST_MORE) \<and>
     (\<forall>k v f c s. fst (value_handler h k v f c s) \<noteq> MMC_REQUEST_MORE) \<and>
     (\<forall>m s. fst (server_failure h m s) \<noteq> MMC_REQUEST_MORE)"

lemma deliver_value_no_more:
  "handlers_no_more h \<Longrightarrow> deliver_value rt h key f c p s = Some (r, s') \<Longrightarrow> r \<noteq> MMC_REQUEST_MORE"
proof -
  assume nm: "handlers_no_more h" and d: "deliver_value rt h key f c p s = Some (r, s')"
  have "fst (value_handler h k v f c s) \<noteq> MMC_REQUEST_MORE" for k v f c s
    using nm by (simp add: handlers_no_more_def)
  then show "r \<noteq> MMC_REQUEST_MORE"
    using d by (auto simp: deliver_value_def mmc_consts dest: arg_cong [of _ _ fst] split: unpack_outcome.splits)
qed

text \<open>Handlers that only record what they are given.\<close>

definition log_handlers :: "('d, 'o, (buf \<times> ('d, 'o) zval) list) mmc_handlers" where
  "log_handlers = \<lparr>response_handler = (\<lambda>r m n s. (MMC_REQUEST_DONE, s)),
     value_handler = (\<lambda>k v f c s. (MMC_REQUEST_DONE, s @ [(k, v)])),
     server_failure = (\<lambda>m s. (MMC_REQUEST_FAILURE, s))\<rparr>"

lemma log_handlers_no_more: "handlers_no_more log_handlers"
  by (simp add: handlers_no_more_def log_handlers_def mmc_consts)

subsection \<open>Numbers and words of a line\<close>

definition word_bytes :: "buf \<Rightarrow> bool" where
  "word_bytes k \<longleftrightarrow> k \<noteq> [] \<and> (\<forall>b \<in> set k. \<not> is_space b \<and> b \<noteq> 0)"

lemma digit_not_space: "is_digit b \<Longrightarrow> \<not> is_space b \<and> b \<noteq> 0 \<and> b \<noteq> 10 \<and> b \<noteq> 13 \<and> b \<noteq> 32"
  by (auto simp: is_digit_def is_space_def word_le_nat_alt)

lemma dec_word_bytes: "word_bytes (dec n)"
  using dec_digits [of n] digit_not_space by (auto simp: word_bytes_def)

lemma is_space_32 [simp]: "is_space 32" and is_space_13 [simp]: "is_space 13"
  by (simp_all add: is_space_def word_le_nat_alt)

lemma not_digit_sep [simp]: "\<not> is_digit 32" "\<not> is_digit 13"
  by (simp_all add: is_digit_def)

lemma scan_int_dec:
  assumes "rest = [] \<or> \<not> is_digit (hd rest)"
  shows "scan_int (32 # dec n @ rest) = Some (int n, rest)"
proof -
  have nz: "dec n @ rest \<noteq> []" by simp
  have hd: "hd (dec n @ rest) = hd (dec n)" by simp
  have tw: "takeWhile is_digit (dec n @ rest) = dec n"
    using dec_digits [of n] assms by (cases rest) (simp_all add: takeWhile_append2)
  have dw: "dropWhile is_digit (dec n @ rest) = rest"
    using dec_digits [of n] assms by (cases rest) (simp_all add: dropWhile_append2)
  have sp: "dropWhile is_space (dec n @ rest) = dec n @ rest"
    using dec_hd [of n] by (cases "dec n") auto
  show ?thesis
    using nz hd tw dw sp dec_hd [of n] by (simp add: scan_int_def Let_def)
qed

lemma scan_lu_dec:
  assumes "rest = [] \<or> \<not> is_digit (hd rest)" and "n < 2 ^ 64"
  shows "scan_lu (32 # dec n @ rest) = Some (word_of_nat n, rest)"
proof -
  have "int n < 2 ^ 64" using assms(2) by simp
  then show ?thesis by (simp add: scan_lu_def scan_int_dec [OF assms(1)])
qed

lemma scan_key_word:
  assumes "word_bytes k" and "length k \<le> MMC_MAX_KEY_LEN" and "rest = [] \<or> is_space (hd rest)"
  shows "scan_key (32 # k @ rest) = Some (k, rest)"
proof -
  have ne: "k \<noteq> []" using assms(1) by (simp add: word_bytes_def)
  have "dropWhile is_space (k @ rest) = k @ rest"
    using assms(1) by (cases k) (auto simp: word_bytes_def)
  moreover have "takeWhile (\<lambda>b. \<not> is_space b) (k @ rest) = k"
    using assms by (cases rest) (auto simp: word_bytes_def takeWhile_append2)
  ultimately show ?thesis using assms(2) ne by (simp add: scan_key_def Let_def MMC_MAX_KEY_LEN_def)
qed

end
