(* ===== verification/Mmc_Ascii.thy ===== *)
theory Mmc_Ascii
  imports Mmc_Request
begin

text \<open>
  The ascii protocol, \<^verbatim>\<open>src/memcache_ascii_protocol.c\<close>: the commands it builds into the send
  buffer of a request, and the parsers of the responses.
\<close>

datatype ascii_parser = PARSE_RESPONSE | PARSE_MUTATE | PARSE_VALUE | READ_VALUE

text \<open>
  An ascii request: the buffers of \<^verbatim>\<open>mmc_request_t\<close>, its parser and the fields of
  \<^verbatim>\<open>mmc_ascii_request_t\<close>. \<open>a_readbuf\<close> holds the bytes up to \<^verbatim>\<open>readbuf.idx\<close> and \<open>a_room\<close> is
  the number of bytes \<^verbatim>\<open>mmc_buffer_alloc\<close> was last asked to make room for.
\<close>

record mmc_ascii_request =
  a_sendbuf :: buf
  a_key :: buf
  a_parse :: ascii_parser
  a_readbuf :: buf
  a_room :: nat
  av_key :: buf
  av_flags :: u32
  av_length :: u64
  av_cas :: u64

subsection \<open>Commands\<close>

definition mmc_ascii_create_request :: "buf \<Rightarrow> mmc_ascii_request" where
  "mmc_ascii_create_request key =
     \<lparr>a_sendbuf = [], a_key = key, a_parse = PARSE_RESPONSE, a_readbuf = [], a_room = 0,
      av_key = [], av_flags = 0, av_length = 0, av_cas = 0\<rparr>"

definition append_send :: "buf \<Rightarrow> mmc_ascii_request \<Rightarrow> mmc_ascii_request" where
  "append_send bs req = req\<lparr>a_sendbuf := a_sendbuf req @ bs\<rparr>"

definition crlf :: buf where "crlf = [13, 10]"

definition mmc_ascii_reset_request :: "mmc_ascii_request \<Rightarrow> mmc_ascii_request" where
  "mmc_ascii_reset_request req = req\<lparr>av_cas := 0, a_sendbuf := [], a_readbuf := []\<rparr>"

definition mmc_ascii_begin_get :: "mmc_ascii_request \<Rightarrow> int \<Rightarrow> mmc_ascii_request" where
  "mmc_ascii_begin_get req op =
     append_send (if op = MMC_OP_GETS then bytes ''gets'' else bytes ''get'') (req\<lparr>a_parse := PARSE_VALUE\<rparr>)"

definition mmc_ascii_append_get :: "mmc_ascii_request \<Rightarrow> buf \<Rightarrow> mmc_ascii_request" where
  "mmc_ascii_append_get req key = append_send key (append_send [32] req)"

definition mmc_ascii_end_get :: "mmc_ascii_request \<Rightarrow> mmc_ascii_request" where
  "mmc_ascii_end_get req = append_send crlf req"

definition mmc_ascii_get :: "mmc_ascii_request \<Rightarrow> int \<Rightarrow> buf \<Rightarrow> mmc_ascii_request" where
  "mmc_ascii_get req op key = mmc_ascii_end_get (mmc_ascii_append_get (mmc_ascii_begin_get req op) key)"

definition ascii_store_name :: "int \<Rightarrow> buf option" where
  "ascii_store_name op =
     (if op = MMC_OP_SET then Some (bytes ''set'')
      else if op = MMC_OP_ADD then Some (bytes ''add'')
      else if op = MMC_OP_REPLACE then Some (bytes ''replace'')
      else if op = MMC_OP_CAS then Some (bytes ''cas'')
      else if op = MMC_OP_APPEND then Some (bytes ''append'')
      else if op = MMC_OP_PREPEND then Some (bytes ''prepend'')
      else None)"

definition mmc_ascii_store ::
  "('d, 'o) php_runtime \<Rightarrow> compress_settings \<Rightarrow> mmc_ascii_request \<Rightarrow> int \<Rightarrow> buf \<Rightarrow> u32 \<Rightarrow> u32 \<Rightarrow> u64 \<Rightarrow>
   ('d, 'o) zval \<Rightarrow> int \<times> mmc_ascii_request" where
  "mmc_ascii_store rt pool req op key flags exptime cas value =
     (let req = req\<lparr>a_parse := PARSE_RESPONSE\<rparr>;
          (status, buffer, flags) = mmc_pack_value rt pool [] value flags in
      if status \<noteq> MMC_OK then (status, req)
      else case ascii_store_name op of
        None \<Rightarrow> (MMC_REQUEST_FAILURE, req)
      | Some name \<Rightarrow>
          (MMC_OK,
           append_send (crlf @ buffer @ crlf)
            (append_send (if op = MMC_OP_CAS then 32 # dec (unat cas) else [])
              (append_send (32 # dec (unat flags) @ 32 # dec (unat exptime) @ 32 # dec (length buffer))
                (append_send (name @ 32 # key) req)))))"

definition mmc_ascii_delete :: "mmc_ascii_request \<Rightarrow> buf \<Rightarrow> u32 \<Rightarrow> mmc_ascii_request" where
  "mmc_ascii_delete req key exptime =
     append_send crlf
      (append_send (if exptime > 0 then 32 # dec (unat exptime) else [])
        (append_send (bytes ''delete'' @ 32 # key) (req\<lparr>a_parse := PARSE_RESPONSE\<rparr>)))"

text \<open>The amount is a C \<^verbatim>\<open>long\<close>; \<^verbatim>\<open>-value\<close> is printed as an unsigned number.\<close>

definition mmc_ascii_mutate :: "mmc_ascii_request \<Rightarrow> buf \<Rightarrow> 64 word \<Rightarrow> mmc_ascii_request" where
  "mmc_ascii_mutate req key value =
     append_send (32 # dec (unat (if sint value \<ge> 0 then value else - value)) @ crlf)
      (append_send ((if sint value \<ge> 0 then bytes ''incr'' else bytes ''decr'') @ 32 # key)
        (req\<lparr>a_parse := PARSE_MUTATE\<rparr>))"

definition mmc_ascii_flush :: "mmc_ascii_request \<Rightarrow> u32 \<Rightarrow> mmc_ascii_request" where
  "mmc_ascii_flush req exptime =
     append_send crlf
      (append_send (if exptime > 0 then 32 # dec (unat exptime) else [])
        (append_send (bytes ''flush_all'') (req\<lparr>a_parse := PARSE_RESPONSE\<rparr>)))"

definition mmc_ascii_version :: "mmc_ascii_request \<Rightarrow> mmc_ascii_request" where
  "mmc_ascii_version req = append_send (bytes ''version'' @ crlf) (req\<lparr>a_parse := PARSE_RESPONSE\<rparr>)"

text \<open>The type of \<^verbatim>\<open>stats\<close> is a C string or NULL; NULL prints as \<^verbatim>\<open>(null)\<close>.\<close>

definition mmc_ascii_stats :: "mmc_ascii_request \<Rightarrow> buf option \<Rightarrow> int \<Rightarrow> int \<Rightarrow> mmc_ascii_request" where
  "mmc_ascii_stats req type slabid limit =
     append_send
      (if slabid \<noteq> 0 then
         bytes ''stats '' @ (case type of Some t \<Rightarrow> c_string t | None \<Rightarrow> bytes ''(null)'') @
         32 # dec_int slabid @ 32 # dec_int limit @ crlf
       else case type of
         Some t \<Rightarrow> bytes ''stats '' @ c_string t @ crlf
       | None \<Rightarrow> bytes ''stats'' @ crlf)
      (req\<lparr>a_parse := PARSE_RESPONSE\<rparr>)"

subsection \<open>Responses\<close>

text \<open>The response code, and the line with its carriage return overwritten by a NUL.\<close>

definition mmc_request_check_response :: "buf \<Rightarrow> int \<times> buf" where
  "mmc_request_check_response line =
     (let n = length line;
          line = (if n \<ge> 2 \<and> line ! (n - 2) = 13 \<and> line ! (n - 1) = 10 then line[n - 2 := 0] else line);
          response =
            (if mmc_str_left line (bytes ''OK'') \<or> mmc_str_left line (bytes ''STORED'') \<or>
                mmc_str_left line (bytes ''DELETED'') then MMC_OK
             else if mmc_str_left line (bytes ''NOT_FOUND'') then MMC_RESPONSE_NOT_FOUND
             else if mmc_str_left line (bytes ''NOT_STORED'') \<or> mmc_str_left line (bytes ''EXISTS'')
               then MMC_RESPONSE_EXISTS
             else if mmc_str_left line (bytes ''SERVER_ERROR out of memory'') then MMC_RESPONSE_OUT_OF_MEMORY
             else if mmc_str_left line (bytes ''SERVER_ERROR object too large'') then MMC_RESPONSE_TOO_LARGE
             else if mmc_str_left line (bytes ''ERROR'') \<or> mmc_str_left line (bytes ''SERVER_ERROR'')
               then MMC_RESPONSE_ERROR
             else if mmc_str_left line (bytes ''CLIENT_ERROR'') then MMC_RESPONSE_CLIENT_ERROR
             else MMC_RESPONSE_UNKNOWN)
      in (response, line))"

text \<open>The message length passed to a response handler, an \<^verbatim>\<open>unsigned int\<close>.\<close>

definition message_len :: "buf \<Rightarrow> u32" where
  "message_len line = word_of_nat (length line) - 2"

type_synonym 's ascii_step = "(int \<times> mmc_ascii_request \<times> mmc_io \<times> 's) option"

definition mmc_request_parse_response ::
  "('d, 'o, 's) mmc_handlers \<Rightarrow> mmc_ascii_request \<Rightarrow> mmc_io \<Rightarrow> 's \<Rightarrow> 's ascii_step" where
  "mmc_request_parse_response h req io s =
     (case mmc_stream_get_line io of
        (None, io) \<Rightarrow> Some (MMC_REQUEST_MORE, req, io, s)
      | (Some line, io) \<Rightarrow>
          let (response, msg) = mmc_request_check_response line;
              (r, s) = response_handler h response msg (message_len line) s
          in Some (r, req, io, s))"

definition mmc_request_parse_mutate ::
  "('d, 'o, 's) mmc_handlers \<Rightarrow> mmc_ascii_request \<Rightarrow> mmc_io \<Rightarrow> 's \<Rightarrow> 's ascii_step" where
  "mmc_request_parse_mutate h req io s =
     (case mmc_stream_get_line io of
        (None, io) \<Rightarrow> Some (MMC_REQUEST_MORE, req, io, s)
      | (Some line, io) \<Rightarrow>
          let (response, msg) = mmc_request_check_response line;
              (r, s) = (if response \<noteq> MMC_RESPONSE_UNKNOWN
                        then response_handler h response msg (message_len line) s
                        else case scan_ld msg of
                          None \<Rightarrow> server_failure h ''Malformed VALUE header'' s
                        | Some lval \<Rightarrow> value_handler h (a_key req) (IS_LONG (word_of_int lval)) 0 0 s)
          in Some (r, req, io, s))"

definition mmc_request_parse_value ::
  "('d, 'o, 's) mmc_handlers \<Rightarrow> mmc_ascii_request \<Rightarrow> mmc_io \<Rightarrow> 's \<Rightarrow> 's ascii_step" where
  "mmc_request_parse_value h req io s =
     (case mmc_stream_get_line io of
        (None, io) \<Rightarrow> Some (MMC_REQUEST_MORE, req, io, s)
      | (Some line, io) \<Rightarrow>
          if mmc_str_left line (bytes ''END'') then Some (MMC_REQUEST_DONE, req, io, s)
          else case scan_value_header line of
            None \<Rightarrow> (let (r, s) = server_failure h ''Malformed VALUE header'' s in Some (r, req, io, s))
          | Some (key, flags, len, cas) \<Rightarrow>
              Some (MMC_REQUEST_AGAIN,
                req\<lparr>av_key := key, av_flags := flags, av_length := len,
                    av_cas := (case cas of None \<Rightarrow> av_cas req | Some c \<Rightarrow> c),
                    a_room := unat (ucast (len + 2) :: u32), a_parse := READ_VALUE\<rparr>,
                io, s))"

text \<open>
  \<open>None\<close> is a memory error: bytes written past the room that was allocated, or a value of
  more bytes than were read handed to \<^verbatim>\<open>mmc_unpack_value\<close>.
\<close>

definition mmc_server_read_value ::
  "('d, 'o) php_runtime \<Rightarrow> ('d, 'o, 's) mmc_handlers \<Rightarrow> mmc_ascii_request \<Rightarrow> mmc_io \<Rightarrow> 's \<Rightarrow> 's ascii_step" where
  "mmc_server_read_value rt h req io s =
     (let need = av_length req + 2;
          (got, b) = mmc_stream_read_buffered (io_buffer io) (unat (need - word_of_nat (length (a_readbuf req))));
          io = io\<lparr>io_buffer := b\<rparr>;
          readbuf = a_readbuf req @ got in
      if length readbuf > a_room req then None
      else if length readbuf \<ge> unat need then
        let nbytes = unat (ucast (av_length req) :: u32);
            req' = req\<lparr>a_parse := PARSE_VALUE, a_readbuf := []\<rparr> in
        if nbytes > length readbuf then None
        else do {
          (result, s) \<leftarrow> deliver_value rt h (av_key req) (av_flags req) (av_cas req) (take nbytes readbuf) s;
          Some (if result = MMC_REQUEST_DONE then MMC_REQUEST_AGAIN else result, req', io, s)
        }
      else Some (MMC_REQUEST_MORE, req\<lparr>a_readbuf := readbuf\<rparr>, io, s))"

definition ascii_parse ::
  "('d, 'o) php_runtime \<Rightarrow> ('d, 'o, 's) mmc_handlers \<Rightarrow> mmc_ascii_request \<Rightarrow> mmc_io \<Rightarrow> 's \<Rightarrow> 's ascii_step" where
  "ascii_parse rt h req io s =
     (case a_parse req of
        PARSE_RESPONSE \<Rightarrow> mmc_request_parse_response h req io s
      | PARSE_MUTATE \<Rightarrow> mmc_request_parse_mutate h req io s
      | PARSE_VALUE \<Rightarrow> mmc_request_parse_value h req io s
      | READ_VALUE \<Rightarrow> mmc_server_read_value rt h req io s)"

text \<open>The parser as a step of the parse loop, and the arrival of bytes on its stream.\<close>

type_synonym 's ascii_state = "mmc_ascii_request \<times> mmc_io \<times> 's"

definition ascii_step ::
  "('d, 'o) php_runtime \<Rightarrow> ('d, 'o, 's) mmc_handlers \<Rightarrow> 's ascii_state \<Rightarrow> (int \<times> 's ascii_state) option" where
  "ascii_step rt h = (\<lambda>(req, io, s). ascii_parse rt h req io s)"

definition ascii_recv :: "buf \<Rightarrow> 's ascii_state \<Rightarrow> 's ascii_state" where
  "ascii_recv c = (\<lambda>(req, io, s). (req, receive io c, s))"

definition ascii_parse_loop ::
  "('d, 'o) php_runtime \<Rightarrow> ('d, 'o, 's) mmc_handlers \<Rightarrow> mmc_ascii_request \<Rightarrow> mmc_io \<Rightarrow> 's \<Rightarrow>
   (int \<times> 's ascii_state) option option" where
  "ascii_parse_loop rt h req io s = parse_loop (ascii_step rt h) (req, io, s)"

subsection \<open>Independence of the fragmentation\<close>

definition ascii_ok :: "'s ascii_state \<Rightarrow> bool" where
  "ascii_ok = (\<lambda>(req, io, s). line_io io \<and>
     (if a_parse req = READ_VALUE then length (a_readbuf req) \<le> unat (av_length req + 2) else a_readbuf req = []))"

lemma read_value_fill:
  assumes "length (a_readbuf req) \<le> unat (av_length req + 2)"
  shows "mmc_server_read_value rt h req io s =
    (let need = unat (av_length req + 2); (readbuf, io) = fill io (a_readbuf req) need in
     if length readbuf > a_room req then None
     else if length readbuf \<ge> need then
       let nbytes = unat (ucast (av_length req) :: u32);
           req' = req\<lparr>a_parse := PARSE_VALUE, a_readbuf := []\<rparr> in
       if nbytes > length readbuf then None
       else do {
         (result, s) \<leftarrow> deliver_value rt h (av_key req) (av_flags req) (av_cas req) (take nbytes readbuf) s;
         Some (if result = MMC_REQUEST_DONE then MMC_REQUEST_AGAIN else result, req', io, s)
       }
     else Some (MMC_REQUEST_MORE, req\<lparr>a_readbuf := readbuf\<rparr>, io, s))"
proof -
  obtain got b where gb: "mmc_stream_read_buffered (io_buffer io) (unat (av_length req + 2) - length (a_readbuf req)) = (got, b)"
    by fastforce
  show ?thesis
    unfolding mmc_server_read_value_def Let_def unat_minus_of_nat [OF assms] gb read_buffered_fill [OF gb] prod.case ..
qed

lemma line_io_read: "line_io io \<Longrightarrow> read_io io"
  by (simp add: line_io_def io_ok_def read_io_def)

lemma fill_line_io: "line_io io \<Longrightarrow> line_io (snd (fill io rb need))"
  using fill_io [of io rb need] by (simp add: line_io_def io_ok_def read_io_def)

text \<open>One step of the body reader, and one step of a line parser, against later bytes.\<close>

lemma read_value_incremental:
  assumes nm: "handlers_no_more h" and ok: "ascii_ok (req, io, s)" and rv: "a_parse req = READ_VALUE"
  shows "step_incremental (ascii_step rt h) ascii_recv ascii_ok (req, io, s)"
proof -
  let ?need = "unat (av_length req + 2)"
  obtain rb io' where f: "fill io (a_readbuf req) ?need = (rb, io')" by fastforce
  have line: "line_io io" and len: "length (a_readbuf req) \<le> ?need" using ok rv by (simp_all add: ascii_ok_def)
  note rd = line_io_read [OF line]
  have io': "line_io io'" and rb: "length rb \<le> ?need"
    using fill_line_io [OF line, of "a_readbuf req" ?need] fill_length [OF len, of io] f by simp_all
  have mono: "length rb \<le> length (fst (fill (receive io d) (a_readbuf req) ?need))" for d
    using fill_mono [OF rd, of "a_readbuf req" ?need d] f by simp
  have step: "ascii_step rt h (ascii_recv d (req, io, s)) = mmc_server_read_value rt h req (receive io d) s" for d
    using rv by (simp add: ascii_step_def ascii_recv_def ascii_parse_def)
  have step0: "ascii_step rt h (req, io, s) = mmc_server_read_value rt h req io s"
    using rv by (simp add: ascii_step_def ascii_parse_def)
  note eq = read_value_fill [OF len, of rt h]
  consider (over) "length rb > a_room req" | (full) "length rb \<le> a_room req" "?need \<le> length rb"
    | (part) "length rb \<le> a_room req" "length rb < ?need" by linarith
  then show ?thesis
  proof cases
    case over
    then have "length (fst (fill (receive io d) (a_readbuf req) ?need)) > a_room req" for d
      using mono [of d] by linarith
    then have "mmc_server_read_value rt h req (receive io d) s = None" for d
      unfolding eq by (simp add: Let_def case_prod_unfold)
    moreover have "mmc_server_read_value rt h req io s = None" unfolding eq using over by (simp add: f Let_def)
    ultimately show ?thesis unfolding step_incremental_def step step0 by simp
  next
    case full
    have fd: "fill (receive io d) (a_readbuf req) ?need = (rb, receive io' d)" for d
      using fill_complete [OF rd len, of d] full f by simp
    show ?thesis
      unfolding step_incremental_def step step0 eq Let_def using full io' nm
      by (auto simp: fd f ascii_ok_def ascii_recv_def bind_eq_Some_conv bind_eq_None_conv mmc_consts
          dest: deliver_value_no_more split: option.split)
  next
    case part
    let ?req = "req\<lparr>a_readbuf := rb\<rparr>"
    have len': "length (a_readbuf ?req) \<le> unat (av_length ?req + 2)" using rb by simp
    have fd: "fill (receive io d) (a_readbuf req) ?need = fill (receive io' d) rb ?need" for d
      using fill_partial [OF rd, of "a_readbuf req" ?need d] part f by simp
    have "mmc_server_read_value rt h req (receive io d) s = mmc_server_read_value rt h ?req (receive io' d) s" for d
      unfolding eq read_value_fill [OF len']
      by (cases "fill (receive io' d) rb ?need") (simp add: fd Let_def)
    moreover have "mmc_server_read_value rt h req io s = Some (MMC_REQUEST_MORE, ?req, io', s)"
      unfolding eq using part by (simp add: f Let_def)
    moreover have "ascii_ok (?req, io', s)" using rv io' rb by (simp add: ascii_ok_def)
    ultimately show ?thesis
      unfolding step_incremental_def step step0 using rv by (simp add: ascii_step_def ascii_recv_def ascii_parse_def)
  qed
qed

lemma line_parser_incremental:
  assumes nm: "handlers_no_more h" and ok: "ascii_ok (req, io, s)" and rv: "a_parse req \<noteq> READ_VALUE"
  shows "step_incremental (ascii_step rt h) ascii_recv ascii_ok (req, io, s)"
proof -
  have line: "line_io io" and rb: "a_readbuf req = []" using ok rv by (simp_all add: ascii_ok_def)
  have nm': "fst (response_handler h r m n s) \<noteq> MMC_REQUEST_MORE" "fst (value_handler h k v f c s) \<noteq> MMC_REQUEST_MORE"
    "fst (server_failure h e s) \<noteq> MMC_REQUEST_MORE" for r m n s k v f c e
    using nm by (simp_all add: handlers_no_more_def)
  have neq: "MMC_REQUEST_DONE \<noteq> MMC_REQUEST_MORE" "MMC_REQUEST_AGAIN \<noteq> MMC_REQUEST_MORE"
    by (simp_all add: mmc_consts)
  obtain l io' where g: "mmc_stream_get_line io = (l, io')" by fastforce
  note st = get_line_stable [OF line, unfolded g prod.case]
  show ?thesis
  proof (cases l)
    case None
    then have io': "line_io io'"
      and d: "mmc_stream_get_line (receive io d) = mmc_stream_get_line (receive io' d)" for d
      using st by simp_all
    have "ascii_step rt h (req, io, s) = Some (MMC_REQUEST_MORE, req, io', s)"
      using rv g None by (cases "a_parse req") (simp_all add: ascii_step_def ascii_parse_def
          mmc_request_parse_response_def mmc_request_parse_mutate_def mmc_request_parse_value_def)
    moreover have "ascii_step rt h (ascii_recv d (req, io, s)) = ascii_step rt h (ascii_recv d (req, io', s))" for d
      using rv d [of d] by (cases "a_parse req") (simp_all add: ascii_step_def ascii_parse_def ascii_recv_def
          mmc_request_parse_response_def mmc_request_parse_mutate_def mmc_request_parse_value_def)
    ultimately show ?thesis using rv rb io' by (simp add: step_incremental_def ascii_ok_def)
  next
    case (Some line)
    then have io': "line_io io'" and d: "mmc_stream_get_line (receive io d) = (Some line, receive io' d)" for d
      using st by simp_all
    show ?thesis
    proof (cases "a_parse req")
      case PARSE_RESPONSE
      then show ?thesis
        using g d Some rb io' nm'(1)
        by (auto simp: step_incremental_def ascii_step_def ascii_parse_def ascii_recv_def mmc_request_parse_response_def ascii_ok_def
            Let_def split: prod.split dest: arg_cong [of _ _ fst])
    next
      case PARSE_MUTATE
      then show ?thesis
        using g d Some rb io' nm'
        by (auto simp: step_incremental_def ascii_step_def ascii_parse_def ascii_recv_def mmc_request_parse_mutate_def ascii_ok_def
            Let_def split: prod.split option.split if_splits dest: arg_cong [of _ _ fst])
    next
      case PARSE_VALUE
      then show ?thesis
        using g d Some rb io' nm'(3) neq
        by (auto simp: step_incremental_def ascii_step_def ascii_parse_def ascii_recv_def mmc_request_parse_value_def ascii_ok_def
            Let_def split: prod.split option.split if_splits dest: arg_cong [of _ _ fst])
    qed (use rv in simp)
  qed
qed

lemma ascii_incremental:
  assumes "handlers_no_more h"
  shows "incremental_parser (ascii_step rt h) ascii_recv ascii_ok"
proof (rule incremental_parserI)
  fix x :: "'c ascii_state" assume ok: "ascii_ok x"
  show "step_incremental (ascii_step rt h) ascii_recv ascii_ok x"
  proof (cases x)
    case (fields req io s)
    then show ?thesis
      using ok read_value_incremental [OF assms, of req io s rt] line_parser_incremental [OF assms, of req io s rt]
      by blast
  qed
qed (auto simp: ascii_recv_def receive_receive receive_Nil ascii_ok_def line_io_receive)

subsection \<open>The responses of a server to a get\<close>

record value_item =
  vi_key :: buf
  vi_flags :: u32
  vi_cas :: "u64 option"
  vi_payload :: buf

text \<open>The line \<^verbatim>\<open>VALUE <key> <flags> <bytes> [<cas unique>]\<close> up to its newline.\<close>

definition value_line :: "value_item \<Rightarrow> buf" where
  "value_line it = bytes ''VALUE'' @ 32 # vi_key it @ 32 # dec (unat (vi_flags it)) @
     32 # dec (length (vi_payload it)) @
     (case vi_cas it of None \<Rightarrow> [] | Some c \<Rightarrow> 32 # dec (unat c)) @ [13]"

fun value_stream :: "value_item list \<Rightarrow> buf" where
  "value_stream [] = bytes ''END'' @ crlf"
| "value_stream (it # its) = value_line it @ 10 # vi_payload it @ crlf @ value_stream its"

definition item_ok :: "value_item \<Rightarrow> bool" where
  "item_ok it \<longleftrightarrow> word_bytes (vi_key it) \<and> length (vi_key it) \<le> MMC_MAX_KEY_LEN \<and>
     length (vi_payload it) + 2 < 2 ^ 32"

definition item_cas :: "u64 \<Rightarrow> value_item \<Rightarrow> u64" where
  "item_cas c it = (case vi_cas it of None \<Rightarrow> c | Some d \<Rightarrow> d)"

text \<open>The values of a response handed to the value handler one after the other.\<close>

fun deliver_all ::
  "('d, 'o) php_runtime \<Rightarrow> ('d, 'o, 's) mmc_handlers \<Rightarrow> u64 \<Rightarrow> value_item list \<Rightarrow> 's \<Rightarrow> 's" where
  "deliver_all rt h c [] s = s"
| "deliver_all rt h c (it # its) s =
     deliver_all rt h (item_cas c it) its
       (case deliver_value rt h (vi_key it) (vi_flags it) (item_cas c it) (vi_payload it) s of
          Some (r, s') \<Rightarrow> s' | None \<Rightarrow> s)"

definition value_handler_done :: "('d, 'o, 's) mmc_handlers \<Rightarrow> bool" where
  "value_handler_done h \<longleftrightarrow> (\<forall>k v f c s. fst (value_handler h k v f c s) = MMC_REQUEST_DONE)"

lemma deliver_value_done:
  assumes "value_handler_done h" and "length key \<le> MMC_MAX_KEY_LEN"
  obtains s' where "deliver_value rt h key flags cas payload s = Some (MMC_REQUEST_DONE, s')"
proof -
  obtain r where r: "deliver_value rt h key flags cas payload s = Some r"
    using deliver_value_short_key [OF assms(2), of rt h flags cas payload s] by blast
  then have "fst r = MMC_REQUEST_DONE"
    using assms(1) by (auto simp: deliver_value_def value_handler_done_def split: unpack_outcome.splits)
  with r that [of "snd r"] show thesis by (cases r) simp
qed

lemma crlf_no_nl [simp]: "crlf = [13, 10]"
  by (simp add: crlf_def)

lemma word_bytes_no:
  "word_bytes k \<Longrightarrow> 0 \<notin> set k" "word_bytes k \<Longrightarrow> 10 \<notin> set k" "word_bytes k \<Longrightarrow> 32 \<notin> set k"
  by (auto simp: word_bytes_def is_space_def word_le_nat_alt)

lemma dec_no [simp]: "0 \<notin> set (dec n)" "10 \<notin> set (dec n)" "32 \<notin> set (dec n)"
  using word_bytes_no [OF dec_word_bytes] by auto

lemma bytes_VALUE: "bytes ''VALUE'' = [86, 65, 76, 85, 69]" and bytes_END: "bytes ''END'' = [69, 78, 68]"
  by (simp_all add: bytes_def of_char_def)

lemma value_line_no:
  assumes "item_ok it" shows "10 \<notin> set (value_line it)" "0 \<notin> set (value_line it)"
  using assms word_bytes_no by (auto simp: value_line_def bytes_VALUE item_ok_def split: option.splits)

lemma dec_length_u64: "n < 2 ^ 64 \<Longrightarrow> length (dec n) \<le> 20"
  by (rule dec_length_mono) (auto elim: order.strict_trans2)

lemma length_value_line:
  assumes "item_ok it" shows "length (value_line it) + 1 < MMC_BUFFER_SIZE"
proof -
  have "length (dec (unat (vi_flags it))) \<le> 20" "length (dec (length (vi_payload it))) \<le> 20"
    "length (dec (unat c)) \<le> 20" for c :: u64
    using assms unat_u32_less [of "vi_flags it"] unat_u64_less [of c]
    by (auto intro!: dec_length_u64 simp: item_ok_def elim: order.strict_trans2)
  then have "length (case vi_cas it of None \<Rightarrow> [] | Some c \<Rightarrow> 32 # dec (unat c)) \<le> 21"
    "length (dec (unat (vi_flags it))) \<le> 20" "length (dec (length (vi_payload it))) \<le> 20"
    "length (vi_key it) \<le> 250"
    using assms by (auto simp: item_ok_def MMC_MAX_KEY_LEN_def split: option.splits)
  then show ?thesis by (simp add: value_line_def MMC_BUFFER_SIZE_def)
qed

lemma scan_value_line:
  assumes "item_ok it"
  shows "scan_value_header (value_line it @ [10]) =
    Some (vi_key it, vi_flags it, word_of_nat (length (vi_payload it)), vi_cas it)"
proof -
  have key: "word_bytes (vi_key it)" "length (vi_key it) \<le> MMC_MAX_KEY_LEN"
    and len: "length (vi_payload it) < 2 ^ 64"
    using assms by (auto simp: item_ok_def)
  have fl: "unat (vi_flags it) < 2 ^ 64" "unat c < 2 ^ 64" for c :: u64
    using unat_u32_less [of "vi_flags it"] unat_u64_less [of c]
    by (auto elim: order.strict_trans2)
  have c: "c_string (value_line it @ [10]) = value_line it @ [10]"
    using value_line_no [OF assms] by (auto simp: c_string_def takeWhile_eq_all_conv)
  let ?c = "(case vi_cas it of None \<Rightarrow> [] | Some c \<Rightarrow> 32 # dec (unat c)) @ [13, 10]"
  have hd: "?c = [] \<or> \<not> is_digit (hd ?c)" by (simp split: option.splits)
  let ?l = "32 # dec (length (vi_payload it)) @ ?c" and ?f = "dec (unat (vi_flags it))"
  have line: "value_line it @ [10] = bytes ''VALUE'' @ 32 # vi_key it @ 32 # ?f @ ?l"
    by (simp add: value_line_def)
  have none: "scan_lu [13, 10] = None"
    by (simp add: scan_lu_def scan_int_def Let_def is_space_def word_le_nat_alt)
  have "scan_key (32 # vi_key it @ 32 # ?f @ ?l) = Some (vi_key it, 32 # ?f @ ?l)"
    using key by (intro scan_key_word) simp_all
  moreover have "scan_lu (32 # ?f @ ?l) = Some (ucast (vi_flags it), ?l)"
    using scan_lu_dec [of ?l "unat (vi_flags it)"] fl(1) by simp
  moreover have "scan_lu ?l = Some (word_of_nat (length (vi_payload it)), ?c)"
    using scan_lu_dec [OF hd len] by simp
  moreover have "map_option fst (scan_lu ?c) = vi_cas it"
    using scan_lu_dec [of "[13, 10]"] fl(2)
    by (cases "vi_cas it") (simp_all add: none)
  moreover have "(ucast (ucast (vi_flags it) :: u64) :: u32) = vi_flags it"
    by (rule bit_word_eqI) (simp add: bit_simps)
  ultimately show ?thesis
    unfolding scan_value_header_def c Let_def unfolding line by simp
qed

lemma value_line_not_END: "\<not> mmc_str_left (value_line it @ [10]) (bytes ''END'')"
  by (simp add: mmc_str_left_def value_line_def bytes_VALUE bytes_END)

subsection \<open>Delivery from a fragmented stream\<close>

text \<open>The request waits for the next line, or for the rest of a value body.\<close>

definition awaits_line :: "mmc_ascii_request \<Rightarrow> mmc_io \<Rightarrow> u64 \<Rightarrow> buf \<Rightarrow> value_item list \<Rightarrow> buf \<Rightarrow> bool" where
  "awaits_line req io cas future its rest \<longleftrightarrow>
     a_parse req = PARSE_VALUE \<and> a_readbuf req = [] \<and> av_cas req = cas \<and> io_ok io \<and>
     10 \<notin> set (io_input io) \<and> io_input io @ unread io @ future = value_stream its @ rest"

definition awaits_body ::
  "mmc_ascii_request \<Rightarrow> mmc_io \<Rightarrow> u64 \<Rightarrow> buf \<Rightarrow> value_item \<Rightarrow> value_item list \<Rightarrow> buf \<Rightarrow> bool" where
  "awaits_body req io cas future it its rest \<longleftrightarrow>
     a_parse req = READ_VALUE \<and> av_key req = vi_key it \<and> av_flags req = vi_flags it \<and>
     av_length req = word_of_nat (length (vi_payload it)) \<and> av_cas req = item_cas cas it \<and>
     a_room req = length (vi_payload it) + 2 \<and> io_ok io \<and> io_input io = [] \<and>
     length (a_readbuf req) < length (vi_payload it) + 2 \<and>
     a_readbuf req @ unread io @ future = vi_payload it @ crlf @ value_stream its @ rest"

text \<open>What one run of the parse loop may end in: all delivered, or everything that arrived used up.\<close>

definition waits :: "mmc_ascii_request \<Rightarrow> mmc_io \<Rightarrow> u64 \<Rightarrow> buf \<Rightarrow> value_item list \<Rightarrow> buf \<Rightarrow> bool" where
  "waits req io cas future its rest \<longleftrightarrow>
     awaits_line req io cas future its rest \<or>
     (\<exists>it its'. its = it # its' \<and> awaits_body req io cas future it its' rest)"

definition loop_result where
  "loop_result rt h out cas future its rest s \<longleftrightarrow>
     (\<exists>req' io'. out = Some (Some (MMC_REQUEST_DONE, req', io', deliver_all rt h cas its s)) \<and>
        unread io' @ future = rest) \<or>
     (\<exists>req' io' s' cas' its'. out = Some (Some (MMC_REQUEST_MORE, req', io', s')) \<and>
        waits req' io' cas' future its' rest \<and> unread io' = [] \<and> set its' \<subseteq> set its \<and>
        deliver_all rt h cas' its' s' = deliver_all rt h cas its s)"

lemma word_room:
  assumes "n + 2 < 2 ^ 32"
  shows "unat (word_of_nat n + 2 :: u64) = n + 2"
    and "unat (ucast (word_of_nat n + 2 :: u64) :: u32) = n + 2"
    and "unat (ucast (word_of_nat n :: u64) :: u32) = n"
proof -
  have w: "(word_of_nat n + 2 :: u64) = word_of_nat (n + 2)" by simp
  have "n + 2 < 2 ^ 64" "n + 2 < 2 ^ 32" using assms by simp_all
  then show "unat (word_of_nat n + 2 :: u64) = n + 2" "unat (ucast (word_of_nat n + 2 :: u64) :: u32) = n + 2"
    "unat (ucast (word_of_nat n :: u64) :: u32) = n"
    unfolding w by (simp_all only: unsigned_of_nat unsigned_ucast_eq take_bit_nat_eq_self_iff
        take_bit_nat_eq_self) (simp_all add: unsigned_of_nat unsigned_ucast_eq take_bit_nat_eq_self_iff)
qed

text \<open>Reading a value body, as far as it has arrived.\<close>

lemma read_value_body:
  assumes b: "awaits_body req io cas future it its rest" and ok: "item_ok it" and h: "value_handler_done h"
  shows "(\<exists>req' io' s'. ascii_parse rt h req io s = Some (MMC_REQUEST_AGAIN, req', io', s') \<and>
            awaits_line req' io' (item_cas cas it) future its rest \<and>
            deliver_all rt h (item_cas cas it) its s' = deliver_all rt h cas (it # its) s) \<or>
         (\<exists>req' io'. ascii_parse rt h req io s = Some (MMC_REQUEST_MORE, req', io', s) \<and>
            awaits_body req' io' cas future it its rest \<and> unread io' = [])"
proof -
  let ?n = "length (vi_payload it)" and ?m = "length (a_readbuf req)"
  let ?cnt = "?n + 2 - ?m"
  note bs = b [unfolded awaits_body_def]
  have n: "?n + 2 < 2 ^ 32" using ok by (simp add: item_ok_def)
  have m: "?m < ?n + 2" using bs by simp
  have need: "unat (av_length req + 2) = ?n + 2" "unat (ucast (av_length req) :: u32) = ?n"
    using bs word_room [OF n] by simp_all
  have "av_length req + 2 = word_of_nat (?n + 2)" using bs by simp
  then have "av_length req + 2 - word_of_nat ?m = word_of_nat ?cnt"
    using m by (simp only: of_nat_diff less_imp_le)
  then have cnt: "unat (av_length req + 2 - word_of_nat ?m) = ?cnt"
    using n m by (simp add: unsigned_of_nat take_bit_nat_eq_self_iff del: of_nat_diff of_nat_add)
  let ?bf = "io_buffer io"
  let ?k = "if length (unread io) < ?cnt then length (unread io) else ?cnt"
  let ?io = "io\<lparr>io_buffer := ?bf\<lparr>b_idx := b_idx ?bf + ?k\<rparr>\<rparr>"
  have rd: "mmc_stream_read_buffered ?bf ?cnt = (take ?k (unread io), ?bf\<lparr>b_idx := b_idx ?bf + ?k\<rparr>)"
    by (simp add: mmc_stream_read_buffered_def unread_def Let_def)
  have io: "io_ok ?io" "unread ?io = drop ?k (unread io)" "io_input ?io = []"
    using bs by (auto simp: io_ok_def unread_def add.commute)
  show ?thesis
  proof (cases "length (unread io) < ?cnt")
    case True
    then have "?m + length (unread io) < ?n + 2" using m by linarith
    with True have "ascii_parse rt h req io s =
        Some (MMC_REQUEST_MORE, req\<lparr>a_readbuf := a_readbuf req @ unread io\<rparr>, ?io, s)"
      using bs need cnt rd n m by (simp add: ascii_parse_def mmc_server_read_value_def Let_def)
    moreover have "awaits_body (req\<lparr>a_readbuf := a_readbuf req @ unread io\<rparr>) ?io cas future it its rest"
      using bs True io by (simp add: awaits_body_def)
    ultimately show ?thesis using True io by auto
  next
    case False
    let ?body = "a_readbuf req @ take ?cnt (unread io)"
    have len: "length ?body = ?n + 2" using False m by simp
    have split: "?body @ drop ?cnt (unread io) @ future = (vi_payload it @ crlf) @ value_stream its @ rest"
      using bs by (metis append.assoc append_take_drop_id)
    then have body: "?body = vi_payload it @ crlf" "drop ?cnt (unread io) @ future = value_stream its @ rest"
      using len append_eq_append_conv [of ?body "vi_payload it @ crlf"] by auto
    have k: "length (vi_key it) \<le> MMC_MAX_KEY_LEN" using ok by (simp add: item_ok_def)
    obtain s' where s': "deliver_value rt h (vi_key it) (vi_flags it) (item_cas cas it) (vi_payload it) s =
        Some (MMC_REQUEST_DONE, s')"
      using deliver_value_done [OF h k, of rt "vi_flags it" "item_cas cas it" "vi_payload it" s] by blast
    have "ascii_parse rt h req io s =
        Some (MMC_REQUEST_AGAIN, req\<lparr>a_parse := PARSE_VALUE, a_readbuf := []\<rparr>, ?io, s')"
      using bs need cnt rd False body(1) len s'
      by (simp add: ascii_parse_def mmc_server_read_value_def Let_def)
    moreover have "awaits_line (req\<lparr>a_parse := PARSE_VALUE, a_readbuf := []\<rparr>) ?io (item_cas cas it) future its rest"
      using bs io body(2) False by (simp add: awaits_line_def)
    ultimately show ?thesis using s' by auto
  qed
qed

text \<open>Reading the next line.\<close>

lemma read_end_line:
  assumes "awaits_line req io cas future [] rest"
  shows "(\<exists>req' io'. ascii_parse rt h req io s = Some (MMC_REQUEST_DONE, req', io', s) \<and> unread io' @ future = rest) \<or>
         (\<exists>req' io'. ascii_parse rt h req io s = Some (MMC_REQUEST_MORE, req', io', s) \<and>
            awaits_line req' io' cas future [] rest \<and> unread io' = [])"
proof -
  note l = assms [unfolded awaits_line_def]
  have "io_input io @ unread io @ future = (bytes ''END'' @ [13]) @ 10 # rest" using l by simp
  from get_line_stream [OF _ _ _ this] l
  consider io' where "mmc_stream_get_line io = (Some (bytes ''END'' @ [13, 10]), io')" "unread io' @ future = rest"
    | io' where "mmc_stream_get_line io = (None, io')" "io_ok io'" "10 \<notin> set (io_input io')" "unread io' = []"
        "io_input io' @ future = bytes ''END'' @ 13 # 10 # rest"
    by (auto simp: bytes_END MMC_BUFFER_SIZE_def)
  then show ?thesis
  proof cases
    case 1
    then show ?thesis using l by (simp add: ascii_parse_def mmc_request_parse_value_def mmc_str_left_def)
  next
    case 2
    then show ?thesis using l by (simp add: ascii_parse_def mmc_request_parse_value_def awaits_line_def)
  qed
qed

lemma read_value_line:
  assumes "awaits_line req io cas future (it # its) rest" and ok: "item_ok it"
  shows "(\<exists>req' io'. ascii_parse rt h req io s = Some (MMC_REQUEST_AGAIN, req', io', s) \<and>
            awaits_body req' io' cas future it its rest) \<or>
         (\<exists>req' io'. ascii_parse rt h req io s = Some (MMC_REQUEST_MORE, req', io', s) \<and>
            awaits_line req' io' cas future (it # its) rest \<and> unread io' = [])"
proof -
  note l = assms(1) [unfolded awaits_line_def]
  let ?tail = "vi_payload it @ crlf @ value_stream its @ rest"
  have "io_input io @ unread io @ future = value_line it @ 10 # ?tail" using l by simp
  from get_line_stream [OF _ _ _ this] l value_line_no [OF ok] length_value_line [OF ok]
  consider io' where "mmc_stream_get_line io = (Some (value_line it @ [10]), io')" "io_ok io'"
        "io_input io' = []" "unread io' @ future = ?tail"
    | io' where "mmc_stream_get_line io = (None, io')" "io_ok io'" "10 \<notin> set (io_input io')" "unread io' = []"
        "io_input io' @ future = value_line it @ 10 # ?tail"
    by auto
  then show ?thesis
  proof cases
    case 1
    have n: "length (vi_payload it) + 2 < 2 ^ 32" using ok by (simp add: item_ok_def)
    show ?thesis
      using 1 l word_room(2) [OF n] value_line_not_END [of it] scan_value_line [OF ok]
      by (cases "vi_cas it") (simp_all add: ascii_parse_def mmc_request_parse_value_def awaits_body_def item_cas_def)
  next
    case 2
    then show ?thesis using l by (simp add: ascii_parse_def mmc_request_parse_value_def awaits_line_def)
  qed
qed

lemma loop_step:
  assumes "ascii_parse rt h req io s = Some (r, req', io', s')"
  shows "ascii_parse_loop rt h req io s =
     (if r = MMC_REQUEST_AGAIN then ascii_parse_loop rt h req' io' s' else Some (Some (r, req', io', s')))"
  using assms parse_loop_step [of "ascii_step rt h" "(req, io, s)" r "(req', io', s')"]
  by (simp add: ascii_parse_loop_def ascii_step_def)

lemma loop_from_body:
  assumes h: "value_handler_done h" and ok: "item_ok it" and b: "awaits_body req io cas future it its rest"
    and line: "\<And>req io cas s. awaits_line req io cas future its rest \<Longrightarrow>
      loop_result rt h (ascii_parse_loop rt h req io s) cas future its rest s"
  shows "loop_result rt h (ascii_parse_loop rt h req io s) cas future (it # its) rest s"
  using read_value_body [OF b ok h, of rt s]
proof (elim disjE exE conjE)
  fix req' io' s'
  assume p: "ascii_parse rt h req io s = Some (MMC_REQUEST_AGAIN, req', io', s')"
    "awaits_line req' io' (item_cas cas it) future its rest"
    "deliver_all rt h (item_cas cas it) its s' = deliver_all rt h cas (it # its) s"
  from line [OF p(2), of s'] p(3) show ?thesis
    by (fastforce simp: loop_step [OF p(1)] loop_result_def)
next
  fix req' io'
  assume p: "ascii_parse rt h req io s = Some (MMC_REQUEST_MORE, req', io', s)"
    "awaits_body req' io' cas future it its rest" "unread io' = []"
  show ?thesis
    unfolding loop_step [OF p(1)] loop_result_def using p(2,3)
    by (auto simp: waits_def mmc_consts intro!: exI [of _ "it # its"])
qed

lemma loop_from_line:
  assumes "value_handler_done h"
  shows "\<forall>it \<in> set its. item_ok it \<Longrightarrow> awaits_line req io cas future its rest \<Longrightarrow>
    loop_result rt h (ascii_parse_loop rt h req io s) cas future its rest s"
proof (induction its arbitrary: req io cas s)
  case Nil
  from read_end_line [OF Nil(2), of rt h s] show ?case
  proof (elim disjE exE conjE)
    fix req' io'
    assume p: "ascii_parse rt h req io s = Some (MMC_REQUEST_DONE, req', io', s)" "unread io' @ future = rest"
    show ?thesis
      unfolding loop_step [OF p(1)] loop_result_def using p(2) by (auto simp: mmc_consts)
  next
    fix req' io'
    assume p: "ascii_parse rt h req io s = Some (MMC_REQUEST_MORE, req', io', s)"
      "awaits_line req' io' cas future [] rest" "unread io' = []"
    show ?thesis
      unfolding loop_step [OF p(1)] loop_result_def using p(2,3) by (auto simp: waits_def mmc_consts)
  qed
next
  case (Cons it its)
  have ok: "item_ok it" "\<forall>it \<in> set its. item_ok it" using Cons.prems(1) by simp_all
  from read_value_line [OF Cons.prems(2) ok(1), of rt h s] show ?case
  proof (elim disjE exE conjE)
    fix req' io'
    assume p: "ascii_parse rt h req io s = Some (MMC_REQUEST_AGAIN, req', io', s)"
      "awaits_body req' io' cas future it its rest"
    from loop_from_body [OF assms ok(1) p(2) Cons.IH [OF ok(2)]] show ?thesis
      by (simp add: loop_step [OF p(1)])
  next
    fix req' io'
    assume p: "ascii_parse rt h req io s = Some (MMC_REQUEST_MORE, req', io', s)"
      "awaits_line req' io' cas future (it # its) rest" "unread io' = []"
    show ?thesis
      unfolding loop_step [OF p(1)] loop_result_def using p(2,3)
      by (auto simp: waits_def mmc_consts intro!: exI [of _ "it # its"])
  qed
qed

lemma loop_from_wait:
  assumes "value_handler_done h" and "\<forall>it \<in> set its. item_ok it" and "waits req io cas future its rest"
  shows "loop_result rt h (ascii_parse_loop rt h req io s) cas future its rest s"
  using assms(3) unfolding waits_def
proof (elim disjE exE conjE)
  assume "awaits_line req io cas future its rest"
  then show ?thesis using loop_from_line [OF assms(1,2)] by blast
next
  fix it its'
  assume i: "its = it # its'" "awaits_body req io cas future it its' rest"
  then have ok: "item_ok it" "\<forall>it \<in> set its'. item_ok it" using assms(2) by simp_all
  from loop_from_body [OF assms(1) ok(1) i(2) loop_from_line [OF assms(1) ok(2)]] show ?thesis
    using i(1) by simp
qed

lemma waits_receive:
  "waits req io cas (c @ future) its rest \<Longrightarrow> unread io = [] \<Longrightarrow> waits req (receive io c) cas future its rest"
  by (auto simp: waits_def awaits_line_def awaits_body_def)

lemma value_stream_nl: "10 \<in> set (value_stream its)"
  by (cases its) simp_all

lemma ascii_pump_waits:
  assumes "value_handler_done h"
  shows "\<forall>it \<in> set its. item_ok it \<Longrightarrow> waits req io cas (concat cs) its rest \<Longrightarrow> unread io = [] \<Longrightarrow>
    (\<exists>req' io' cs'. pump (ascii_step rt h) ascii_recv (req, io, s) cs =
        Some (Some (MMC_REQUEST_DONE, (req', io', deliver_all rt h cas its s), cs')) \<and>
       unread io' @ concat cs' = rest)"
proof (induction cs arbitrary: req io cas its s)
  case Nil
  then show ?case
    using value_stream_nl [of its] by (auto simp: waits_def awaits_line_def awaits_body_def)
next
  case (Cons c cs)
  have w: "waits req (receive io c) cas (concat cs) its rest"
    using Cons.prems(2,3) by (intro waits_receive) simp_all
  from loop_from_wait [OF assms Cons.prems(1) w, of rt s] show ?case
    unfolding loop_result_def
  proof (elim disjE exE conjE)
    fix req' io'
    assume "ascii_parse_loop rt h req (receive io c) s =
      Some (Some (MMC_REQUEST_DONE, req', io', deliver_all rt h cas its s))" "unread io' @ concat cs = rest"
    then show ?thesis by (simp add: mmc_consts ascii_recv_def flip: ascii_parse_loop_def)
  next
    fix req' io' s' cas' its'
    assume p: "ascii_parse_loop rt h req (receive io c) s = Some (Some (MMC_REQUEST_MORE, req', io', s'))"
      "waits req' io' cas' (concat cs) its' rest" "unread io' = []" "set its' \<subseteq> set its"
      "deliver_all rt h cas' its' s' = deliver_all rt h cas its s"
    have "\<forall>it \<in> set its'. item_ok it" using Cons.prems(1) p(4) by blast
    from Cons.IH [OF this p(2,3), of s'] p(1,5) show ?thesis
      by (simp add: ascii_recv_def flip: ascii_parse_loop_def)
  qed
qed

subsection \<open>Properties\<close>

text \<open>
  C22: A response to get or gets is delivered completely and in order however the network
  fragments it: for any number of values with words of at most 250 bytes as keys and bodies
  of less than 4 GiB, and any cutting of the response (and of what follows it) into chunks,
  the parse loop hands exactly the server's values with their keys, flags and CAS tokens to
  the value handler, ends with \<^verbatim>\<open>MMC_REQUEST_DONE\<close>, and leaves every later byte unread.
\<close>

theorem ascii_get_delivers:
  assumes "value_handler_done h" and "\<forall>it \<in> set its. item_ok it"
    and "concat cs = value_stream its @ rest"
  shows "\<exists>req' io' cs'.
    pump (ascii_step rt h) ascii_recv (mmc_ascii_begin_get (mmc_ascii_create_request key) op, empty_io, s) cs =
      Some (Some (MMC_REQUEST_DONE, (req', io', deliver_all rt h 0 its s), cs')) \<and>
    unread io' @ concat cs' = rest"
proof -
  have "waits (mmc_ascii_begin_get (mmc_ascii_create_request key) op) empty_io 0 (concat cs) its rest"
    using assms(3)
    by (simp add: waits_def awaits_line_def mmc_ascii_begin_get_def mmc_ascii_create_request_def append_send_def)
  from ascii_pump_waits [OF assms(1,2) this] show ?thesis by simp
qed

lemma log_handlers_done: "value_handler_done log_handlers"
  by (simp add: value_handler_done_def log_handlers_def)

theorem ascii_get_delivers_witness:
  "\<exists>req' io' cs'.
    pump (ascii_step plain_runtime log_handlers) ascii_recv
        (mmc_ascii_begin_get (mmc_ascii_create_request (bytes ''k'')) MMC_OP_GET, empty_io, [])
        [bytes ''VALUE k 0'', bytes '' 2'' @ [13, 10, 120], [10, 13, 10], bytes ''END'' @ [13, 10, 7]] =
      Some (Some (MMC_REQUEST_DONE, (req', io', [(bytes ''k'', IS_STRING [120, 10])]), cs')) \<and>
    unread io' @ concat cs' = [7]"
proof -
  let ?it = "\<lparr>vi_key = bytes ''k'', vi_flags = 0, vi_cas = None, vi_payload = [120, 10]\<rparr>"
  let ?cs = "[bytes ''VALUE k 0'', bytes '' 2'' @ [13, 10, 120], [10, 13, 10], bytes ''END'' @ [13, 10, 7]]"
  have ok: "\<forall>it \<in> set [?it]. item_ok it"
    by (simp add: item_ok_def word_bytes_def bytes_def of_char_def is_space_def word_le_nat_alt MMC_MAX_KEY_LEN_def)
  have cs: "concat ?cs = value_stream [?it] @ [7]"
    by (simp add: value_line_def bytes_def of_char_def dec.simps)
  have "deliver_all plain_runtime log_handlers 0 [?it] [] = [(bytes ''k'', IS_STRING [120, 10])]"
    by (simp add: deliver_value_def mmc_unpack_value_def log_handlers_def Let_def flag_eval)
  then show ?thesis
    using ascii_get_delivers [OF log_handlers_done ok cs, of plain_runtime "bytes ''k''" MMC_OP_GET "[]"] by simp
qed

text \<open>The body reader on a value whose header was just parsed.\<close>

definition body_pending :: "mmc_ascii_request \<Rightarrow> bool" where
  "body_pending req \<longleftrightarrow> a_readbuf req = [] \<and> a_room req = unat (ucast (av_length req + 2) :: u32) \<and>
     length (av_key req) \<le> MMC_MAX_KEY_LEN"

lemma unat_plus_2: "unat (n + 2 :: u64) = (unat n + 2) mod 2 ^ 64"
proof -
  have "n + 2 = word_of_nat (unat n + 2)" by simp
  then have "unat (n + 2) = unat (word_of_nat (unat n + 2) :: u64)" by (rule arg_cong)
  then show ?thesis by (simp only: unsigned_of_nat take_bit_eq_mod) simp
qed

lemma read_value_fresh:
  assumes "body_pending req"
  shows "mmc_server_read_value rt h req (fresh_io body) s = None \<longleftrightarrow>
    (let need = unat (av_length req + 2); got = take need body; n = unat (ucast (av_length req) :: u32) in
     length got > a_room req \<or> length got \<ge> need \<and> n > length got)"
proof -
  obtain g where d: "deliver_value rt h (av_key req) (av_flags req) (av_cas req) p s = Some (g p)" for p
    using deliver_value_short_key [of "av_key req" rt h "av_flags req" "av_cas req" _ s] assms
    unfolding body_pending_def by metis
  have t: "take (if length body < n then length body else n) body = take n body" for n by simp
  show ?thesis
    using assms d
    by (auto simp: mmc_server_read_value_def mmc_stream_read_buffered_def fresh_io_def body_pending_def Let_def t
        split: prod.split)
qed

lemma read_value_safe_iff:
  assumes "body_pending req"
  shows "(\<forall>body. mmc_server_read_value rt h req (fresh_io body) s \<noteq> None) \<longleftrightarrow>
    unat (av_length req) + 2 < 2 ^ 32"
proof
  let ?n = "av_length req"
  assume small: "unat ?n + 2 < 2 ^ 32"
  have "unat (?n + 2) = unat ?n + 2" using small by (simp add: unat_plus_2)
  moreover from this have "a_room req = unat ?n + 2" "unat (ucast ?n :: u32) = unat ?n"
    using assms small by (simp_all add: body_pending_def unsigned_ucast_eq take_bit_nat_eq_self_iff)
  ultimately show "\<forall>body. mmc_server_read_value rt h req (fresh_io body) s \<noteq> None"
    by (simp add: read_value_fresh [OF assms] Let_def)
next
  let ?n = "av_length req"
  assume safe: "\<forall>body. mmc_server_read_value rt h req (fresh_io body) s \<noteq> None"
  have room: "a_room req < 2 ^ 32" "a_room req = unat (?n + 2) mod 2 ^ 32"
    using assms unat_u32_less by (simp_all add: body_pending_def unsigned_ucast_eq take_bit_eq_mod)
  show "unat ?n + 2 < 2 ^ 32"
  proof (cases "unat ?n + 2 < 2 ^ 64")
    case True
    then have need: "unat (?n + 2) = unat ?n + 2" by (simp add: unat_plus_2)
    show ?thesis
    proof (rule ccontr)
      assume "\<not> ?thesis"
      then have lt: "a_room req < unat (?n + 2)" using need room(1) by linarith
      have "mmc_server_read_value rt h req (fresh_io (replicate (Suc (a_room req)) 0)) s = None"
        unfolding read_value_fresh [OF assms] Let_def using lt by (simp add: min_def)
      with safe show False by blast
    qed
  next
    case False
    have b: "unat ?n < 2 ^ 64" using unat_u64_less [of ?n] by simp
    have "unat (?n + 2) = (unat ?n + 2) mod 2 ^ 64" by (rule unat_plus_2)
    then have "unat (?n + 2) \<le> 1" using False b by (simp add: mod_if) linarith
    moreover have "unat ?n = 18446744073709551614 \<or> unat ?n = 18446744073709551615"
      using False b by simp linarith
    then have "unat (ucast ?n :: u32) > 1"
      by (elim disjE) (simp_all add: unsigned_ucast_eq take_bit_eq_mod)
    ultimately have "mmc_server_read_value rt h req (fresh_io [0]) s = None"
      unfolding read_value_fresh [OF assms] Let_def by auto
    with safe show ?thesis by blast
  qed
qed

lemma scan_key_length: "scan_key inp = Some (k, rest) \<Longrightarrow> length k \<le> MMC_MAX_KEY_LEN"
  by (auto simp: scan_key_def Let_def split: if_splits)

lemma scan_value_header_key:
  "scan_value_header line = Some (key, flags, len, cas) \<Longrightarrow> length key \<le> MMC_MAX_KEY_LEN"
  by (auto simp: scan_value_header_def Let_def bind_eq_Some_conv split: if_splits dest: scan_key_length)

text \<open>
  After a VALUE header was accepted, no sequence of body bytes makes the reader write
  past the memory it asked for or read bytes that never arrived if and only if the
  announced length plus two is below 4 GiB: \<^verbatim>\<open>mmc_buffer_alloc\<close> takes an \<^verbatim>\<open>unsigned int\<close>,
  so a server that announces 4294967294 bytes gets a buffer of no bytes filled.
\<close>

theorem ascii_value_length_safe_iff:
  assumes "mmc_stream_get_line io = (Some line, io1)" and "\<not> mmc_str_left line (bytes ''END'')"
    and "scan_value_header line = Some (key, flags, len, cas)" and "a_readbuf req = []"
    and "mmc_request_parse_value h req io s = Some (r, req', io', s')"
  shows "(\<forall>body. mmc_server_read_value rt h req' (fresh_io body) s' \<noteq> None) \<longleftrightarrow> unat len + 2 < 2 ^ 32"
proof -
  have "body_pending req'" "av_length req' = len"
    using assms scan_value_header_key [OF assms(3)]
    by (auto simp: mmc_request_parse_value_def body_pending_def)
  then show ?thesis using read_value_safe_iff [of req' rt h s'] by simp
qed

theorem ascii_value_length_safe_iff_witness:
  "\<exists>req' io' body. mmc_request_parse_value (log_handlers :: (unit, unit, _) mmc_handlers) (mmc_ascii_create_request (bytes ''k''))
      (fresh_io (bytes ''VALUE k 0 4294967294'' @ [13, 10])) [] = Some (MMC_REQUEST_AGAIN, req', io', []) \<and>
    mmc_server_read_value plain_runtime log_handlers req' (fresh_io body) [] = None"
proof -
  let ?line = "bytes ''VALUE k 0 4294967294'' @ [13, 10]" and ?req = "mmc_ascii_create_request (bytes ''k'')"
  let ?io = "fresh_io ?line"
  obtain io1 where l: "mmc_stream_get_line ?io = (Some ?line, io1)"
    by (simp add: mmc_stream_get_line_def mmc_stream_readline_buffered_def fresh_io_def Let_def bytes_def
        of_char_def MMC_BUFFER_SIZE_def)
  have e: "\<not> mmc_str_left ?line (bytes ''END'')" by (simp add: mmc_str_left_def bytes_def of_char_def)
  have h: "scan_value_header ?line = Some (bytes ''k'', 0, 4294967294, None)"
    by (simp add: scan_value_header_def c_string_def scan_key_def scan_lu_def scan_int_def is_digit_def
        is_space_def word_le_nat_alt bytes_def of_char_def Let_def MMC_MAX_KEY_LEN_def)
  obtain req' io' where p: "mmc_request_parse_value (log_handlers :: (unit, unit, _) mmc_handlers) ?req ?io [] = Some (MMC_REQUEST_AGAIN, req', io', [])"
    using l e h by (simp add: mmc_request_parse_value_def)
  have r: "a_readbuf ?req = []" by (simp add: mmc_ascii_create_request_def)
  from ascii_value_length_safe_iff [OF l e h r p, of plain_runtime] p show ?thesis
    by (simp del: not_None_eq)
qed

text \<open>
  A response line whose first 4095 bytes hold no newline is never read: once the input
  buffer is full, every further read of the connection, whatever arrives, changes nothing,
  and each of the line parsers asks for more.
\<close>

theorem ascii_long_line_stuck:
  assumes "length (io_input io) = MMC_BUFFER_SIZE - 1" and "10 \<notin> set (io_input io)"
    and "a_parse req \<noteq> READ_VALUE"
  shows "ascii_parse_loop rt h req (receive io extra) s =
    Some (Some (MMC_REQUEST_MORE, req, receive io extra, s))"
proof -
  let ?io = "receive io extra"
  have ne: "io_input io \<noteq> []" using assms(1) by (auto simp: MMC_BUFFER_SIZE_def)
  have nl: "last (io_input io) \<noteq> 10" using last_in_set [OF ne] assms(2) by auto
  have one: "MMC_BUFFER_SIZE - length (io_input ?io) = 1"
    using assms(1) by (simp add: MMC_BUFFER_SIZE_def)
  have "mmc_stream_readline_buffered (io_buffer ?io) 1 = ([], io_buffer ?io)"
    by (simp add: mmc_stream_readline_buffered_def Let_def split: option.splits)
  then have "mmc_stream_get_line ?io = (None, ?io)"
    unfolding mmc_stream_get_line_def one using ne nl by simp
  then have "ascii_parse rt h req ?io s = Some (MMC_REQUEST_MORE, req, ?io, s)"
    using assms(3)
    by (cases "a_parse req")
      (simp_all add: ascii_parse_def mmc_request_parse_response_def mmc_request_parse_mutate_def
        mmc_request_parse_value_def)
  then show ?thesis by (simp add: loop_step mmc_consts)
qed

theorem ascii_long_line_stuck_witness:
  "\<exists>io. length (io_input io) = 4095 \<and>
    ascii_parse_loop plain_runtime log_handlers (mmc_ascii_version (mmc_ascii_create_request [])) (receive io [10]) [] =
      Some (Some (MMC_REQUEST_MORE, mmc_ascii_version (mmc_ascii_create_request []), receive io [10], []))"
proof -
  let ?io = "\<lparr>io_buffer = \<lparr>b_value = [], b_idx = 0\<rparr>, io_input = replicate 4095 65\<rparr> :: mmc_io"
  have "length (io_input ?io) = MMC_BUFFER_SIZE - 1" "10 \<notin> set (io_input ?io)"
    by (simp_all add: MMC_BUFFER_SIZE_def)
  moreover have "a_parse (mmc_ascii_version (mmc_ascii_create_request [])) \<noteq> READ_VALUE"
    by (simp add: mmc_ascii_version_def append_send_def)
  ultimately show ?thesis
    using ascii_long_line_stuck [of ?io "mmc_ascii_version (mmc_ascii_create_request [])" plain_runtime log_handlers "[10]" "[]"]
    by (intro exI [of _ ?io]) simp
qed

subsection \<open>Commands as a server reads them\<close>

fun split_on :: "u8 \<Rightarrow> buf \<Rightarrow> buf list" where
  "split_on c [] = [[]]"
| "split_on c (b # bs) =
     (if b = c then [] # split_on c bs
      else case split_on c bs of [] \<Rightarrow> [[b]] | w # ws \<Rightarrow> (b # w) # ws)"

lemma split_on_word: "c \<notin> set w \<Longrightarrow> split_on c w = [w]"
  by (induction w) auto

lemma split_on_append: "c \<notin> set w \<Longrightarrow> split_on c (w @ c # rest) = w # split_on c rest"
  by (induction w) auto

text \<open>The words of the first line of a request, and what follows the line.\<close>

definition server_command :: "buf \<Rightarrow> (buf list \<times> buf) option" where
  "server_command inp =
     (case memchr 10 inp of
        None \<Rightarrow> None
      | Some n \<Rightarrow>
          if n > 0 \<and> inp ! (n - 1) = 13
          then Some (split_on 32 (take (n - 1) inp), drop (n + 1) inp) else None)"

lemma server_command_line:
  assumes "10 \<notin> set line"
  shows "server_command (line @ crlf @ rest) = Some (split_on 32 line, rest)"
proof -
  have "10 \<notin> set (line @ [13])" using assms by simp
  then have "memchr 10 (line @ crlf @ rest) = Some (length line + 1)"
    using memchr_append [of 10 "line @ [13]" rest] by simp
  then show ?thesis by (simp add: server_command_def)
qed

lemma ascii_store_name_word:
  "ascii_store_name op = Some name \<Longrightarrow> 32 \<notin> set name \<and> 10 \<notin> set name"
  by (auto simp: ascii_store_name_def bytes_def of_char_def split: if_splits)

text \<open>
  C27: A storage command is read by the server as it was meant: for a key that is one word,
  the bytes a successful \<^verbatim>\<open>mmc_ascii_store\<close> appends are one command line whose words are
  the command name, the key, the packed flags, the expiry, the length of the packed value
  and, for cas only, the token, followed by exactly that many value bytes and a line end.
\<close>

theorem ascii_store_command:
  assumes "word_bytes key" and "mmc_ascii_store rt pool req op key flags exptime cas v = (MMC_OK, req')"
  shows "\<exists>name body f' cmd.
    ascii_store_name op = Some name \<and> mmc_pack_value rt pool [] v flags = (MMC_OK, body, f') \<and>
    a_sendbuf req' = a_sendbuf req @ cmd \<and>
    server_command cmd =
      Some ([name, key, dec (unat f'), dec (unat exptime), dec (length body)] @
            (if op = MMC_OP_CAS then [dec (unat cas)] else []), body @ crlf)"
proof -
  obtain st body f' where pack: "mmc_pack_value rt pool [] v flags = (st, body, f')"
    by (cases "mmc_pack_value rt pool [] v flags")
  have st: "st = MMC_OK" using assms(2) pack by (auto simp: mmc_ascii_store_def Let_def split: if_splits)
  obtain name where name: "ascii_store_name op = Some name"
    using assms(2) pack st by (auto simp: mmc_ascii_store_def Let_def mmc_consts split: option.splits)
  note w = ascii_store_name_word [OF name] word_bytes_no [OF assms(1)]
  let ?cas = "if op = MMC_OP_CAS then 32 # dec (unat cas) else []"
  let ?line = "name @ 32 # key @ 32 # dec (unat f') @ 32 # dec (unat exptime) @ 32 # dec (length body) @ ?cas"
  have "a_sendbuf req' = a_sendbuf req @ ?line @ crlf @ body @ crlf"
    using assms(2) pack st name by (auto simp: mmc_ascii_store_def Let_def append_send_def)
  moreover have "10 \<notin> set ?line" using w by simp
  then have "server_command (?line @ crlf @ body @ crlf) = Some (split_on 32 ?line, body @ crlf)"
    by (rule server_command_line)
  moreover have "split_on 32 ?line =
      [name, key, dec (unat f'), dec (unat exptime), dec (length body)] @
        (if op = MMC_OP_CAS then [dec (unat cas)] else [])"
    using w by (simp add: split_on_append split_on_word)
  ultimately show ?thesis using name pack st by auto
qed

theorem ascii_store_command_witness:
  "\<exists>cmd. a_sendbuf (snd (mmc_ascii_store plain_runtime \<lparr>compress_threshold = 0, savings_room = (\<lambda>n. n)\<rparr>
        (mmc_ascii_create_request (bytes ''k'')) MMC_OP_SET (bytes ''k'') 0 60 0 IS_TRUE)) = cmd \<and>
    server_command cmd =
      Some ([bytes ''set'', bytes ''k'', bytes ''256'', bytes ''60'', bytes ''1''], [49] @ crlf)"
proof -
  let ?pool = "\<lparr>compress_threshold = 0, savings_room = (\<lambda>n. n)\<rparr>" and ?req = "mmc_ascii_create_request (bytes ''k'')"
  have w: "word_bytes (bytes ''k'')"
    by (simp add: word_bytes_def bytes_def of_char_def is_space_def word_le_nat_alt)
  have pk: "mmc_pack_value plain_runtime ?pool [] IS_TRUE 0 = (MMC_OK, [49], 256)"
    by (simp add: mmc_pack_value_def reserved_flags_def flag_eval)
  have n: "ascii_store_name MMC_OP_SET = Some (bytes ''set'')" by (simp add: ascii_store_name_def)
  obtain req' where s: "mmc_ascii_store plain_runtime ?pool ?req MMC_OP_SET (bytes ''k'') 0 60 0 IS_TRUE = (MMC_OK, req')"
    by (simp add: mmc_ascii_store_def pk n)
  have "MMC_OP_SET \<noteq> MMC_OP_CAS" by (simp add: mmc_consts)
  then show ?thesis
    unfolding s snd_conv using ascii_store_command [OF w s] pk n
    by (auto simp: mmc_ascii_create_request_def bytes_def of_char_def dec.simps)
qed

end
