(* ===== verification/Mmc_Binary.thy ===== *)
theory Mmc_Binary
  imports Mmc_Request Mmc_Queue
begin

text \<open>
  The binary protocol, \<^verbatim>\<open>src/memcache_binary_protocol.c\<close>: the packed request headers, the
  requests it builds, and the parsers of the responses. Names that the ascii protocol also
  uses have the suffix \<open>_bin\<close>.

  The keys of a request are a queue of pointers to PHP values; \<open>zstr\<close> gives the string a
  pointer's value converts to.
\<close>

subsection \<open>Constants\<close>

definition MMC_REQUEST_MAGIC :: u8 where [mmc_consts]: "MMC_REQUEST_MAGIC = 0x80"
definition MMC_RESPONSE_MAGIC :: u8 where [mmc_consts]: "MMC_RESPONSE_MAGIC = 0x81"
definition MMC_OP_DELETE :: int where [mmc_consts]: "MMC_OP_DELETE = 0x04"
definition MMC_OP_INCR :: int where [mmc_consts]: "MMC_OP_INCR = 0x05"
definition MMC_OP_DECR :: int where [mmc_consts]: "MMC_OP_DECR = 0x06"
definition MMC_OP_FLUSH :: int where [mmc_consts]: "MMC_OP_FLUSH = 0x08"
definition MMC_OP_GETQ :: int where [mmc_consts]: "MMC_OP_GETQ = 0x09"
definition MMC_OP_NOOP :: int where [mmc_consts]: "MMC_OP_NOOP = 0x0a"
definition MMC_OP_VERSION :: int where [mmc_consts]: "MMC_OP_VERSION = 0x0b"
definition MMC_BIN_OP_APPEND :: int where [mmc_consts]: "MMC_BIN_OP_APPEND = 0x0e"
definition MMC_BIN_OP_PREPEND :: int where [mmc_consts]: "MMC_BIN_OP_PREPEND = 0x0f"
definition MMC_OP_SASL_AUTH :: int where [mmc_consts]: "MMC_OP_SASL_AUTH = 0x21"

subsection \<open>Network byte order\<close>

text \<open>
  \<^verbatim>\<open>htons\<close>, \<^verbatim>\<open>htonl\<close> and \<^verbatim>\<open>htonll\<close> followed by the copy of the structure into the buffer put the
  most significant byte first; \<open>unbe\<close> reads it back.
\<close>

fun be :: "nat \<Rightarrow> nat \<Rightarrow> buf" where
  "be 0 v = []"
| "be (Suc k) v = be k (v div 256) @ [word_of_nat (v mod 256)]"

definition unbe :: "buf \<Rightarrow> nat" where
  "unbe bs = foldl (\<lambda>a b. a * 256 + unat b) 0 bs"

lemma length_be [simp]: "length (be k v) = k"
  by (induction k arbitrary: v) auto

lemma unbe_snoc: "unbe (bs @ [b]) = unbe bs * 256 + unat b"
  by (simp add: unbe_def)

lemma unbe_be: "unbe (be k v) = v mod 256 ^ k"
proof (induction k arbitrary: v)
  case (Suc k)
  have "unat (word_of_nat (v mod 256) :: u8) = v mod 256"
    by (simp add: unsigned_of_nat take_bit_eq_mod)
  then have "unbe (be (Suc k) v) = (v div 256) mod 256 ^ k * 256 + v mod 256"
    using Suc by (simp add: unbe_snoc)
  then show ?case by (simp add: mod_mult2_eq mult.commute)
qed (simp add: unbe_def)

lemma unbe_be_u16 [simp]: "unbe (be 2 (unat (w :: u16))) = unat w"
  and unbe_be_u32 [simp]: "unbe (be 4 (unat (x :: u32))) = unat x"
  and unbe_be_u64 [simp]: "unbe (be 8 (unat (y :: u64))) = unat y"
  using unat_u16_less [of w] unat_u32_less [of x] unat_u64_less [of y] by (simp_all add: unbe_be)

subsection \<open>Headers\<close>

record mmc_request_header_t =
  h_magic :: u8
  h_opcode :: u8
  h_key_len :: u16
  h_extras_len :: u8
  h_datatype :: u8
  h_status :: u16
  h_length :: u32
  h_reqid :: u32
  h_cas :: u64

definition mmc_pack_header :: "int \<Rightarrow> u32 \<Rightarrow> u32 \<Rightarrow> u32 \<Rightarrow> u32 \<Rightarrow> mmc_request_header_t" where
  "mmc_pack_header opcode reqid key_len extras_len len =
     \<lparr>h_magic = MMC_REQUEST_MAGIC, h_opcode = word_of_int opcode, h_key_len = ucast key_len,
      h_extras_len = ucast extras_len, h_datatype = 0, h_status = 0,
      h_length = key_len + extras_len + len, h_reqid = reqid, h_cas = 0\<rparr>"

definition header_bytes :: "mmc_request_header_t \<Rightarrow> buf" where
  "header_bytes h =
     [h_magic h, h_opcode h] @ be 2 (unat (h_key_len h)) @ [h_extras_len h, h_datatype h] @
     be 2 (unat (h_status h)) @ be 4 (unat (h_length h)) @ be 4 (unat (h_reqid h)) @ be 8 (unat (h_cas h))"

text \<open>A response header has the same layout; \<^verbatim>\<open>ntohs\<close> and its relatives read the fields.\<close>

definition read_header :: "buf \<Rightarrow> mmc_request_header_t" where
  "read_header bs =
     \<lparr>h_magic = bs ! 0, h_opcode = bs ! 1, h_key_len = word_of_nat (unbe (take 2 (drop 2 bs))),
      h_extras_len = bs ! 4, h_datatype = bs ! 5, h_status = word_of_nat (unbe (take 2 (drop 6 bs))),
      h_length = word_of_nat (unbe (take 4 (drop 8 bs))), h_reqid = word_of_nat (unbe (take 4 (drop 12 bs))),
      h_cas = word_of_nat (unbe (take 8 (drop 16 bs)))\<rparr>"

lemma length_header_bytes [simp]: "length (header_bytes h) = 24"
  by (simp add: header_bytes_def)

lemma be_2_Cons: "be 2 v = [word_of_nat (v div 256 mod 256), word_of_nat (v mod 256)]"
  by (simp add: numeral_2_eq_2)

lemma read_header_bytes [simp]: "read_header (header_bytes h @ rest) = h"
proof -
  have "take 2 (drop 2 (header_bytes h @ rest)) = be 2 (unat (h_key_len h))"
    "take 2 (drop 6 (header_bytes h @ rest)) = be 2 (unat (h_status h))"
    "take 4 (drop 8 (header_bytes h @ rest)) = be 4 (unat (h_length h))"
    "take 4 (drop 12 (header_bytes h @ rest)) = be 4 (unat (h_reqid h))"
    "take 8 (drop 16 (header_bytes h @ rest)) = be 8 (unat (h_cas h))"
    by (simp_all add: header_bytes_def be_2_Cons)
  then show ?thesis
    unfolding read_header_def
    by (simp only: unbe_be_u16 unbe_be_u32 unbe_be_u64) (simp add: header_bytes_def be_2_Cons)
qed

subsection \<open>Requests\<close>

datatype bin_parser =
    PARSE_RESPONSE_BIN | PARSE_NULL_BIN | READ_RESPONSE_BIN | READ_MUTATE_BIN | PARSE_VALUE_BIN | READ_VALUE_BIN

text \<open>
  \<open>b_readbuf\<close> holds the bytes up to \<^verbatim>\<open>readbuf.idx\<close>, \<open>b_room\<close> the number of bytes that
  \<^verbatim>\<open>mmc_buffer_alloc\<close> was last asked to make room for.
\<close>

record mmc_binary_request =
  b_sendbuf :: buf
  b_key :: buf
  b_parse :: bin_parser
  b_next_parse :: bin_parser
  b_keys :: "nat mmc_queue_t"
  b_readbuf :: buf
  b_room :: nat
  bc_opcode :: u8
  bc_error :: u16
  bc_reqid :: u32
  bv_flags :: u32
  bv_length :: u64
  bv_cas :: u64

definition mmc_binary_create_request :: mmc_binary_request where
  "mmc_binary_create_request =
     \<lparr>b_sendbuf = [], b_key = [], b_parse = PARSE_RESPONSE_BIN, b_next_parse = PARSE_NULL_BIN,
      b_keys = mmc_queue_zero, b_readbuf = [], b_room = 0, bc_opcode = 0, bc_error = 0, bc_reqid = 0,
      bv_flags = 0, bv_length = 0, bv_cas = 0\<rparr>"

definition mmc_binary_clone_request :: "mmc_binary_request \<Rightarrow> mmc_binary_request \<Rightarrow> mmc_binary_request" where
  "mmc_binary_clone_request clone req =
     clone\<lparr>b_next_parse := b_next_parse req, b_keys := mmc_queue_copy (b_keys clone) (b_keys req)\<rparr>"

definition mmc_binary_reset_request :: "mmc_binary_request \<Rightarrow> mmc_binary_request" where
  "mmc_binary_reset_request req =
     req\<lparr>b_keys := mmc_queue_reset (b_keys req), bv_cas := 0, b_sendbuf := [], b_readbuf := []\<rparr>"

definition append_send_bin :: "buf \<Rightarrow> mmc_binary_request \<Rightarrow> mmc_binary_request" where
  "append_send_bin bs req = req\<lparr>b_sendbuf := b_sendbuf req @ bs\<rparr>"

definition set_parsers :: "bin_parser \<Rightarrow> mmc_binary_request \<Rightarrow> mmc_binary_request" where
  "set_parsers next_parse req = req\<lparr>b_parse := PARSE_RESPONSE_BIN, b_next_parse := next_parse\<rparr>"

definition push_key :: "nat \<Rightarrow> mmc_binary_request \<Rightarrow> mmc_binary_request" where
  "push_key zkey req = req\<lparr>b_keys := mmc_queue_push (b_keys req) zkey\<rparr>"

definition keys_len :: "mmc_binary_request \<Rightarrow> u32" where
  "keys_len req = word_of_nat (q_len (b_keys req))"

definition key_len :: "buf \<Rightarrow> u32" where
  "key_len key = word_of_nat (length key)"

definition mmc_binary_begin_get :: "mmc_binary_request \<Rightarrow> int \<Rightarrow> mmc_binary_request" where
  "mmc_binary_begin_get req op = set_parsers PARSE_VALUE_BIN req"

definition mmc_binary_append_get :: "mmc_binary_request \<Rightarrow> nat \<Rightarrow> buf \<Rightarrow> mmc_binary_request" where
  "mmc_binary_append_get req zkey key =
     push_key zkey
      (append_send_bin (header_bytes (mmc_pack_header MMC_OP_GETQ (keys_len req) (key_len key) 0 0) @ key) req)"

definition mmc_binary_end_get :: "mmc_binary_request \<Rightarrow> mmc_binary_request" where
  "mmc_binary_end_get req =
     append_send_bin (header_bytes (mmc_pack_header MMC_OP_NOOP (keys_len req) 0 0 0)) req"

definition mmc_binary_get :: "mmc_binary_request \<Rightarrow> int \<Rightarrow> nat \<Rightarrow> buf \<Rightarrow> mmc_binary_request" where
  "mmc_binary_get req op zkey key =
     push_key zkey
      (append_send_bin (header_bytes (mmc_pack_header MMC_OP_GET (keys_len req) (key_len key) 0 0) @ key)
        (set_parsers PARSE_VALUE_BIN req))"

text \<open>
  A storage request is written behind a gap that the header fills in when the value has been
  packed. When packing fails the gap, the key and what was packed stay in the buffer; the
  bytes of the gap are then whatever the memory held (the value \<open>gap\<close>).
\<close>

definition mmc_binary_store ::
  "('d, 'o) php_runtime \<Rightarrow> compress_settings \<Rightarrow> (nat \<Rightarrow> buf) \<Rightarrow> mmc_binary_request \<Rightarrow> int \<Rightarrow> buf \<Rightarrow> u32 \<Rightarrow> u32 \<Rightarrow>
   u64 \<Rightarrow> ('d, 'o) zval \<Rightarrow> int \<times> mmc_binary_request" where
  "mmc_binary_store rt pool gap req op key flags exptime cas value =
     (let req = set_parsers READ_RESPONSE_BIN req;
          prev = b_sendbuf req in
      if op = MMC_OP_APPEND \<or> op = MMC_OP_PREPEND then
        let op = (if op = MMC_OP_APPEND then MMC_BIN_OP_APPEND else MMC_BIN_OP_PREPEND);
            buffer = prev @ gap 24 @ key;
            (status, buffer', flags) = mmc_pack_value rt pool buffer value flags in
        if status \<noteq> MMC_OK then (status, req\<lparr>b_sendbuf := buffer'\<rparr>)
        else
          let header = (mmc_pack_header op 0 (key_len key) 0
                          (word_of_nat (length buffer' - length buffer)))\<lparr>h_cas := cas\<rparr>
          in (MMC_OK, req\<lparr>b_sendbuf := prev @ header_bytes header @ drop (length prev + 24) buffer'\<rparr>)
      else
        let buffer = prev @ gap 32 @ key;
            (status, buffer', flags) = mmc_pack_value rt pool buffer value flags in
        if status \<noteq> MMC_OK then (status, req\<lparr>b_sendbuf := buffer'\<rparr>)
        else
          let op = (if op = MMC_OP_CAS then MMC_OP_SET else op);
              header = (mmc_pack_header op 0 (key_len key) 8
                          (word_of_nat (length buffer' - length buffer)))\<lparr>h_cas := cas\<rparr>
          in (MMC_OK, req\<lparr>b_sendbuf := prev @ header_bytes header @ be 4 (unat flags) @ be 4 (unat exptime) @
                            drop (length prev + 32) buffer'\<rparr>))"

definition mmc_binary_delete :: "mmc_binary_request \<Rightarrow> buf \<Rightarrow> u32 \<Rightarrow> mmc_binary_request" where
  "mmc_binary_delete req key exptime =
     append_send_bin (header_bytes (mmc_pack_header MMC_OP_DELETE 0 (key_len key) 0 0) @ key)
       (set_parsers READ_RESPONSE_BIN req)"

text \<open>Amount and default are C \<^verbatim>\<open>long\<close>s; the 44 bytes are the header and 20 bytes of extras.\<close>

definition mmc_binary_mutate ::
  "mmc_binary_request \<Rightarrow> nat \<Rightarrow> buf \<Rightarrow> 64 word \<Rightarrow> 64 word \<Rightarrow> bool \<Rightarrow> u32 \<Rightarrow> mmc_binary_request" where
  "mmc_binary_mutate req zkey key value defval defval_used exptime =
     (let (op, delta) = (if sint value \<ge> 0 then (MMC_OP_INCR, value) else (MMC_OP_DECR, - value));
          header = mmc_pack_header op (keys_len req) (key_len key) 20 0
      in push_key zkey
          (append_send_bin (header_bytes header @ be 8 (unat delta) @ be 8 (unat defval) @
              be 4 (unat (if defval_used then exptime else NOT 0)) @ key)
            (set_parsers READ_MUTATE_BIN req)))"

definition mmc_binary_flush :: "mmc_binary_request \<Rightarrow> u32 \<Rightarrow> mmc_binary_request" where
  "mmc_binary_flush req exptime =
     append_send_bin (header_bytes (mmc_pack_header MMC_OP_FLUSH 0 0 0 0)) (set_parsers READ_RESPONSE_BIN req)"

definition mmc_binary_version :: "mmc_binary_request \<Rightarrow> mmc_binary_request" where
  "mmc_binary_version req =
     append_send_bin (header_bytes (mmc_pack_header MMC_OP_VERSION 0 0 0 0)) (set_parsers READ_RESPONSE_BIN req)"

definition mmc_binary_stats :: "mmc_binary_request \<Rightarrow> mmc_binary_request" where
  "mmc_binary_stats req =
     append_send_bin (header_bytes (mmc_pack_header MMC_OP_NOOP 0 0 0 0)) (set_parsers READ_RESPONSE_BIN req)"

text \<open>User and password are C strings.\<close>

definition mmc_set_sasl_auth_data :: "mmc_binary_request \<Rightarrow> buf \<Rightarrow> buf \<Rightarrow> mmc_binary_request" where
  "mmc_set_sasl_auth_data req user password =
     (let user = c_string user; password = c_string password;
          header = (mmc_pack_header MMC_OP_SASL_AUTH 0 5 0 0)
            \<lparr>h_length := word_of_nat (length user + length password + 5 + 2)\<rparr>
      in append_send_bin (header_bytes header @ bytes ''PLAIN'' @ [0] @ user @ [0] @ password)
          ((set_parsers READ_RESPONSE_BIN req)\<lparr>b_key := bytes ''PLAIN'' @ [0] @ drop 6 (b_key req)\<rparr>))"

subsection \<open>Responses\<close>

definition binary_status :: "u16 \<Rightarrow> int" where
  "binary_status status =
     (if status = 0x00 then MMC_OK
      else if status = 0x01 then MMC_RESPONSE_NOT_FOUND
      else if status = 0x02 then MMC_RESPONSE_EXISTS
      else if status = 0x03 then MMC_RESPONSE_TOO_LARGE
      else if status = 0x04 \<or> status = 0x06 then MMC_RESPONSE_CLIENT_ERROR
      else if status = 0x05 then MMC_RESPONSE_NOT_STORED
      else if status = 0x81 then MMC_RESPONSE_UNKNOWN_CMD
      else if status = 0x82 then MMC_RESPONSE_OUT_OF_MEMORY
      else MMC_RESPONSE_UNKNOWN)"

type_synonym 's bin_step = "(int \<times> mmc_binary_request \<times> mmc_io \<times> 's) option"

text \<open>The room an allocation of \<^verbatim>\<open>length + 1\<close> bytes makes: the size is an \<^verbatim>\<open>unsigned int\<close>.\<close>

definition body_room :: "u64 \<Rightarrow> nat" where
  "body_room len = unat (ucast (len + 1) :: u32)"

definition mmc_request_parse_response_bin ::
  "('d, 'o, 's) mmc_handlers \<Rightarrow> mmc_binary_request \<Rightarrow> mmc_io \<Rightarrow> 's \<Rightarrow> 's bin_step" where
  "mmc_request_parse_response_bin h req io s =
     (case mmc_stream_get io 24 of
        (None, io) \<Rightarrow> Some (MMC_REQUEST_MORE, req, io, s)
      | (Some bs, io) \<Rightarrow>
          let header = read_header bs in
          if h_magic header \<noteq> MMC_RESPONSE_MAGIC then
            let (r, s) = server_failure h ''Malformed server response (invalid magic byte)'' s
            in Some (r, req, io, s)
          else if h_opcode header = word_of_int MMC_OP_NOOP then Some (MMC_REQUEST_DONE, req, io, s)
          else
            let req = req\<lparr>bc_opcode := h_opcode header,
                          bc_error := word_of_int (binary_status (h_status header)),
                          bc_reqid := h_reqid header,
                          bv_length := ucast (h_length header), bv_cas := h_cas header\<rparr> in
            if bv_length req = 0 then
              let (r, s) = response_handler h (int (unat (bc_error req))) [] 0 s in Some (r, req, io, s)
            else if bc_error req \<noteq> 0 then
              Some (MMC_REQUEST_AGAIN,
                    req\<lparr>b_parse := READ_RESPONSE_BIN, b_room := body_room (bv_length req)\<rparr>, io, s)
            else
              let len = (if bv_length req \<ge> ucast (h_extras_len header)
                         then bv_length req - ucast (h_extras_len header) else bv_length req)
              in Some (MMC_REQUEST_AGAIN,
                       req\<lparr>b_parse := b_next_parse req, bv_length := len, b_room := body_room len\<rparr>, io, s))"

text \<open>Both body readers fill the read buffer first; \<open>None\<close> is a write past its room.\<close>

definition read_body :: "mmc_binary_request \<Rightarrow> mmc_io \<Rightarrow> (mmc_binary_request \<times> mmc_io) option" where
  "read_body req io =
     (let count = unat (bv_length req - word_of_nat (length (b_readbuf req)));
          (got, b) = mmc_stream_read_buffered (io_buffer io) count;
          readbuf = b_readbuf req @ got
      in if length readbuf > b_room req then None
         else Some (req\<lparr>b_readbuf := readbuf\<rparr>, io\<lparr>io_buffer := b\<rparr>))"

definition mmc_request_read_response_bin ::
  "('d, 'o, 's) mmc_handlers \<Rightarrow> mmc_binary_request \<Rightarrow> mmc_io \<Rightarrow> 's \<Rightarrow> 's bin_step" where
  "mmc_request_read_response_bin h req io s =
     do {
       (req, io) \<leftarrow> read_body req io;
       if length (b_readbuf req) \<ge> unat (bv_length req) then
         (if unat (bv_length req) \<ge> b_room req then None
          else let (r, s) = response_handler h (int (unat (bc_error req)))
                              (take (unat (bv_length req)) (b_readbuf req)) (ucast (bv_length req)) s
               in Some (r, req, io, s))
       else Some (MMC_REQUEST_MORE, req, io, s)
     }"

text \<open>
  \<^verbatim>\<open>mmc_queue_item(&(req->keys), req->command.reqid)\<close> with the number the server sent: \<open>None\<close>
  when it is outside the array or a cell without a pointer is read.
\<close>

definition remembered_key :: "(nat \<Rightarrow> buf) \<Rightarrow> mmc_binary_request \<Rightarrow> buf option" where
  "remembered_key zstr req =
     (let q = b_keys req; i = unat (bc_reqid req);
          j = (if q_tail q + i < q_alloc q then q_tail q + i else i - (q_alloc q - q_tail q))
      in if j < length (q_items q) then map_option zstr (q_items q ! j) else None)"

definition mmc_request_read_mutate_bin ::
  "(nat \<Rightarrow> buf) \<Rightarrow> ('d, 'o, 's) mmc_handlers \<Rightarrow> mmc_binary_request \<Rightarrow> mmc_io \<Rightarrow> 's \<Rightarrow> 's bin_step" where
  "mmc_request_read_mutate_bin zstr h req io s =
     (case mmc_stream_get io 8 of
        (None, io) \<Rightarrow> Some (MMC_REQUEST_MORE, req, io, s)
      | (Some bs, io) \<Rightarrow>
          do {
            key \<leftarrow> remembered_key zstr req;
            let (r, s) = value_handler h key (IS_LONG (word_of_nat (unbe bs))) (bv_flags req) (bv_cas req) s;
            Some (r, req, io, s)
          })"

definition mmc_request_parse_value_bin ::
  "mmc_binary_request \<Rightarrow> mmc_io \<Rightarrow> 's \<Rightarrow> 's bin_step" where
  "mmc_request_parse_value_bin req io s =
     (case mmc_stream_get io 4 of
        (None, io) \<Rightarrow> Some (MMC_REQUEST_MORE, req, io, s)
      | (Some bs, io) \<Rightarrow>
          Some (MMC_REQUEST_AGAIN, req\<lparr>bv_flags := word_of_nat (unbe bs), b_parse := READ_VALUE_BIN\<rparr>, io, s))"

definition mmc_request_read_value_bin ::
  "('d, 'o) php_runtime \<Rightarrow> (nat \<Rightarrow> buf) \<Rightarrow> ('d, 'o, 's) mmc_handlers \<Rightarrow> mmc_binary_request \<Rightarrow> mmc_io \<Rightarrow> 's \<Rightarrow>
   's bin_step" where
  "mmc_request_read_value_bin rt zstr h req io s =
     do {
       (req, io) \<leftarrow> read_body req io;
       if length (b_readbuf req) \<ge> unat (bv_length req) then
         do {
           key \<leftarrow> remembered_key zstr req;
           let get = (bc_opcode req = word_of_int MMC_OP_GET);
           let payload = take (unat (ucast (bv_length req) :: u32)) (b_readbuf req);
           let req = req\<lparr>b_parse := (if get then PARSE_NULL_BIN else PARSE_RESPONSE_BIN), b_readbuf := []\<rparr>;
           (result, s) \<leftarrow> deliver_value rt h key (bv_flags req) (bv_cas req) payload s;
           Some (if result = MMC_REQUEST_DONE \<and> (get \<or> q_len (b_keys req) \<le> unat (bc_reqid req))
                 then MMC_REQUEST_DONE else MMC_REQUEST_AGAIN, req, io, s)
         }
       else Some (MMC_REQUEST_MORE, req, io, s)
     }"

definition bin_parse ::
  "('d, 'o) php_runtime \<Rightarrow> (nat \<Rightarrow> buf) \<Rightarrow> ('d, 'o, 's) mmc_handlers \<Rightarrow> mmc_binary_request \<Rightarrow> mmc_io \<Rightarrow> 's \<Rightarrow>
   's bin_step" where
  "bin_parse rt zstr h req io s =
     (case b_parse req of
        PARSE_RESPONSE_BIN \<Rightarrow> mmc_request_parse_response_bin h req io s
      | PARSE_NULL_BIN \<Rightarrow> Some (MMC_REQUEST_DONE, req, io, s)
      | READ_RESPONSE_BIN \<Rightarrow> mmc_request_read_response_bin h req io s
      | READ_MUTATE_BIN \<Rightarrow> mmc_request_read_mutate_bin zstr h req io s
      | PARSE_VALUE_BIN \<Rightarrow> mmc_request_parse_value_bin req io s
      | READ_VALUE_BIN \<Rightarrow> mmc_request_read_value_bin rt zstr h req io s)"

type_synonym 's bin_state = "mmc_binary_request \<times> mmc_io \<times> 's"

definition bin_step ::
  "('d, 'o) php_runtime \<Rightarrow> (nat \<Rightarrow> buf) \<Rightarrow> ('d, 'o, 's) mmc_handlers \<Rightarrow> 's bin_state \<Rightarrow> (int \<times> 's bin_state) option" where
  "bin_step rt zstr h = (\<lambda>(req, io, s). bin_parse rt zstr h req io s)"

definition bin_recv :: "buf \<Rightarrow> 's bin_state \<Rightarrow> 's bin_state" where
  "bin_recv c = (\<lambda>(req, io, s). (req, receive io c, s))"

subsection \<open>Independence of the fragmentation\<close>

definition reads_body :: "bin_parser \<Rightarrow> bool" where
  "reads_body p \<longleftrightarrow> p = READ_RESPONSE_BIN \<or> p = READ_VALUE_BIN"

definition bin_ok :: "'s bin_state \<Rightarrow> bool" where
  "bin_ok = (\<lambda>(req, io, s). read_io io \<and>
     (if reads_body (b_parse req) then length (b_readbuf req) \<le> unat (bv_length req) else b_readbuf req = []))"

lemma read_body_fill:
  assumes "length (b_readbuf req) \<le> unat (bv_length req)"
  shows "read_body req io =
    (let (readbuf, io) = fill io (b_readbuf req) (unat (bv_length req)) in
     if length readbuf > b_room req then None else Some (req\<lparr>b_readbuf := readbuf\<rparr>, io))"
proof -
  obtain got b where gb: "mmc_stream_read_buffered (io_buffer io) (unat (bv_length req) - length (b_readbuf req)) = (got, b)"
    by fastforce
  show ?thesis
    unfolding read_body_def Let_def unat_minus_of_nat [OF assms] gb read_buffered_fill [OF gb] prod.case ..
qed

text \<open>The two body readers are the filling of the buffer followed by what happens with a full one.\<close>

definition full_body ::
  "('d, 'o) php_runtime \<Rightarrow> (nat \<Rightarrow> buf) \<Rightarrow> ('d, 'o, 's) mmc_handlers \<Rightarrow> mmc_binary_request \<Rightarrow> 's \<Rightarrow>
   (int \<times> mmc_binary_request \<times> 's) option" where
  "full_body rt zstr h req s =
     (if b_parse req = READ_RESPONSE_BIN then
        if unat (bv_length req) \<ge> b_room req then None
        else let (r, s) = response_handler h (int (unat (bc_error req)))
                            (take (unat (bv_length req)) (b_readbuf req)) (ucast (bv_length req)) s
             in Some (r, req, s)
      else do {
        key \<leftarrow> remembered_key zstr req;
        let get = (bc_opcode req = word_of_int MMC_OP_GET);
        let payload = take (unat (ucast (bv_length req) :: u32)) (b_readbuf req);
        let req = req\<lparr>b_parse := (if get then PARSE_NULL_BIN else PARSE_RESPONSE_BIN), b_readbuf := []\<rparr>;
        (result, s) \<leftarrow> deliver_value rt h key (bv_flags req) (bv_cas req) payload s;
        Some (if result = MMC_REQUEST_DONE \<and> (get \<or> q_len (b_keys req) \<le> unat (bc_reqid req))
              then MMC_REQUEST_DONE else MMC_REQUEST_AGAIN, req, s)
      })"

lemma body_step:
  assumes "reads_body (b_parse req)"
  shows "bin_step rt zstr h (req, io, s) =
    do {
      (req, io) \<leftarrow> read_body req io;
      if length (b_readbuf req) \<ge> unat (bv_length req)
      then map_option (\<lambda>(r, req, s). (r, req, io, s)) (full_body rt zstr h req s)
      else Some (MMC_REQUEST_MORE, req, io, s)
    }"
proof -
  have parse: "b_parse req' = b_parse req" if "read_body req io = Some (req', io')" for req' io'
    using that by (auto simp: read_body_def Let_def split: prod.splits if_splits)
  show ?thesis
  proof (cases "read_body req io")
    case None
    then show ?thesis
      using assms by (auto simp: reads_body_def bin_step_def bin_parse_def mmc_request_read_response_bin_def
          mmc_request_read_value_bin_def)
  next
    case (Some ri)
    then obtain req' io' where r: "read_body req io = Some (req', io')" by (cases ri) auto
    show ?thesis
      using assms parse [OF r] r
      by (auto simp: reads_body_def bin_step_def bin_parse_def mmc_request_read_response_bin_def
          mmc_request_read_value_bin_def full_body_def Let_def map_option_bind comp_def
          split: prod.split intro!: Option.bind_cong)
  qed
qed

lemma fill_read_io: "read_io io \<Longrightarrow> read_io (snd (fill io rb need))"
  using fill_io by blast

lemma full_body_result:
  assumes nm: "handlers_no_more h" and f: "full_body rt zstr h req s = Some (r, req', s')"
    and rb: "reads_body (b_parse req)" "length (b_readbuf req) \<le> unat (bv_length req)"
  shows "r \<noteq> MMC_REQUEST_MORE \<and>
    (if reads_body (b_parse req') then length (b_readbuf req') \<le> unat (bv_length req') else b_readbuf req' = [])"
proof (cases "b_parse req = READ_RESPONSE_BIN")
  case True
  have "fst (response_handler h e m n s) \<noteq> MMC_REQUEST_MORE" for e m n s
    using nm by (simp add: handlers_no_more_def)
  then show ?thesis
    using f True rb by (auto simp: full_body_def reads_body_def Let_def split: if_splits prod.splits
        dest: arg_cong [of _ _ fst])
next
  case False
  then show ?thesis
    using f by (auto simp: full_body_def reads_body_def Let_def mmc_consts bind_eq_Some_conv split: if_splits)
qed

lemma body_incremental:
  assumes nm: "handlers_no_more h" and ok: "bin_ok (req, io, s)" and rv: "reads_body (b_parse req)"
  shows "step_incremental (bin_step rt zstr h) bin_recv bin_ok (req, io, s)"
proof -
  let ?need = "unat (bv_length req)"
  obtain rb io' where f: "fill io (b_readbuf req) ?need = (rb, io')" by fastforce
  have rd: "read_io io" and len: "length (b_readbuf req) \<le> ?need" using ok rv by (simp_all add: bin_ok_def)
  have io': "read_io io'" and rb: "length rb \<le> ?need"
    using fill_read_io [OF rd, of "b_readbuf req" ?need] fill_length [OF len, of io] f by simp_all
  have recv: "bin_recv d (req, io, s) = (req, receive io d, s)" for d :: buf and req io s
    by (simp add: bin_recv_def)
  let ?req = "req\<lparr>b_readbuf := rb\<rparr>"
  have len': "length (b_readbuf ?req) \<le> unat (bv_length ?req)" using rb by simp
  have rv': "reads_body (b_parse ?req)" using rv by simp
  consider (over) "length rb > b_room req" | (full) "length rb \<le> b_room req" "?need \<le> length rb"
    | (part) "length rb \<le> b_room req" "length rb < ?need" by linarith
  then show ?thesis
  proof cases
    case over
    have "length rb \<le> length (fst (fill (receive io d) (b_readbuf req) ?need))" for d
      using fill_mono [OF rd, of "b_readbuf req" ?need d] f by simp
    then have "length (fst (fill (receive io d) (b_readbuf req) ?need)) > b_room req" for d
      using over less_le_trans by blast
    then have "read_body req (receive io d) = None" for d
      unfolding read_body_fill [OF len] by (simp add: case_prod_unfold)
    moreover have "read_body req io = None" unfolding read_body_fill [OF len] using over by (simp add: f)
    ultimately show ?thesis by (simp add: step_incremental_def recv body_step [OF rv])
  next
    case full
    have b: "read_body req io = Some (?req, io')" "read_body req (receive io d) = Some (?req, receive io' d)" for d
      unfolding read_body_fill [OF len] using fill_complete [OF rd len, of d] full f by simp_all
    show ?thesis
    proof (cases "full_body rt zstr h ?req s")
      case None
      then show ?thesis using full by (simp add: step_incremental_def recv body_step [OF rv] b)
    next
      case (Some x)
      then obtain r req' s' where x: "full_body rt zstr h ?req s = Some (r, req', s')" by (cases x) auto
      show ?thesis
        using full x full_body_result [OF nm x rv' len'] io'
        by (simp add: step_incremental_def recv body_step [OF rv] b bin_ok_def)
    qed
  next
    case part
    have "fill (receive io d) (b_readbuf req) ?need = fill (receive io' d) rb ?need" for d
      using fill_partial [OF rd, of "b_readbuf req" ?need d] part f by simp
    then have "read_body req (receive io d) = read_body ?req (receive io' d)" for d
      unfolding read_body_fill [OF len] read_body_fill [OF len']
      by (cases "fill (receive io' d) rb ?need") simp
    moreover have "read_body req io = Some (?req, io')"
      unfolding read_body_fill [OF len] using part by (simp add: f)
    ultimately show ?thesis
      using part io' rb rv by (simp add: step_incremental_def recv body_step [OF rv] body_step [OF rv'] bin_ok_def)
  qed
qed

text \<open>The parsers that read a block of fixed size first.\<close>

definition block_size :: "bin_parser \<Rightarrow> nat" where
  "block_size p = (case p of PARSE_RESPONSE_BIN \<Rightarrow> 24 | READ_MUTATE_BIN \<Rightarrow> 8 | _ \<Rightarrow> 4)"

lemma block_incremental:
  assumes nm: "handlers_no_more h" and ok: "bin_ok (req, io, s)"
    and rv: "\<not> reads_body (b_parse req)" "b_parse req \<noteq> PARSE_NULL_BIN"
  shows "step_incremental (bin_step rt zstr h) bin_recv bin_ok (req, io, s)"
proof -
  let ?n = "block_size (b_parse req)"
  have rd: "read_io io" and rb: "b_readbuf req = []" using ok rv by (simp_all add: bin_ok_def)
  have nm': "response_handler h r m n s \<noteq> (MMC_REQUEST_MORE, x)" "value_handler h k v f c s \<noteq> (MMC_REQUEST_MORE, x)"
    "server_failure h e s \<noteq> (MMC_REQUEST_MORE, x)" for r m n s k v f c e x
    using nm by (auto simp: handlers_no_more_def dest: arg_cong [of _ _ fst])
  have neq: "MMC_REQUEST_DONE \<noteq> MMC_REQUEST_MORE" "MMC_REQUEST_AGAIN \<noteq> MMC_REQUEST_MORE"
    by (simp_all add: mmc_consts)
  obtain l io' where g: "mmc_stream_get io ?n = (l, io')" by fastforce
  note st = stream_get_stable [OF rd, of ?n, unfolded g prod.case]
  show ?thesis
  proof (cases l)
    case None
    then have io': "read_io io'"
      and d: "mmc_stream_get (receive io d) ?n = mmc_stream_get (receive io' d) ?n" for d
      using st by simp_all
    have "bin_step rt zstr h (req, io, s) = Some (MMC_REQUEST_MORE, req, io', s)"
      using rv g None by (cases "b_parse req") (simp_all add: bin_step_def bin_parse_def block_size_def reads_body_def
          mmc_request_parse_response_bin_def mmc_request_read_mutate_bin_def mmc_request_parse_value_bin_def)
    moreover have "bin_step rt zstr h (bin_recv d (req, io, s)) = bin_step rt zstr h (bin_recv d (req, io', s))" for d
      using rv d [of d] by (cases "b_parse req") (simp_all add: bin_step_def bin_parse_def bin_recv_def block_size_def
          reads_body_def mmc_request_parse_response_bin_def mmc_request_read_mutate_bin_def mmc_request_parse_value_bin_def)
    ultimately show ?thesis using rv rb io' by (simp add: step_incremental_def bin_ok_def)
  next
    case (Some bs)
    then have io': "read_io io'" and d: "mmc_stream_get (receive io d) ?n = (Some bs, receive io' d)" for d
      using st by simp_all
    show ?thesis
    proof (cases "b_parse req")
      case PARSE_RESPONSE_BIN
      then show ?thesis
        using g d Some rb io' nm'(1,3) neq
        by (auto simp: step_incremental_def bin_step_def bin_parse_def bin_recv_def block_size_def bin_ok_def
            mmc_request_parse_response_bin_def reads_body_def Let_def split: prod.split if_splits)
    next
      case READ_MUTATE_BIN
      then show ?thesis
        using g d Some rb io' nm'(2)
        by (cases "remembered_key zstr req")
          (auto simp: step_incremental_def bin_step_def bin_parse_def bin_recv_def block_size_def bin_ok_def
            mmc_request_read_mutate_bin_def reads_body_def Let_def split: prod.split)
    next
      case PARSE_VALUE_BIN
      then show ?thesis
        using g d Some rb io' neq
        by (auto simp: step_incremental_def bin_step_def bin_parse_def bin_recv_def block_size_def bin_ok_def
            mmc_request_parse_value_bin_def reads_body_def)
    qed (use rv in \<open>simp_all add: reads_body_def\<close>)
  qed
qed

lemma bin_incremental:
  assumes "handlers_no_more h"
  shows "incremental_parser (bin_step rt zstr h) bin_recv bin_ok"
proof (rule incremental_parserI)
  fix x :: "'c bin_state" assume ok: "bin_ok x"
  show "step_incremental (bin_step rt zstr h) bin_recv bin_ok x"
  proof (cases x)
    case (fields req io s)
    have "step_incremental (bin_step rt zstr h) bin_recv bin_ok (req, io, s)" if "b_parse req = PARSE_NULL_BIN"
      using that ok fields
      by (simp add: step_incremental_def bin_step_def bin_parse_def bin_recv_def bin_ok_def reads_body_def mmc_consts)
    then show ?thesis
      using ok fields body_incremental [OF assms, of req io s rt] block_incremental [OF assms, of req io s rt]
      by blast
  qed
qed (auto simp: bin_recv_def receive_receive receive_Nil bin_ok_def read_io_receive)

subsection \<open>Requests as a server reads them\<close>

text \<open>The requests a server reads from a stream of bytes: header, key of \<^verbatim>\<open>key_len\<close> bytes, other body.\<close>

definition server_request :: "buf \<Rightarrow> (mmc_request_header_t \<times> buf \<times> buf \<times> buf \<times> buf) option" where
  "server_request inp =
     (let h = read_header inp; n = unat (h_length h); e = unat (h_extras_len h); k = unat (h_key_len h);
          body = drop 24 inp in
      if length inp < 24 \<or> length body < n \<or> n < e + k then None
      else Some (h, take e body, take k (drop e body), take (n - e - k) (drop (e + k) body), drop n body))"

fun server_requests :: "nat \<Rightarrow> buf \<Rightarrow> (mmc_request_header_t \<times> buf \<times> buf \<times> buf) list option" where
  "server_requests 0 inp = (if inp = [] then Some [] else None)"
| "server_requests (Suc n) inp =
     do {
       (h, e, k, v, rest) \<leftarrow> server_request inp;
       rs \<leftarrow> server_requests n rest;
       Some ((h, e, k, v) # rs)
     }"

lemma server_request_header:
  assumes "unat (h_length h) = length e + length k + length v" and "unat (h_extras_len h) = length e"
    and "unat (h_key_len h) = length k"
  shows "server_request (header_bytes h @ e @ k @ v @ rest) = Some (h, e, k, v, rest)"
  using assms by (simp add: server_request_def Let_def)

lemma pack_header_simps [simp]:
  "h_length (mmc_pack_header op r k e n) = k + e + n" "h_extras_len (mmc_pack_header op r k e n) = ucast e"
  "h_key_len (mmc_pack_header op r k e n) = ucast k" "h_cas (mmc_pack_header op r k e n) = 0"
  "h_reqid (mmc_pack_header op r k e n) = r" "h_opcode (mmc_pack_header op r k e n) = word_of_int op"
  "h_magic (mmc_pack_header op r k e n) = MMC_REQUEST_MAGIC" "h_status (mmc_pack_header op r k e n) = 0"
  by (simp_all add: mmc_pack_header_def)

lemma unat_small:
  "n < 2 ^ 32 \<Longrightarrow> unat (word_of_nat n :: u32) = n"
  "n < 2 ^ 16 \<Longrightarrow> unat (ucast (word_of_nat n :: u32) :: u16) = n"
  by (simp_all add: unsigned_of_nat unsigned_ucast_eq take_bit_nat_eq_self_iff)

lemma server_reads_key:
  assumes "length key \<le> MMC_MAX_KEY_LEN"
  shows "server_request (header_bytes (mmc_pack_header op r (key_len key) 0 0) @ key @ rest) =
    Some (mmc_pack_header op r (key_len key) 0 0, [], key, [], rest)"
proof -
  have "length key < 2 ^ 16" "length key < 2 ^ 32" using assms by (simp_all add: MMC_MAX_KEY_LEN_def)
  then have "unat (key_len key) = length key" "unat (ucast (key_len key) :: u16) = length key"
    unfolding key_len_def by (simp_all only: unat_small)
  then show ?thesis
    using server_request_header [of "mmc_pack_header op r (key_len key) 0 0" "[]" key "[]" rest] by simp
qed

lemma server_reads_empty:
  "server_request (header_bytes (mmc_pack_header op r 0 0 0) @ rest) = Some (mmc_pack_header op r 0 0 0, [], [], [], rest)"
  using server_request_header [of "mmc_pack_header op r 0 0 0" "[]" "[]" "[]" rest] by simp

text \<open>The request of \<^verbatim>\<open>begin_get\<close>, one \<^verbatim>\<open>append_get\<close> per key, and \<^verbatim>\<open>end_get\<close>.\<close>

definition bin_multi_get :: "mmc_binary_request \<Rightarrow> (nat \<times> buf) list \<Rightarrow> mmc_binary_request" where
  "bin_multi_get req zkeys =
     mmc_binary_end_get (fold (\<lambda>(z, key) req. mmc_binary_append_get req z key) zkeys (mmc_binary_begin_get req MMC_OP_GET))"

definition multi_get_headers :: "nat \<Rightarrow> (nat \<times> buf) list \<Rightarrow> (mmc_request_header_t \<times> buf \<times> buf \<times> buf) list" where
  "multi_get_headers i zkeys =
     map (\<lambda>(j, z, key). (mmc_pack_header MMC_OP_GETQ (word_of_nat j) (key_len key) 0 0, [], key, []))
       (zip [i..<i + length zkeys] zkeys)"

lemma multi_get_headers_Cons:
  "multi_get_headers i ((z, key) # zkeys) =
     (mmc_pack_header MMC_OP_GETQ (word_of_nat i) (key_len key) 0 0, [], key, []) # multi_get_headers (Suc i) zkeys"
  by (simp add: multi_get_headers_def upt_conv_Cons del: upt_Suc)

lemma append_get_fields:
  "b_sendbuf (mmc_binary_append_get req z key) =
     b_sendbuf req @ header_bytes (mmc_pack_header MMC_OP_GETQ (keys_len req) (key_len key) 0 0) @ key"
  "b_keys (mmc_binary_append_get req z key) = mmc_queue_push (b_keys req) z"
  by (simp_all add: mmc_binary_append_get_def push_key_def append_send_bin_def)

lemma append_gets:
  assumes "queue_inv (b_keys req)" and "distinct (queue_list (b_keys req) @ map fst zkeys)"
    and "\<forall>(z, key) \<in> set zkeys. length key \<le> MMC_MAX_KEY_LEN"
  shows "\<exists>cmd req'. fold (\<lambda>(z, key) req. mmc_binary_append_get req z key) zkeys req = req' \<and>
    b_sendbuf req' = b_sendbuf req @ cmd \<and> queue_inv (b_keys req') \<and>
    queue_list (b_keys req') = queue_list (b_keys req) @ map fst zkeys \<and>
    (\<forall>n rest rs. server_requests n rest = Some rs \<longrightarrow>
       server_requests (length zkeys + n) (cmd @ rest) =
         Some (multi_get_headers (length (queue_list (b_keys req))) zkeys @ rs))"
  using assms
proof (induction zkeys arbitrary: req)
  case Nil
  then show ?case by (auto simp: multi_get_headers_def)
next
  case (Cons zk zkeys)
  obtain z key where zk: "zk = (z, key)" by (cases zk)
  let ?r1 = "mmc_binary_append_get req z key"
  let ?hd = "mmc_pack_header MMC_OP_GETQ (keys_len req) (key_len key) 0 0"
  have fresh: "z \<notin> set (queue_list (b_keys req))" using Cons.prems(2) zk by auto
  have q1: "queue_inv (b_keys ?r1)" "queue_list (b_keys ?r1) = queue_list (b_keys req) @ [z]"
    using rq.push_ok [OF Cons.prems(1), of z] fresh by (simp_all add: append_get_fields)
  have "distinct (queue_list (b_keys ?r1) @ map fst zkeys)" "\<forall>(z, key) \<in> set zkeys. length key \<le> MMC_MAX_KEY_LEN"
    using Cons.prems(2,3) q1(2) zk by auto
  from Cons.IH [OF q1(1) this] obtain cmd req' where r:
    "fold (\<lambda>(z, key) req. mmc_binary_append_get req z key) zkeys ?r1 = req'"
    "b_sendbuf req' = b_sendbuf ?r1 @ cmd" "queue_inv (b_keys req')"
    "queue_list (b_keys req') = queue_list (b_keys ?r1) @ map fst zkeys"
    "\<forall>n rest rs. server_requests n rest = Some rs \<longrightarrow>
       server_requests (length zkeys + n) (cmd @ rest) =
         Some (multi_get_headers (length (queue_list (b_keys ?r1))) zkeys @ rs)"
    by blast
  have len: "length key \<le> MMC_MAX_KEY_LEN" using Cons.prems(3) zk by simp
  have hs: "multi_get_headers (length (queue_list (b_keys req))) ((z, key) # zkeys) =
      (?hd, [], key, []) # multi_get_headers (Suc (length (queue_list (b_keys req)))) zkeys"
    by (simp only: multi_get_headers_Cons keys_len_def length_queue_list)
  show ?case
    using r server_reads_key [OF len, of MMC_OP_GETQ "keys_len req"] q1(2)
    by (intro exI [of _ "header_bytes ?hd @ key @ cmd"] exI [of _ req'])
      (simp add: zk hs append_get_fields del: length_queue_list)
qed



text \<open>What packing appends.\<close>

text \<open>
  C31: A storage request of the binary protocol says what was meant: for a key that fits, a
  successful \<^verbatim>\<open>mmc_binary_store\<close> appends one request with the operation's opcode (set for a
  compare-and-swap, which the CAS token makes conditional), the token, the key, the packed
  value and, unless it appends or prepends, the packed flags and the expiry as extras.
\<close>

theorem binary_store_request:
  assumes "\<forall>n. length (gap n) = n" and "length key \<le> MMC_MAX_KEY_LEN"
    and "mmc_binary_store rt pool gap req op key flags exptime cas v = (MMC_OK, req')"
    and "length (b_sendbuf req') < 2 ^ 32"
  shows "\<exists>cmd h body f' extras b.
    b_sendbuf req' = b_sendbuf req @ cmd \<and>
    server_request cmd = Some (h, extras, key, body, []) \<and> h_cas h = cas \<and> h_reqid h = 0 \<and>
    h_opcode h = word_of_int (if op = MMC_OP_APPEND then MMC_BIN_OP_APPEND else if op = MMC_OP_PREPEND then MMC_BIN_OP_PREPEND
                              else if op = MMC_OP_CAS then MMC_OP_SET else op) \<and>
    extras = (if op = MMC_OP_APPEND \<or> op = MMC_OP_PREPEND then [] else be 4 (unat f') @ be 4 (unat exptime)) \<and>
    mmc_pack_value rt pool b v flags = (MMC_OK, b @ body, f')"
proof -
  let ?app = "op = MMC_OP_APPEND \<or> op = MMC_OP_PREPEND"
  let ?g = "if ?app then 24 else 32 :: nat"
  let ?b = "b_sendbuf req @ gap ?g @ key"
  let ?op = "if op = MMC_OP_APPEND then MMC_BIN_OP_APPEND else if op = MMC_OP_PREPEND then MMC_BIN_OP_PREPEND
             else if op = MMC_OP_CAS then MMC_OP_SET else op"
  obtain st b' f' where pk: "mmc_pack_value rt pool ?b v flags = (st, b', f')"
    by (cases "mmc_pack_value rt pool ?b v flags")
  have st: "st = MMC_OK"
    using assms(3) pk by (auto simp: mmc_binary_store_def set_parsers_def Let_def split: if_splits)
  obtain body where body: "b' = ?b @ body" using pack_appends pk st by blast
  let ?e = "if ?app then [] else be 4 (unat f') @ be 4 (unat exptime)"
  let ?h = "(mmc_pack_header ?op 0 (key_len key) (word_of_nat (length ?e)) (word_of_nat (length body)))\<lparr>h_cas := cas\<rparr>"
  have gl: "length (gap n) = n" for n using assms(1) by simp
  have neq: "MMC_OP_APPEND \<noteq> MMC_OP_PREPEND" by (simp add: mmc_consts)
  have send: "b_sendbuf req' = b_sendbuf req @ header_bytes ?h @ ?e @ key @ body"
    using assms(3) pk st neq
    by (auto simp: mmc_binary_store_def set_parsers_def Let_def body gl split: if_splits)
  have small: "length key < 2 ^ 16" "length key < 2 ^ 32" "length key + (length ?e + length body) < 2 ^ 32"
    using assms(2,4) send by (auto simp: MMC_MAX_KEY_LEN_def)
  have "unat (h_length ?h) = length ?e + length key + length body"
  proof -
    have "h_length ?h = word_of_nat (length key + (length ?e + length body))"
      by (simp add: key_len_def)
    then show ?thesis using unat_small(1) [OF small(3)] by (simp only:)
  qed
  moreover have "unat (h_extras_len ?h) = length ?e" by simp
  moreover have "unat (h_key_len ?h) = length key" using unat_small(2) [OF small(1)] by (simp add: key_len_def)
  ultimately have req: "server_request (header_bytes ?h @ ?e @ key @ body) = Some (?h, ?e, key, body, [])"
    using server_request_header [of ?h ?e key body "[]"] by (simp only: append_Nil2)
  have "h_cas ?h = cas" "h_reqid ?h = 0" "h_opcode ?h = word_of_int ?op" by simp_all
  moreover have "mmc_pack_value rt pool ?b v flags = (MMC_OK, ?b @ body, f')" using pk st body by (simp only:)
  ultimately show ?thesis using send req by blast
qed

theorem binary_store_request_witness:
  "\<exists>cmd h. b_sendbuf (snd (mmc_binary_store plain_runtime \<lparr>compress_threshold = 0, savings_room = (\<lambda>n. n)\<rparr>
      (\<lambda>n. replicate n 0) mmc_binary_create_request MMC_OP_SET [107] 0 60 7 IS_TRUE)) = cmd \<and>
    server_request cmd = Some (h, [0, 0, 1, 0, 0, 0, 0, 60], [107], [49], []) \<and> h_cas h = 7 \<and> h_opcode h = 1"
proof -
  let ?pool = "\<lparr>compress_threshold = 0, savings_room = (\<lambda>n. n)\<rparr>" and ?gap = "\<lambda>n. replicate n (0 :: u8)"
  have pk: "mmc_pack_value plain_runtime ?pool b IS_TRUE 0 = (MMC_OK, b @ [49], 256)" for b
    by (simp add: mmc_pack_value_def reserved_flags_def flag_eval)
  have ops: "MMC_OP_SET \<noteq> MMC_OP_APPEND" "MMC_OP_SET \<noteq> MMC_OP_PREPEND" "MMC_OP_SET \<noteq> MMC_OP_CAS" "MMC_OP_SET = 1"
    by (simp_all add: mmc_consts)
  obtain req' where s: "mmc_binary_store plain_runtime ?pool ?gap mmc_binary_create_request MMC_OP_SET [107] 0 60 7 IS_TRUE
      = (MMC_OK, req')" and len: "length (b_sendbuf req') < 2 ^ 32"
    by (simp add: mmc_binary_store_def Let_def pk set_parsers_def mmc_binary_create_request_def mmc_consts)
  have gap: "\<forall>n. length (?gap n) = n" and key: "length [107 :: u8] \<le> MMC_MAX_KEY_LEN"
    by (simp_all add: MMC_MAX_KEY_LEN_def)
  have four: "(4 :: nat) = Suc (Suc (Suc (Suc 0)))" by simp
  have be: "be 4 256 = [0, 0, 1, 0]" "be 4 60 = [0, 0, 0, 60]" unfolding four be.simps by simp_all
  obtain cmd h body f' e b where r: "b_sendbuf req' = b_sendbuf mmc_binary_create_request @ cmd"
    "server_request cmd = Some (h, e, [107], body, [])" "h_cas h = 7"
    "h_opcode h = word_of_int (if MMC_OP_SET = MMC_OP_APPEND then MMC_BIN_OP_APPEND
       else if MMC_OP_SET = MMC_OP_PREPEND then MMC_BIN_OP_PREPEND else if MMC_OP_SET = MMC_OP_CAS then MMC_OP_SET else MMC_OP_SET)"
    "e = (if MMC_OP_SET = MMC_OP_APPEND \<or> MMC_OP_SET = MMC_OP_PREPEND then [] else be 4 (unat f') @ be 4 (unat (60 :: u32)))"
    "mmc_pack_value plain_runtime ?pool b IS_TRUE 0 = (MMC_OK, b @ body, f')"
    using binary_store_request [OF gap key s len] by blast
  have "f' = 256" "body = [49]" using r(6) pk [of b] by simp_all
  moreover from this r(4,5) have "e = [0, 0, 1, 0, 0, 0, 0, 60]" "h_opcode h = 1" by (simp_all add: ops(1-3) be) (simp add: ops(4))
  moreover have "b_sendbuf req' = cmd" using r(1) by (simp add: mmc_binary_create_request_def)
  ultimately show ?thesis unfolding s snd_conv using r(2,3) by blast
qed

end
