(* ===== verification/Mmc_Binary_Responses.thy ===== *)
theory Mmc_Binary_Responses
  imports Mmc_Binary
begin

text \<open>
  The binary protocol from the server's side: the stream of responses that answers a
  multi-get, as the parse functions of \<^verbatim>\<open>src/memcache_binary_protocol.c\<close> read it. The lemmas
  follow one response through the parsers \<^verbatim>\<open>PARSE_RESPONSE\<close>, \<^verbatim>\<open>PARSE_VALUE\<close> and
  \<^verbatim>\<open>READ_VALUE\<close>; the properties compose them over a whole stream and, with the locale of
  incremental parsers, over every fragmentation of it.
\<close>

subsection \<open>The responses of a server\<close>

record bin_item =
  bi_reqid :: u32
  bi_flags :: u32
  bi_cas :: u64
  bi_payload :: buf

text \<open>A hit: status 0, four bytes of flags as extras, no key, the value.\<close>

definition hit_header :: "bin_item \<Rightarrow> mmc_request_header_t" where
  "hit_header it =
     \<lparr>h_magic = MMC_RESPONSE_MAGIC, h_opcode = word_of_int MMC_OP_GETQ, h_key_len = 0, h_extras_len = 4,
      h_datatype = 0, h_status = 0, h_length = word_of_nat (4 + length (bi_payload it)),
      h_reqid = bi_reqid it, h_cas = bi_cas it\<rparr>"

definition noop_header :: "u32 \<Rightarrow> mmc_request_header_t" where
  "noop_header n =
     \<lparr>h_magic = MMC_RESPONSE_MAGIC, h_opcode = word_of_int MMC_OP_NOOP, h_key_len = 0, h_extras_len = 0,
      h_datatype = 0, h_status = 0, h_length = 0, h_reqid = n, h_cas = 0\<rparr>"

fun bin_stream :: "u32 \<Rightarrow> bin_item list \<Rightarrow> buf" where
  "bin_stream n [] = header_bytes (noop_header n)"
| "bin_stream n (it # its) =
     header_bytes (hit_header it) @ be 4 (unat (bi_flags it)) @ bi_payload it @ bin_stream n its"

definition bin_item_ok :: "(nat \<Rightarrow> buf) \<Rightarrow> nat list \<Rightarrow> bin_item \<Rightarrow> bool" where
  "bin_item_ok zstr zkeys it \<longleftrightarrow> unat (bi_reqid it) < length zkeys \<and>
     length (zstr (zkeys ! unat (bi_reqid it))) \<le> MMC_MAX_KEY_LEN \<and> length (bi_payload it) + 4 < 2 ^ 32"

fun bin_deliver_all ::
  "('d, 'o) php_runtime \<Rightarrow> ('d, 'o, 's) mmc_handlers \<Rightarrow> (nat \<Rightarrow> buf) \<Rightarrow> nat list \<Rightarrow> bin_item list \<Rightarrow> 's \<Rightarrow> 's" where
  "bin_deliver_all rt h zstr zkeys [] s = s"
| "bin_deliver_all rt h zstr zkeys (it # its) s =
     bin_deliver_all rt h zstr zkeys its
       (case deliver_value rt h (zstr (zkeys ! unat (bi_reqid it))) (bi_flags it) (bi_cas it) (bi_payload it) s of
          Some (r, s') \<Rightarrow> s' | None \<Rightarrow> s)"

lemma stream_get_now:
  assumes "unread io = bs @ rest" and "io_input io = []" and "length bs = n"
  shows "mmc_stream_get io n = (Some bs, (advance n io)\<lparr>io_input := []\<rparr>)"
  using assms by (simp add: stream_get_eq advance_def Let_def)

lemma advance_now:
  "read_io io \<Longrightarrow> unread io = bs @ rest \<Longrightarrow> length bs = n \<Longrightarrow>
   read_io (advance n io) \<and> unread (advance n io) = rest"
  using advance_simps(5) [of io n] by (simp add: advance_simps(2))

lemma remembered_key_index:
  assumes "queue_inv (b_keys req)" and "queue_list (b_keys req) = zkeys" and "unat (bc_reqid req) < length zkeys"
  shows "remembered_key zstr req = Some (zstr (zkeys ! unat (bc_reqid req)))"
proof -
  let ?q = "b_keys req" and ?i = "unat (bc_reqid req)"
  have i: "?i < q_len ?q" using assms(2,3) by auto
  have "mmc_queue_item ?q ?i = Some (zkeys ! ?i)"
    using queue_item_Some [OF assms(1) i] assms(2) by simp
  moreover have "length (q_items ?q) = q_alloc ?q" "q_len ?q \<le> q_alloc ?q" "0 < q_alloc ?q \<longrightarrow> q_tail ?q < q_alloc ?q"
    using assms(1) i by (auto simp: queue_inv_def)
  ultimately show ?thesis
    using i by (auto simp: remembered_key_def mmc_queue_item_def Let_def)
qed

text \<open>The request between two responses.\<close>

definition bin_waiting :: "mmc_binary_request \<Rightarrow> mmc_io \<Rightarrow> nat list \<Rightarrow> bool" where
  "bin_waiting req io zkeys \<longleftrightarrow>
     b_parse req = PARSE_RESPONSE_BIN \<and> b_next_parse req = PARSE_VALUE_BIN \<and> b_readbuf req = [] \<and>
     queue_inv (b_keys req) \<and> queue_list (b_keys req) = zkeys \<and> read_io io \<and> io_input io = []"

lemma bin_read_noop:
  assumes "bin_waiting req io zkeys" and "unread io = bin_stream n [] @ rest"
  shows "\<exists>io'. bin_step rt zstr h (req, io, s) = Some (MMC_REQUEST_DONE, req, io', s) \<and> unread io' = rest"
proof -
  have u: "unread io = header_bytes (noop_header n) @ rest" using assms(2) by simp
  note w = assms(1) [unfolded bin_waiting_def]
  have "mmc_stream_get io 24 = (Some (header_bytes (noop_header n)), (advance 24 io)\<lparr>io_input := []\<rparr>)"
    using w by (intro stream_get_now [OF u]) simp_all
  moreover have "read_header (header_bytes (noop_header n)) = noop_header n"
    using read_header_bytes [of "noop_header n" "[]"] by simp
  moreover have "unread (advance 24 io) = rest" using advance_now [OF _ u] w by simp
  ultimately show ?thesis
    using w by (auto simp: bin_step_def bin_parse_def mmc_request_parse_response_bin_def noop_header_def Let_def)
qed

text \<open>
  The header of a successful response with \<open>n\<close> bytes behind its extras. Its extras are read by the
  next parser.
\<close>

lemma unat_ucast_u8: "unat (ucast (e :: u8) :: u64) = unat e"
proof -
  have "unat e < 256" using unsigned_less [of e] by simp
  then show ?thesis by (simp add: unsigned_ucast_eq take_bit_nat_eq_self)
qed

lemma bin_read_header:
  assumes req: "b_parse req = PARSE_RESPONSE_BIN" and io: "read_io io" "io_input io = []" "unread io = header_bytes hdr @ tail"
    and hdr: "h_magic hdr = MMC_RESPONSE_MAGIC" "h_opcode hdr \<noteq> word_of_int MMC_OP_NOOP" "h_status hdr = 0"
      "h_length hdr = word_of_nat (unat (h_extras_len hdr) + n)"
    and n: "0 < unat (h_extras_len hdr) + n" "unat (h_extras_len hdr) + n < 2 ^ 32" "n + 1 < 2 ^ 32"
  shows "\<exists>io'. bin_step rt zstr h (req, io, s) = Some (MMC_REQUEST_AGAIN,
      req\<lparr>bc_opcode := h_opcode hdr, bc_error := 0, bc_reqid := h_reqid hdr, bv_cas := h_cas hdr,
          b_parse := b_next_parse req, bv_length := word_of_nat n, b_room := n + 1\<rparr>, io', s) \<and>
    read_io io' \<and> io_input io' = [] \<and> unread io' = tail"
proof -
  let ?e = "unat (h_extras_len hdr)"
  have get: "mmc_stream_get io 24 = (Some (header_bytes hdr), (advance 24 io)\<lparr>io_input := []\<rparr>)"
    using io(2) by (intro stream_get_now [OF io(3)]) simp_all
  have rh: "read_header (header_bytes hdr) = hdr" using read_header_bytes [of hdr "[]"] by simp
  have ul: "unat (word_of_nat (?e + n) :: u32) = ?e + n" using unat_small(1) [OF n(2)] .
  have len: "(ucast (word_of_nat (?e + n) :: u32) :: u64) = word_of_nat (?e + n)"
  proof -
    have "(ucast x :: u64) = word_of_nat (unat x)" for x :: u32 by simp
    then show ?thesis by (simp only: ul)
  qed
  define W :: u64 where "W = word_of_nat (?e + n)"
  have uW: "unat W = ?e + n" unfolding W_def using n(2) by (intro unat_of_nat_u64) simp
  have nz: "W \<noteq> 0" using uW n(1) by auto
  have ue: "unat (ucast (h_extras_len hdr) :: u64) = ?e" by (rule unat_ucast_u8)
  have ge: "ucast (h_extras_len hdr) \<le> W" using uW ue by (simp add: word_le_nat_alt)
  have minus: "W - ucast (h_extras_len hdr) = word_of_nat n"
  proof -
    have "W = ucast (h_extras_len hdr) + word_of_nat n" unfolding W_def by simp
    then show ?thesis by simp
  qed
  have room: "body_room (word_of_nat n) = n + 1"
  proof -
    have "word_of_nat n + 1 = (word_of_nat (n + 1) :: u64)" by simp
    then show ?thesis unfolding body_room_def using unat_ucast_of_nat_u64 [of "n + 1"] n(3) by (simp only:)
  qed
  have "binary_status 0 = MMC_OK" by (simp add: binary_status_def)
  then show ?thesis
    using req io(2) hdr get rh advance_now [OF io(1,3)] len [folded W_def] nz ge minus room
    by (simp add: bin_step_def bin_parse_def mmc_request_parse_response_bin_def Let_def MMC_OK_def advance_simps(1) del: of_nat_add)
qed

lemma bin_read_hit_header:
  assumes "bin_waiting req io zkeys" and u: "unread io = header_bytes (hit_header it) @ tail" and ok: "length (bi_payload it) + 4 < 2 ^ 32"
  shows "\<exists>io'. bin_step rt zstr h (req, io, s) = Some (MMC_REQUEST_AGAIN,
      req\<lparr>bc_opcode := word_of_int MMC_OP_GETQ, bc_error := 0, bc_reqid := bi_reqid it, bv_cas := bi_cas it,
          b_parse := PARSE_VALUE_BIN, bv_length := word_of_nat (length (bi_payload it)),
          b_room := length (bi_payload it) + 1\<rparr>, io', s) \<and>
    read_io io' \<and> io_input io' = [] \<and>
    unread io' = tail"
proof -
  note w = assms(1) [unfolded bin_waiting_def]
  have "\<exists>io'. bin_step rt zstr h (req, io, s) = Some (MMC_REQUEST_AGAIN,
      req\<lparr>bc_opcode := h_opcode (hit_header it), bc_error := 0, bc_reqid := h_reqid (hit_header it), bv_cas := h_cas (hit_header it),
          b_parse := b_next_parse req, bv_length := word_of_nat (length (bi_payload it)), b_room := length (bi_payload it) + 1\<rparr>, io', s) \<and>
    read_io io' \<and> io_input io' = [] \<and> unread io' = tail"
    by (rule bin_read_header [OF _ _ _ u]) (use w ok in \<open>simp_all add: hit_header_def mmc_consts\<close>)
  then show ?thesis using w by (simp add: hit_header_def)
qed

definition hit_read :: "mmc_binary_request \<Rightarrow> bin_item \<Rightarrow> mmc_binary_request" where
  "hit_read req it = req\<lparr>bc_opcode := word_of_int MMC_OP_GETQ, bc_error := 0, bc_reqid := bi_reqid it, bv_cas := bi_cas it,
     b_parse := PARSE_VALUE_BIN, bv_length := word_of_nat (length (bi_payload it)), b_room := length (bi_payload it) + 1\<rparr>"

lemma bin_read_hit_flags:
  assumes "b_parse req = PARSE_VALUE_BIN" and "read_io io" and "io_input io = []"
    and "unread io = be 4 (unat flags) @ tail"
  shows "\<exists>io'. bin_step rt zstr h (req, io, s) =
      Some (MMC_REQUEST_AGAIN, req\<lparr>bv_flags := flags, b_parse := READ_VALUE_BIN\<rparr>, io', s) \<and>
    read_io io' \<and> io_input io' = [] \<and> unread io' = tail"
proof -
  have "mmc_stream_get io 4 = (Some (be 4 (unat flags)), (advance 4 io)\<lparr>io_input := []\<rparr>)"
    using assms by (intro stream_get_now [OF assms(4)]) simp_all
  then show ?thesis
    using assms advance_now [OF assms(2,4)]
    by (simp add: bin_step_def bin_parse_def mmc_request_parse_value_bin_def)
qed

text \<open>The value: a single get is complete with it, a multi-get goes on with the next response.\<close>

lemma bin_read_value_body:
  assumes p: "b_parse req = READ_VALUE_BIN" "b_readbuf req = []" "bv_length req = word_of_nat (length payload)"
    "b_room req = length payload + 1"
    and q: "queue_inv (b_keys req)" "queue_list (b_keys req) = zkeys" "unat (bc_reqid req) < length zkeys"
    and io: "read_io io" "io_input io = []" "unread io = payload @ tail"
    and len: "length payload + 4 < 2 ^ 32"
    and d: "deliver_value rt h (zstr (zkeys ! unat (bc_reqid req))) (bv_flags req) (bv_cas req) payload s = Some (r, s')"
  shows "\<exists>io'. bin_step rt zstr h (req, io, s) =
      Some (if r = MMC_REQUEST_DONE \<and> bc_opcode req = word_of_int MMC_OP_GET then MMC_REQUEST_DONE else MMC_REQUEST_AGAIN,
        req\<lparr>b_parse := (if bc_opcode req = word_of_int MMC_OP_GET then PARSE_NULL_BIN else PARSE_RESPONSE_BIN), b_readbuf := []\<rparr>, io', s') \<and>
    read_io io' \<and> io_input io' = [] \<and> unread io' = tail"
proof -
  let ?n = "length payload"
  have n: "unat (bv_length req) = ?n" "unat (ucast (bv_length req) :: u32) = ?n"
    unfolding p(3) using len by (simp_all add: unat_of_nat_u64 unat_ucast_of_nat_u64)
  let ?req = "req\<lparr>b_readbuf := payload\<rparr>"
  have f: "fill io [] ?n = (payload, advance ?n io)" by (simp add: fill_def io(3))
  have rb: "read_body req io = Some (?req, advance ?n io)"
    using read_body_fill [of req io] p(2,4) by (simp add: f n)
  have key: "remembered_key zstr ?req = Some (zstr (zkeys ! unat (bc_reqid req)))"
    using remembered_key_index [of ?req zkeys zstr] q by simp
  have ql: "q_len (b_keys req) = length zkeys" using q(2) by auto
  have "io_input (advance ?n io) = []" using io(2) by (simp add: advance_simps(1))
  then show ?thesis
    using p rb key n ql q(3) d advance_now [OF io(1,3)]
    by (simp add: bin_step_def bin_parse_def mmc_request_read_value_bin_def Let_def)
qed

lemma bin_read_hit_body:
  assumes p: "b_parse req = READ_VALUE_BIN" "b_readbuf req = []" "bv_length req = word_of_nat (length payload)"
    "b_room req = length payload + 1" "bc_opcode req = word_of_int MMC_OP_GETQ"
    and q: "queue_inv (b_keys req)" "queue_list (b_keys req) = zkeys" "unat (bc_reqid req) < length zkeys"
    and io: "read_io io" "io_input io = []" "unread io = payload @ tail"
    and len: "length payload + 4 < 2 ^ 32"
    and d: "deliver_value rt h (zstr (zkeys ! unat (bc_reqid req))) (bv_flags req) (bv_cas req) payload s = Some (r, s')"
  shows "\<exists>io'. bin_step rt zstr h (req, io, s) =
      Some (MMC_REQUEST_AGAIN, req\<lparr>b_parse := PARSE_RESPONSE_BIN, b_readbuf := []\<rparr>, io', s') \<and>
    read_io io' \<and> io_input io' = [] \<and> unread io' = tail"
proof -
  have "(word_of_int MMC_OP_GETQ :: u8) \<noteq> word_of_int MMC_OP_GET" by (simp add: mmc_consts)
  with bin_read_value_body [where req = req and zstr = zstr and payload = payload and io = io, OF p(1-4) q io len d] p(5) show ?thesis by simp
qed

lemma deliver_value_ok_key:
  "bin_item_ok zstr zkeys it \<Longrightarrow>
   \<exists>r s'. deliver_value rt h (zstr (zkeys ! unat (bi_reqid it))) (bi_flags it) (bi_cas it) (bi_payload it) s = Some (r, s')"
  using deliver_value_short_key [of "zstr (zkeys ! unat (bi_reqid it))" rt h "bi_flags it" "bi_cas it" "bi_payload it" s]
  by (auto simp: bin_item_ok_def)

lemma again_step: "step x = Some (MMC_REQUEST_AGAIN, x') \<Longrightarrow> parse_loop step x = parse_loop step x'"
  by (simp add: parse_loop_step)

text \<open>The loop on an undivided stream.\<close>

lemma bin_loop_stream:
  assumes "\<forall>it \<in> set its. bin_item_ok zstr zkeys it" and "bin_waiting req io zkeys"
    and "unread io = bin_stream n its @ rest"
  shows "\<exists>req' io'. parse_loop (bin_step rt zstr h) (req, io, s) =
      Some (Some (MMC_REQUEST_DONE, req', io', bin_deliver_all rt h zstr zkeys its s)) \<and> unread io' = rest"
  using assms
proof (induction its arbitrary: req io s)
  case Nil
  from bin_read_noop [OF Nil(2,3), of rt zstr h s] obtain io' where
    "bin_step rt zstr h (req, io, s) = Some (MMC_REQUEST_DONE, req, io', s)" "unread io' = rest" by blast
  then show ?case by (simp add: parse_loop_step mmc_consts)
next
  case (Cons it its)
  have ok: "bin_item_ok zstr zkeys it" "\<forall>it \<in> set its. bin_item_ok zstr zkeys it" using Cons.prems(1) by simp_all
  note w = Cons.prems(2) [unfolded bin_waiting_def]
  have "length (bi_payload it) + 4 < 2 ^ 32" using ok(1) by (simp add: bin_item_ok_def)
  from bin_read_hit_header [OF Cons.prems(2) _ this, of _ rt zstr h s, folded hit_read_def] Cons.prems(3) obtain io1 where
    s1: "bin_step rt zstr h (req, io, s) = Some (MMC_REQUEST_AGAIN, hit_read req it, io1, s)"
    and i1: "read_io io1" "io_input io1 = []"
      "unread io1 = be 4 (unat (bi_flags it)) @ bi_payload it @ bin_stream n its @ rest" by auto
  have "b_parse (hit_read req it) = PARSE_VALUE_BIN" by (simp add: hit_read_def)
  from bin_read_hit_flags [OF this i1, of rt zstr h s] obtain io2 where
    s2: "bin_step rt zstr h (hit_read req it, io1, s) =
      Some (MMC_REQUEST_AGAIN, (hit_read req it)\<lparr>bv_flags := bi_flags it, b_parse := READ_VALUE_BIN\<rparr>, io2, s)"
    and i2: "read_io io2" "io_input io2 = []" "unread io2 = bi_payload it @ bin_stream n its @ rest" by blast
  let ?r2 = "(hit_read req it)\<lparr>bv_flags := bi_flags it, b_parse := READ_VALUE_BIN\<rparr>"
  let ?r3 = "?r2\<lparr>b_parse := PARSE_RESPONSE_BIN, b_readbuf := []\<rparr>"
  obtain r s' where d: "deliver_value rt h (zstr (zkeys ! unat (bi_reqid it))) (bi_flags it) (bi_cas it) (bi_payload it) s
      = Some (r, s')" using deliver_value_ok_key [OF ok(1), of rt h s] by blast
  have "\<exists>io3. bin_step rt zstr h (?r2, io2, s) = Some (MMC_REQUEST_AGAIN, ?r3, io3, s') \<and>
      read_io io3 \<and> io_input io3 = [] \<and> unread io3 = bin_stream n its @ rest"
    using w ok(1) d i2
    by (intro bin_read_hit_body [of _ "bi_payload it" zkeys]) (simp_all add: hit_read_def bin_item_ok_def)
  then obtain io3 where
    s3: "bin_step rt zstr h (?r2, io2, s) = Some (MMC_REQUEST_AGAIN, ?r3, io3, s')"
    and i3: "read_io io3" "io_input io3 = []" "unread io3 = bin_stream n its @ rest" by blast
  have "bin_waiting ?r3 io3 zkeys" using w i3 by (simp add: bin_waiting_def hit_read_def)
  from Cons.IH [OF ok(2) this i3(3), of s'] show ?case
    by (simp add: again_step [of "bin_step rt zstr h", OF s1] again_step [of "bin_step rt zstr h", OF s2]
        again_step [of "bin_step rt zstr h", OF s3] d)
qed

subsection \<open>The answer to one command\<close>

text \<open>
  The responses to a single get, a storage command, a delete or an increment: no key, the number
  0 that the command had, \<open>extras\<close> bytes of extras at the start of \<open>body\<close>.
\<close>

definition bin_reply :: "int \<Rightarrow> u8 \<Rightarrow> u16 \<Rightarrow> u64 \<Rightarrow> buf \<Rightarrow> buf" where
  "bin_reply opcode extras status cas body =
     header_bytes \<lparr>h_magic = MMC_RESPONSE_MAGIC, h_opcode = word_of_int opcode, h_key_len = 0, h_extras_len = extras, h_datatype = 0,
       h_status = status, h_length = word_of_nat (length body), h_reqid = 0, h_cas = cas\<rparr> @ body"

text \<open>A request whose command was built and of whose answer nothing was read.\<close>

definition bin_fresh :: "mmc_binary_request \<Rightarrow> bool" where
  "bin_fresh req \<longleftrightarrow> b_parse req = PARSE_RESPONSE_BIN \<and> b_readbuf req = []"

definition status_code :: "u16 \<Rightarrow> int" where
  "status_code status = int (unat (word_of_int (binary_status status) :: u16))"

lemma status_code_0: "status_code status = 0 \<longleftrightarrow> status = 0"
  by (auto simp: status_code_def binary_status_def mmc_consts)

lemma bin_loop_status:
  assumes req: "bin_fresh req" and io: "read_io io" "io_input io = []" "unread io = bin_reply opcode extras status cas body @ rest"
    and op: "(word_of_int opcode :: u8) \<noteq> word_of_int MMC_OP_NOOP" and body: "length body + 1 < 2 ^ 32" "status = 0 \<longrightarrow> body = []"
    and h: "\<forall>msg len. response_handler h (status_code status) msg len s = (MMC_REQUEST_DONE, s')"
  shows "\<exists>req' io'. parse_loop (bin_step rt zstr h) (req, io, s) = Some (Some (MMC_REQUEST_DONE, req', io', s'))"
proof -
  define hdr where "hdr = \<lparr>h_magic = MMC_RESPONSE_MAGIC, h_opcode = word_of_int opcode, h_key_len = 0, h_extras_len = extras, h_datatype = 0,
       h_status = status, h_length = word_of_nat (length body), h_reqid = 0, h_cas = cas\<rparr>"
  have u: "unread io = header_bytes hdr @ body @ rest" using io(3) by (simp add: bin_reply_def hdr_def)
  have get: "mmc_stream_get io 24 = (Some (header_bytes hdr), (advance 24 io)\<lparr>io_input := []\<rparr>)"
    using io(2) by (intro stream_get_now [OF u]) simp_all
  have rh: "read_header (header_bytes hdr) = hdr" using read_header_bytes [of hdr "[]"] by simp
  have len32: "unat (word_of_nat (length body) :: u32) = length body" using unat_small(1) [of "length body"] body(1) by simp
  have len: "(ucast (word_of_nat (length body) :: u32) :: u64) = word_of_nat (length body)"
  proof -
    have "(ucast x :: u64) = word_of_nat (unat x)" for x :: u32 by simp
    then show ?thesis by (simp only: len32)
  qed
  let ?L = "word_of_nat (length body) :: u64" and ?e = "word_of_int (binary_status status) :: u16"
  have uL: "unat ?L = length body" using body(1) by (intro unat_of_nat_u64) simp
  have e0: "?e = 0 \<longleftrightarrow> status = 0" by (auto simp: binary_status_def mmc_consts)
  let ?req = "req\<lparr>bc_opcode := word_of_int opcode, bc_error := ?e, bc_reqid := 0, bv_length := ?L, bv_cas := cas\<rparr>"
  show ?thesis
  proof (cases "body = []")
    case True
    then have "bin_step rt zstr h (req, io, s) = Some (MMC_REQUEST_DONE, ?req, (advance 24 io)\<lparr>io_input := []\<rparr>, s')"
      using req get rh op h unfolding hdr_def status_code_def
      by (simp add: bin_step_def bin_parse_def bin_fresh_def mmc_request_parse_response_bin_def Let_def)
    then show ?thesis by (simp add: parse_loop_step mmc_consts)
  next
    case False
    then have nz: "?L \<noteq> 0" "?e \<noteq> 0" using uL e0 body(2) by auto
    have room: "body_room ?L = length body + 1"
    proof -
      have "?L + 1 = (word_of_nat (length body + 1) :: u64)" by simp
      then show ?thesis unfolding body_room_def using unat_ucast_of_nat_u64 [of "length body + 1"] body(1) by (simp only:)
    qed
    let ?req1 = "?req\<lparr>b_parse := READ_RESPONSE_BIN, b_room := length body + 1\<rparr>" and ?io1 = "(advance 24 io)\<lparr>io_input := []\<rparr>"
    have s1: "bin_step rt zstr h (req, io, s) = Some (MMC_REQUEST_AGAIN, ?req1, ?io1, s)"
      using req get rh op len nz room unfolding hdr_def
      by (simp add: bin_step_def bin_parse_def bin_fresh_def mmc_request_parse_response_bin_def Let_def)
    have "unread ?io1 = body @ rest" using advance_now [OF io(1) u] by (simp add: unread_def)
    then have "fill ?io1 [] (length body) = (body, advance (length body) ?io1)" by (simp add: fill_def)
    then have rb: "read_body ?req1 ?io1 = Some (?req1\<lparr>b_readbuf := body\<rparr>, advance (length body) ?io1)"
      using read_body_fill [of ?req1 ?io1] req by (simp add: bin_fresh_def uL)
    have "bin_step rt zstr h (?req1, ?io1, s) = Some (MMC_REQUEST_DONE, ?req1\<lparr>b_readbuf := body\<rparr>, advance (length body) ?io1, s')"
      using rb h by (simp add: bin_step_def bin_parse_def mmc_request_read_response_bin_def uL status_code_def)
    then show ?thesis using again_step [where step = "bin_step rt zstr h", OF s1] by (simp add: parse_loop_step mmc_consts)
  qed
qed

lemma bin_loop_hit:
  assumes req: "bin_fresh req" "b_next_parse req = PARSE_VALUE_BIN" "queue_inv (b_keys req)" "queue_list (b_keys req) = [zkey]"
    and io: "read_io io" "io_input io = []" "unread io = bin_reply MMC_OP_GET 4 0 cas (be 4 (unat flags) @ body) @ rest"
    and body: "length body + 4 < 2 ^ 32" and d: "deliver_value rt h (zstr zkey) flags cas body s = Some (MMC_REQUEST_DONE, s')"
  shows "\<exists>req' io'. parse_loop (bin_step rt zstr h) (req, io, s) = Some (Some (MMC_REQUEST_DONE, req', io', s'))"
proof -
  define hdr where "hdr = \<lparr>h_magic = MMC_RESPONSE_MAGIC, h_opcode = word_of_int MMC_OP_GET, h_key_len = 0, h_extras_len = 4,
       h_datatype = 0, h_status = 0, h_length = word_of_nat (4 + length body), h_reqid = 0, h_cas = cas\<rparr>"
  have u: "unread io = header_bytes hdr @ be 4 (unat flags) @ body @ rest" using io(3) by (simp add: bin_reply_def hdr_def)
  let ?r1 = "req\<lparr>bc_opcode := word_of_int MMC_OP_GET, bc_error := 0, bc_reqid := 0, bv_cas := cas,
     b_parse := PARSE_VALUE_BIN, bv_length := word_of_nat (length body), b_room := length body + 1\<rparr>"
  have "\<exists>io1. bin_step rt zstr h (req, io, s) = Some (MMC_REQUEST_AGAIN,
      req\<lparr>bc_opcode := h_opcode hdr, bc_error := 0, bc_reqid := h_reqid hdr, bv_cas := h_cas hdr,
          b_parse := b_next_parse req, bv_length := word_of_nat (length body), b_room := length body + 1\<rparr>, io1, s) \<and>
    read_io io1 \<and> io_input io1 = [] \<and> unread io1 = be 4 (unat flags) @ body @ rest"
    by (rule bin_read_header [OF _ io(1,2) u]) (use req(1) body in \<open>simp_all add: hdr_def bin_fresh_def mmc_consts\<close>)
  then obtain io1 where s1: "bin_step rt zstr h (req, io, s) = Some (MMC_REQUEST_AGAIN, ?r1, io1, s)"
    and i1: "read_io io1" "io_input io1 = []" "unread io1 = be 4 (unat flags) @ body @ rest"
    using req(2) by (auto simp: hdr_def)
  let ?r2 = "?r1\<lparr>bv_flags := flags, b_parse := READ_VALUE_BIN\<rparr>"
  obtain io2 where s2: "bin_step rt zstr h (?r1, io1, s) = Some (MMC_REQUEST_AGAIN, ?r2, io2, s)"
    and i2: "read_io io2" "io_input io2 = []" "unread io2 = body @ rest"
    using bin_read_hit_flags [of ?r1 io1 flags "body @ rest" rt zstr h s] i1 by auto
  have "\<exists>io3. bin_step rt zstr h (?r2, io2, s) =
      Some (if MMC_REQUEST_DONE = MMC_REQUEST_DONE \<and> bc_opcode ?r2 = word_of_int MMC_OP_GET then MMC_REQUEST_DONE else MMC_REQUEST_AGAIN,
        ?r2\<lparr>b_parse := (if bc_opcode ?r2 = word_of_int MMC_OP_GET then PARSE_NULL_BIN else PARSE_RESPONSE_BIN), b_readbuf := []\<rparr>, io3, s') \<and>
    read_io io3 \<and> io_input io3 = [] \<and> unread io3 = rest"
    by (rule bin_read_value_body [where zkeys = "[zkey]"]) (use req i2 body d in \<open>simp_all add: bin_fresh_def\<close>)
  then obtain r3 io3 where "bin_step rt zstr h (?r2, io2, s) = Some (MMC_REQUEST_DONE, r3, io3, s')" by auto
  then show ?thesis using again_step [where step = "bin_step rt zstr h", OF s1] again_step [where step = "bin_step rt zstr h", OF s2] by (simp add: parse_loop_step mmc_consts)
qed

lemma bin_loop_number:
  assumes req: "bin_fresh req" "b_next_parse req = READ_MUTATE_BIN" "queue_inv (b_keys req)" "queue_list (b_keys req) = [zkey]"
    and io: "read_io io" "io_input io = []" "unread io = bin_reply opcode 0 0 cas (be 8 (unat (n :: u64))) @ rest"
    and op: "(word_of_int opcode :: u8) \<noteq> word_of_int MMC_OP_NOOP"
    and h: "value_handler h (zstr zkey) (IS_LONG n) (bv_flags req) cas s = (MMC_REQUEST_DONE, s')"
  shows "\<exists>req' io'. parse_loop (bin_step rt zstr h) (req, io, s) = Some (Some (MMC_REQUEST_DONE, req', io', s'))"
proof -
  define hdr where "hdr = \<lparr>h_magic = MMC_RESPONSE_MAGIC, h_opcode = word_of_int opcode, h_key_len = 0, h_extras_len = 0,
       h_datatype = 0, h_status = 0, h_length = 8, h_reqid = 0, h_cas = cas\<rparr>"
  have u: "unread io = header_bytes hdr @ be 8 (unat n) @ rest" using io(3) by (simp add: bin_reply_def hdr_def)
  let ?r1 = "req\<lparr>bc_opcode := word_of_int opcode, bc_error := 0, bc_reqid := 0, bv_cas := cas,
     b_parse := READ_MUTATE_BIN, bv_length := word_of_nat 8, b_room := 8 + 1\<rparr>"
  have "\<exists>io1. bin_step rt zstr h (req, io, s) = Some (MMC_REQUEST_AGAIN,
      req\<lparr>bc_opcode := h_opcode hdr, bc_error := 0, bc_reqid := h_reqid hdr, bv_cas := h_cas hdr,
          b_parse := b_next_parse req, bv_length := word_of_nat 8, b_room := 8 + 1\<rparr>, io1, s) \<and>
    read_io io1 \<and> io_input io1 = [] \<and> unread io1 = be 8 (unat n) @ rest"
    by (rule bin_read_header [OF _ io(1,2) u]) (use req(1) op in \<open>simp_all add: hdr_def bin_fresh_def\<close>)
  then obtain io1 where s1: "bin_step rt zstr h (req, io, s) = Some (MMC_REQUEST_AGAIN, ?r1, io1, s)"
    and i1: "read_io io1" "io_input io1 = []" "unread io1 = be 8 (unat n) @ rest"
    using req(2) by (auto simp: hdr_def)
  have get: "mmc_stream_get io1 8 = (Some (be 8 (unat n)), (advance 8 io1)\<lparr>io_input := []\<rparr>)"
    using i1(2) by (intro stream_get_now [OF i1(3)]) simp_all
  have key: "remembered_key zstr ?r1 = Some (zstr zkey)" using remembered_key_index [of ?r1 "[zkey]" zstr] req by simp
  have "bin_step rt zstr h (?r1, io1, s) = Some (MMC_REQUEST_DONE, ?r1, (advance 8 io1)\<lparr>io_input := []\<rparr>, s')"
    using get key h by (simp add: bin_step_def bin_parse_def mmc_request_read_mutate_bin_def)
  then show ?thesis using again_step [where step = "bin_step rt zstr h", OF s1] by (simp add: parse_loop_step mmc_consts)
qed

subsection \<open>Properties\<close>

lemma append_gets_parsers:
  "b_parse (fold (\<lambda>(z, key) req. mmc_binary_append_get req z key) zkeys req) = b_parse req \<and>
   b_next_parse (fold (\<lambda>(z, key) req. mmc_binary_append_get req z key) zkeys req) = b_next_parse req \<and>
   b_readbuf (fold (\<lambda>(z, key) req. mmc_binary_append_get req z key) zkeys req) = b_readbuf req"
  by (induction zkeys arbitrary: req) (auto simp: mmc_binary_append_get_def push_key_def append_send_bin_def)

lemma multi_get_waiting:
  assumes "distinct (map fst zkeys)" and "\<forall>(z, key) \<in> set zkeys. length key \<le> MMC_MAX_KEY_LEN"
    and "read_io io" and "io_input io = []"
  shows "bin_waiting (bin_multi_get mmc_binary_create_request zkeys) io (map fst zkeys)"
proof -
  let ?req = "mmc_binary_begin_get mmc_binary_create_request MMC_OP_GET"
  have init: "b_keys ?req = mmc_queue_zero" "b_parse ?req = PARSE_RESPONSE_BIN" "b_next_parse ?req = PARSE_VALUE_BIN"
    "b_readbuf ?req = []"
    by (simp_all add: mmc_binary_begin_get_def set_parsers_def mmc_binary_create_request_def)
  have "queue_inv (b_keys ?req)" "distinct (queue_list (b_keys ?req) @ map fst zkeys)"
    using assms(1) init by simp_all
  from append_gets [OF this assms(2)] init assms(3,4) append_gets_parsers [of zkeys ?req] show ?thesis
    by (auto simp: bin_waiting_def bin_multi_get_def mmc_binary_end_get_def append_send_bin_def)
qed

lemma read_empty_io [simp]: "read_io empty_io"
  by (simp add: empty_io_def read_io_def)

lemma read_fresh_io: "read_io (receive empty_io c) \<and> io_input (receive empty_io c) = [] \<and> unread (receive empty_io c) = c"
  using unread_receive [of empty_io c] read_io_receive [of empty_io c] by simp

lemma bin_empty_more:
  "bin_waiting req empty_io zkeys \<Longrightarrow>
   parse_loop (bin_step rt zstr h) (req, empty_io, s) =
     Some (Some (MMC_REQUEST_MORE, snd (the (bin_step rt zstr h (req, empty_io, s)))))"
proof -
  assume w: "bin_waiting req empty_io zkeys"
  obtain io' where "mmc_stream_get empty_io 24 = (None, io')"
    by (simp add: stream_get_eq Let_def)
  then have "bin_step rt zstr h (req, empty_io, s) = Some (MMC_REQUEST_MORE, req, io', s)"
    using w by (simp add: bin_step_def bin_parse_def bin_waiting_def mmc_request_parse_response_bin_def)
  then show ?thesis by (simp add: parse_loop_step mmc_consts)
qed

text \<open>
  C23: The answer to a multi-get of the binary protocol is delivered completely and in order
  however the network fragments it: for any distinct keys, any hits that name requested keys
  by their opaque numbers (in any order, with any flags, CAS tokens and bodies of less than
  4 GiB) and any cutting of the stream, its closing no-op and whatever follows into chunks,
  every hit reaches the value handler under the key remembered for its number, the request
  ends with \<^verbatim>\<open>MMC_REQUEST_DONE\<close>, and every later byte is left unread.
\<close>

theorem binary_get_delivers:
  assumes "distinct (map fst zkeys)" and "\<forall>(z, key) \<in> set zkeys. length key \<le> MMC_MAX_KEY_LEN"
    and "handlers_no_more h" and "\<forall>it \<in> set its. bin_item_ok zstr (map fst zkeys) it"
    and "concat cs = bin_stream n its @ rest"
  shows "\<exists>req' io' cs'.
    pump (bin_step rt zstr h) bin_recv (bin_multi_get mmc_binary_create_request zkeys, empty_io, s) cs =
      Some (Some (MMC_REQUEST_DONE, (req', io', bin_deliver_all rt h zstr (map fst zkeys) its s), cs')) \<and>
    unread io' @ concat cs' = rest"
proof -
  let ?req = "bin_multi_get mmc_binary_create_request zkeys" and ?step = "bin_step rt zstr h"
  let ?all = "bin_deliver_all rt h zstr (map fst zkeys) its s"
  have w: "bin_waiting ?req empty_io (map fst zkeys)" "bin_waiting ?req (receive empty_io (concat cs)) (map fst zkeys)"
    using multi_get_waiting [OF assms(1,2)] read_fresh_io by simp_all
  have ok: "bin_ok (?req, empty_io, s)" using w(1) by (simp add: bin_ok_def bin_waiting_def reads_body_def)
  have "unread (receive empty_io (concat cs)) = bin_stream n its @ rest" using assms(5) read_fresh_io by simp
  from bin_loop_stream [OF assms(4) w(2) this, of rt h s] obtain req1 io1 where
    run: "parse_loop ?step (bin_recv (concat cs) (?req, empty_io, s)) = Some (Some (MMC_REQUEST_DONE, req1, io1, ?all))"
    and u: "unread io1 = rest" by (auto simp: bin_recv_def)
  have "MMC_REQUEST_DONE \<noteq> MMC_REQUEST_MORE" by (simp add: mmc_consts)
  from incremental_parser.pump_fragmented [OF bin_incremental [OF assms(3)] ok bin_empty_more [OF w(1)] run this]
  obtain x' cs' where p: "pump ?step bin_recv (?req, empty_io, s) cs = Some (Some (MMC_REQUEST_DONE, x', cs'))"
    and x': "bin_ok x'" "bin_recv (concat cs') x' = (req1, io1, ?all)" by blast
  obtain req' io' s' where x: "x' = (req', io', s')" by (cases x')
  have "s' = ?all" "unread io' @ concat cs' = rest"
    using x' u by (auto simp: x bin_recv_def bin_ok_def unread_receive)
  then show ?thesis using p x by blast
qed

theorem binary_get_delivers_witness:
  "\<exists>req' io' cs'.
    pump (bin_step plain_runtime (\<lambda>z. if z = 5 then [97] else [98]) log_handlers) bin_recv
        (bin_multi_get mmc_binary_create_request [(5, [97]), (9, [98])], empty_io, [])
        [take 30 (bin_stream 2 [\<lparr>bi_reqid = 1, bi_flags = 0, bi_cas = 4, bi_payload = [120, 10]\<rparr>] @ [7]),
         drop 30 (bin_stream 2 [\<lparr>bi_reqid = 1, bi_flags = 0, bi_cas = 4, bi_payload = [120, 10]\<rparr>] @ [7])] =
      Some (Some (MMC_REQUEST_DONE, (req', io', [([98], IS_STRING [120, 10])]), cs')) \<and>
    unread io' @ concat cs' = [7]"
proof -
  let ?it = "\<lparr>bi_reqid = 1, bi_flags = 0, bi_cas = 4, bi_payload = [120, 10]\<rparr>"
  let ?zstr = "\<lambda>z :: nat. if z = 5 then [97] else [98] :: buf" and ?keys = "[(5, [97]), (9, [98])] :: (nat \<times> buf) list"
  let ?cs = "[take 30 (bin_stream 2 [?it] @ [7]), drop 30 (bin_stream 2 [?it] @ [7])]"
  have k: "distinct (map fst ?keys)" "\<forall>(z, key) \<in> set ?keys. length key \<le> MMC_MAX_KEY_LEN"
    by (simp_all add: MMC_MAX_KEY_LEN_def)
  have ok: "\<forall>it \<in> set [?it]. bin_item_ok ?zstr (map fst ?keys) it"
    by (simp add: bin_item_ok_def MMC_MAX_KEY_LEN_def)
  have cs: "concat ?cs = bin_stream 2 [?it] @ [7]" by (simp only: concat.simps append_Nil2 append_take_drop_id)
  have "bin_deliver_all plain_runtime log_handlers ?zstr (map fst ?keys) [?it] [] = [([98], IS_STRING [120, 10])]"
    by (simp add: deliver_value_def mmc_unpack_value_def log_handlers_def Let_def flag_eval)
  then show ?thesis
    using binary_get_delivers [OF k log_handlers_no_more ok cs, of plain_runtime "[]"] by simp
qed

text \<open>
  The status of a response without a body reaches the response handler as its C constant
  does, except that a status the extension does not know arrives as 65534:
  \<^verbatim>\<open>MMC_RESPONSE_UNKNOWN\<close> is -2 and is stored in the 16-bit field \<^verbatim>\<open>command.error\<close> first.
\<close>

theorem binary_status_reaches_handler:
  assumes "b_parse req = PARSE_RESPONSE_BIN" and "read_io io" and "io_input io = []"
    and "unread io = header_bytes hdr @ rest"
    and "h_magic hdr = MMC_RESPONSE_MAGIC" and "h_opcode hdr \<noteq> word_of_int MMC_OP_NOOP" and "h_length hdr = 0"
  shows "\<exists>req' io'. bin_step rt zstr h (req, io, s) =
    (let (r, s') = response_handler h
           (if h_status hdr \<in> {0, 1, 2, 3, 4, 5, 6, 0x81, 0x82} then binary_status (h_status hdr) else 65534) [] 0 s
     in Some (r, req', io', s')) \<and> unread io' = rest"
proof -
  have get: "mmc_stream_get io 24 = (Some (header_bytes hdr), (advance 24 io)\<lparr>io_input := []\<rparr>)"
    using assms(3) by (intro stream_get_now [OF assms(4)]) simp_all
  have rh: "read_header (header_bytes hdr) = hdr" using read_header_bytes [of hdr "[]"] by simp
  define c where "c = (if h_status hdr \<in> {0, 1, 2, 3, 4, 5, 6, 0x81, 0x82} then binary_status (h_status hdr) else 65534)"
  have code: "uint (word_of_int (binary_status (h_status hdr)) :: u16) = c"
    by (auto simp: c_def binary_status_def mmc_consts)
  have "unread (advance 24 io) = rest" using advance_now [OF assms(2,4)] by simp
  then show ?thesis
    unfolding c_def [symmetric] using assms get rh
    by (simp add: bin_step_def bin_parse_def mmc_request_parse_response_bin_def Let_def code split: prod.split)
qed

theorem binary_status_reaches_handler_witness:
  "\<exists>req' io'. bin_step plain_runtime (\<lambda>z. []) \<lparr>response_handler = (\<lambda>r m n s. (MMC_REQUEST_DONE, r # s)),
       value_handler = (\<lambda>k v f c s. (MMC_REQUEST_DONE, s)), server_failure = (\<lambda>m s. (MMC_REQUEST_FAILURE, s))\<rparr>
     (mmc_binary_version mmc_binary_create_request,
      receive empty_io (header_bytes ((noop_header 0)\<lparr>h_opcode := 1, h_status := 0x20\<rparr>)), []) =
    Some (MMC_REQUEST_DONE, req', io', [65534])"
proof -
  let ?hdr = "(noop_header 0)\<lparr>h_opcode := 1, h_status := 0x20\<rparr>"
  let ?io = "receive empty_io (header_bytes ?hdr)" and ?req = "mmc_binary_version mmc_binary_create_request"
  have p: "b_parse ?req = PARSE_RESPONSE_BIN"
    by (simp add: mmc_binary_version_def append_send_bin_def set_parsers_def)
  have io: "read_io ?io" "io_input ?io = []" "unread ?io = header_bytes ?hdr @ []" using read_fresh_io by simp_all
  have hdr: "h_magic ?hdr = MMC_RESPONSE_MAGIC" "h_opcode ?hdr \<noteq> word_of_int MMC_OP_NOOP" "h_length ?hdr = 0" "h_status ?hdr = 0x20"
    by (simp_all add: noop_header_def mmc_consts)
  show ?thesis
    using binary_status_reaches_handler [OF p io hdr(1-3), of plain_runtime "\<lambda>z. []" "\<lparr>response_handler = (\<lambda>r m n s. (MMC_REQUEST_DONE, r # s)),
       value_handler = (\<lambda>k v f c s. (MMC_REQUEST_DONE, s)), server_failure = (\<lambda>m s. (MMC_REQUEST_FAILURE, s))\<rparr>" "[]"] hdr(4)
    by auto
qed

text \<open>
  The opaque number of a hit is not validated: whatever keys were requested, a hit whose
  number is at least twice the size of the key array makes the client read outside it.
\<close>

theorem binary_reqid_unchecked:
  assumes "bin_waiting req io zkeys" and "length payload + 4 < 2 ^ 32" and "2 * q_alloc (b_keys req) \<le> unat reqid"
    and "unread io = header_bytes (hit_header \<lparr>bi_reqid = reqid, bi_flags = flags, bi_cas = cas, bi_payload = payload\<rparr>) @
           be 4 (unat flags) @ payload @ rest"
  shows "parse_loop (bin_step rt zstr h) (req, io, s) = Some None"
proof -
  let ?it = "\<lparr>bi_reqid = reqid, bi_flags = flags, bi_cas = cas, bi_payload = payload\<rparr>"
  note w = assms(1) [unfolded bin_waiting_def]
  from bin_read_hit_header [OF assms(1), of ?it _ rt zstr h s, folded hit_read_def] assms(2,4) obtain io1 where
    s1: "bin_step rt zstr h (req, io, s) = Some (MMC_REQUEST_AGAIN, hit_read req ?it, io1, s)"
    and i1: "read_io io1" "io_input io1 = []" "unread io1 = be 4 (unat flags) @ payload @ rest"
    by auto
  have "b_parse (hit_read req ?it) = PARSE_VALUE_BIN" by (simp add: hit_read_def)
  from bin_read_hit_flags [OF this i1, of rt zstr h s] obtain io2 where
    s2: "bin_step rt zstr h (hit_read req ?it, io1, s) =
      Some (MMC_REQUEST_AGAIN, (hit_read req ?it)\<lparr>bv_flags := flags, b_parse := READ_VALUE_BIN\<rparr>, io2, s)"
    and i2: "read_io io2" "unread io2 = payload @ rest" by blast
  let ?r2 = "(hit_read req ?it)\<lparr>bv_flags := flags, b_parse := READ_VALUE_BIN\<rparr>"
  have n: "unat (bv_length ?r2) = length payload" using assms(2) by (simp add: hit_read_def unat_of_nat_u64)
  have f: "fill io2 [] (length payload) = (payload, advance (length payload) io2)" by (simp add: fill_def i2(2))
  have rb: "read_body ?r2 io2 = Some (?r2\<lparr>b_readbuf := payload\<rparr>, advance (length payload) io2)"
    using read_body_fill [of ?r2 io2] w n f by (simp add: hit_read_def)
  have out: "\<not> q_tail (b_keys req) + unat reqid < q_alloc (b_keys req)"
    "\<not> unat reqid - (q_alloc (b_keys req) - q_tail (b_keys req)) < q_alloc (b_keys req)"
    using assms(3) by linarith+
  have "length (q_items (b_keys req)) = q_alloc (b_keys req)" using w by (simp add: queue_inv_def)
  then have "remembered_key zstr (?r2\<lparr>b_readbuf := payload\<rparr>) = None"
    using out by (simp add: remembered_key_def hit_read_def Let_def)
  then have s3: "bin_step rt zstr h (?r2, io2, s) = None"
    using rb n by (simp add: bin_step_def bin_parse_def mmc_request_read_value_bin_def)
  show ?thesis
    by (simp only: again_step [of "bin_step rt zstr h", OF s1] again_step [of "bin_step rt zstr h", OF s2]
        parse_loop_None [of "bin_step rt zstr h", OF s3])
qed

theorem binary_reqid_unchecked_witness:
  "parse_loop (bin_step plain_runtime (\<lambda>z. [97]) (log_handlers :: (unit, unit, _) mmc_handlers))
     (bin_multi_get mmc_binary_create_request [(5, [97])],
      receive empty_io (header_bytes (hit_header \<lparr>bi_reqid = 100, bi_flags = 0, bi_cas = 0, bi_payload = [120]\<rparr>) @
        be 4 (unat (0 :: u32)) @ [120] @ []), []) = Some None"
proof -
  let ?req = "bin_multi_get mmc_binary_create_request [(5, [97])]"
  let ?inp = "header_bytes (hit_header \<lparr>bi_reqid = 100, bi_flags = 0, bi_cas = 0, bi_payload = [120]\<rparr>) @
        be 4 (unat (0 :: u32)) @ [120] @ []"
  have w: "bin_waiting ?req (receive empty_io ?inp) [5]"
    using multi_get_waiting [of "[(5, [97])]" "receive empty_io ?inp"] read_fresh_io by (simp add: MMC_MAX_KEY_LEN_def)
  have a: "2 * q_alloc (b_keys ?req) \<le> unat (100 :: u32)"
    by (simp add: bin_multi_get_def mmc_binary_begin_get_def mmc_binary_append_get_def mmc_binary_end_get_def push_key_def
        append_send_bin_def set_parsers_def mmc_binary_create_request_def mmc_queue_push_def mmc_queue_grow_def
        mmc_queue_zero_def mmc_queue_contains_def mmc_queue_advance_head_def MMC_QUEUE_PREALLOC_def Let_def)
  have u: "unread (receive empty_io ?inp) = ?inp" using read_fresh_io by blast
  show ?thesis using binary_reqid_unchecked [OF w _ a u, of plain_runtime "\<lambda>z. [97]" log_handlers "[]"] by simp
qed

end
