(* ===== verification/Mmc_Server.thy ===== *)
theory Mmc_Server
  imports Mmc_Queue Mmc_Stream
begin

text \<open>
  A server of the pool (\<^verbatim>\<open>mmc_t\<close> and \<^verbatim>\<open>mmc_stream_t\<close> of \<^verbatim>\<open>src/memcache_pool.h\<close>) and the
  operations of \<^verbatim>\<open>src/memcache_pool.c\<close> that concern one server only: creating, disconnecting,
  error bookkeeping, validity, sleep, sending a chunk and reading a datagram.

  Servers and requests are named by naturals (their addresses); NULL is \<open>None\<close>. A function
  that gets a pointer to one of the two streams of a server gets the flag \<open>udp\<close> instead.
  The network and the clock are arguments: the outcome of a system call is a parameter of
  the operation that makes it.
\<close>

text \<open>\<open>st_taken\<close> is the position in the stream: how many of the bytes that arrived were read.\<close>

record mmc_stream_t =
  st_stream :: "nat option"
  st_fd :: int
  st_port :: nat
  st_chunk_size :: int
  st_status :: int
  st_failed :: int
  st_retry_interval :: int
  st_buffered :: bool
  st_taken :: nat
  st_io :: mmc_io

record mmc_t =
  m_tcp :: mmc_stream_t
  m_udp :: mmc_stream_t
  m_sendreq :: "nat option"
  m_readreq :: "nat option"
  m_buildreq :: "nat option"
  m_sendqueue :: "nat fifo"
  m_readqueue :: "nat fifo"
  m_host :: buf
  m_timeout :: int
  m_persistent :: bool
  m_reqid :: u16
  m_error :: "buf option"
  m_errnum :: int

definition stream_of :: "bool \<Rightarrow> mmc_t \<Rightarrow> mmc_stream_t" where
  "stream_of udp mmc = (if udp then m_udp mmc else m_tcp mmc)"

definition map_stream :: "bool \<Rightarrow> (mmc_stream_t \<Rightarrow> mmc_stream_t) \<Rightarrow> mmc_t \<Rightarrow> mmc_t" where
  "map_stream udp f mmc = (if udp then mmc\<lparr>m_udp := f (m_udp mmc)\<rparr> else mmc\<lparr>m_tcp := f (m_tcp mmc)\<rparr>)"

definition mmc_buffer_free :: "mmc_buffer_t \<Rightarrow> mmc_buffer_t" where
  "mmc_buffer_free b = \<lparr>b_value = [], b_idx = 0\<rparr>"

subsection \<open>Creating and disconnecting\<close>

definition zero_stream :: mmc_stream_t where
  "zero_stream = \<lparr>st_stream = None, st_fd = 0, st_port = 0, st_chunk_size = 0, st_status = 0, st_failed = 0,
     st_retry_interval = 0, st_buffered = False, st_taken = 0, st_io = empty_io\<rparr>"

definition mmc_server_new :: "int \<Rightarrow> buf \<Rightarrow> nat \<Rightarrow> nat \<Rightarrow> bool \<Rightarrow> int \<Rightarrow> int \<Rightarrow> mmc_t" where
  "mmc_server_new chunk_size host tcp_port udp_port persistent timeout retry_interval =
     \<lparr>m_tcp = zero_stream\<lparr>st_port := tcp_port, st_status := MMC_STATUS_DISCONNECTED,
                           st_retry_interval := retry_interval, st_chunk_size := chunk_size\<rparr>,
      m_udp = zero_stream\<lparr>st_port := udp_port, st_status := MMC_STATUS_DISCONNECTED,
                           st_retry_interval := retry_interval, st_chunk_size := chunk_size\<rparr>,
      m_sendreq = None, m_readreq = None, m_buildreq = None, m_sendqueue = fq_zero, m_readqueue = fq_zero,
      m_host = host, m_timeout = timeout, m_persistent = persistent, m_reqid = 0, m_error = None, m_errnum = 0\<rparr>"

text \<open>The input buffer of the line reader (\<^verbatim>\<open>io->input\<close>) is not among the fields that are reset.\<close>

definition disconnect_stream :: "mmc_stream_t \<Rightarrow> mmc_stream_t" where
  "disconnect_stream io =
     (let io = io\<lparr>st_io := (st_io io)\<lparr>io_buffer := mmc_buffer_free (io_buffer (st_io io))\<rparr>\<rparr>;
          io = (if st_stream io \<noteq> None then io\<lparr>st_stream := None, st_fd := 0\<rparr> else io)
      in io\<lparr>st_status := MMC_STATUS_DISCONNECTED\<rparr>)"

definition mmc_server_disconnect :: "bool \<Rightarrow> mmc_t \<Rightarrow> mmc_t" where
  "mmc_server_disconnect udp mmc = map_stream udp disconnect_stream mmc"

definition mmc_server_seterror :: "mmc_t \<Rightarrow> buf option \<Rightarrow> int \<Rightarrow> mmc_t" where
  "mmc_server_seterror mmc error errnum =
     (case error of None \<Rightarrow> mmc | Some e \<Rightarrow> mmc\<lparr>m_error := Some e, m_errnum := errnum\<rparr>)"

definition mmc_server_failure :: "bool \<Rightarrow> mmc_t \<Rightarrow> buf \<Rightarrow> int \<Rightarrow> int \<times> mmc_t" where
  "mmc_server_failure udp mmc error errnum =
     (if st_status (stream_of udp mmc) = MMC_STATUS_DISCONNECTED then (MMC_REQUEST_RETRY, mmc)
      else if st_status (stream_of udp mmc) = MMC_STATUS_UNKNOWN
      then (MMC_REQUEST_RETRY, map_stream udp (\<lambda>io. io\<lparr>st_status := MMC_STATUS_DISCONNECTED\<rparr>) mmc)
      else (MMC_REQUEST_FAILURE, mmc_server_seterror mmc (Some error) errnum))"

definition mmc_request_failure :: "bool \<Rightarrow> mmc_t \<Rightarrow> buf \<Rightarrow> u32 \<Rightarrow> int \<Rightarrow> int \<times> mmc_t" where
  "mmc_request_failure udp mmc message message_len errnum =
     (if message_len \<noteq> 0 then mmc_server_failure udp mmc (takeWhile (\<lambda>b. b \<noteq> 0) message) errnum
      else mmc_server_failure udp mmc (bytes ''Malformed server response'') errnum)"

definition mmc_server_valid :: "int \<Rightarrow> mmc_t option \<Rightarrow> bool" where
  "mmc_server_valid time server =
     (case server of
        None \<Rightarrow> False
      | Some mmc \<Rightarrow>
          st_status (m_tcp mmc) \<ge> MMC_STATUS_DISCONNECTED \<or>
          st_status (m_tcp mmc) = MMC_STATUS_FAILED \<and> st_retry_interval (m_tcp mmc) \<ge> 0 \<and>
            time \<ge> st_failed (m_tcp mmc) + st_retry_interval (m_tcp mmc))"

definition free_buffer :: "mmc_stream_t \<Rightarrow> mmc_stream_t" where
  "free_buffer io = io\<lparr>st_io := (st_io io)\<lparr>io_buffer := mmc_buffer_free (io_buffer (st_io io))\<rparr>\<rparr>"

definition mmc_server_sleep :: "mmc_t \<Rightarrow> mmc_t" where
  "mmc_server_sleep mmc =
     (map_stream True free_buffer (map_stream False free_buffer mmc))
       \<lparr>m_sendreq := None, m_readreq := None, m_buildreq := None, m_sendqueue := fq_zero, m_readqueue := fq_zero,
        m_error := None\<rparr>"

subsection \<open>Opening a connection\<close>

text \<open>
  What \<^verbatim>\<open>php_stream_xport_create\<close> and the cast to a descriptor give: a stream with its
  descriptor, or a failure with PHP's message and number.
\<close>

datatype connect_result = Connected nat int | NotConnected "buf option" int

text \<open>The fields a connection sets; nothing has been taken from the new stream.\<close>

definition connected_stream :: "bool \<Rightarrow> nat \<Rightarrow> int \<Rightarrow> mmc_stream_t \<Rightarrow> mmc_stream_t" where
  "connected_stream udp stream fd io =
     io\<lparr>st_stream := Some stream, st_fd := fd, st_status := MMC_STATUS_CONNECTED, st_buffered := udp, st_taken := 0\<rparr>"

definition connect_error :: "mmc_t \<Rightarrow> buf option \<Rightarrow> int \<Rightarrow> mmc_t" where
  "connect_error mmc errstr errnum =
     (case errstr of
        Some e \<Rightarrow> mmc_server_seterror mmc (Some (bytes ''Connection failed: '' @ e)) errnum
      | None \<Rightarrow> mmc_server_seterror mmc (Some (bytes ''Connection failed'')) errnum)"

subsection \<open>Sending a chunk and reading a datagram\<close>

text \<open>
  What \<^verbatim>\<open>send\<close> gives: a number of bytes, the error \<^verbatim>\<open>EAGAIN\<close>, or another error with its
  message.
\<close>

datatype send_result = Sent nat | SendAgain | SendError buf int

definition send_count :: "int \<Rightarrow> nat \<Rightarrow> nat \<Rightarrow> int" where
  "send_count chunk_size len idx =
     (let count = int len - int idx in if count > chunk_size then chunk_size else count)"

text \<open>The result, the new \<^verbatim>\<open>sendbuf.idx\<close> and the server.\<close>

definition mmc_request_send :: "bool \<Rightarrow> mmc_t \<Rightarrow> buf \<Rightarrow> nat \<Rightarrow> send_result \<Rightarrow> int \<times> nat \<times> mmc_t" where
  "mmc_request_send udp mmc sendbuf idx outcome =
     (case outcome of
        Sent n \<Rightarrow> if idx + n \<ge> length sendbuf then (MMC_REQUEST_DONE, idx + n, mmc) else (MMC_REQUEST_MORE, idx + n, mmc)
      | SendAgain \<Rightarrow> (MMC_REQUEST_MORE, idx, mmc)
      | SendError message err \<Rightarrow> let (r, mmc) = mmc_server_failure udp mmc message err in (r, idx, mmc))"

record udp_fields =
  u_reqid :: u16
  u_seqid :: u16
  u_total :: u16

definition u16_at :: "nat \<Rightarrow> buf \<Rightarrow> u16" where
  "u16_at i bs = word_of_nat (256 * unat (bs ! i) + unat (bs ! (i + 1)))"

text \<open>
  The buffer after a good datagram: the header is moved out of the way when unread bytes
  precede it, and skipped by the index otherwise; the length grows by the whole datagram.
\<close>

definition append_datagram :: "mmc_buffer_t \<Rightarrow> buf \<Rightarrow> mmc_buffer_t" where
  "append_datagram b d =
     (let len = length (b_value b); mem = b_value b @ d in
      if b_idx b > 0 then b\<lparr>b_value := memmove mem len (len + 8) (length d - 8)\<rparr>
      else b\<lparr>b_value := mem, b_idx := b_idx b + 8\<rparr>)"

definition refill_buffer :: "mmc_buffer_t \<Rightarrow> mmc_buffer_t" where
  "refill_buffer b = (if b_idx b \<ge> length (b_value b) then mmc_buffer_reset b else b)"

text \<open>\<open>d\<close> is what \<^verbatim>\<open>php_stream_read\<close> puts into the room for 1401 bytes.\<close>

definition mmc_request_read_udp :: "int \<Rightarrow> buf \<Rightarrow> mmc_t \<Rightarrow> udp_fields \<Rightarrow> int \<times> mmc_t \<times> udp_fields" where
  "mmc_request_read_udp time d mmc udp =
     (let b = refill_buffer (io_buffer (st_io (m_udp mmc)));
          mmc = map_stream True (\<lambda>io. io\<lparr>st_io := (st_io io)\<lparr>io_buffer := b\<rparr>\<rparr>) mmc in
      if length d < 8 then
        let (r, mmc) = mmc_server_failure True mmc (bytes ''Failed te read complete UDP header from stream'') 0
        in (r, mmc, udp)
      else if length d > MMC_MAX_UDP_LEN then
        let (r, mmc) = mmc_server_failure True mmc (bytes ''Server sent packet larger than MMC_MAX_UDP_LEN bytes'') 0
        in (r, mmc, udp)
      else
        let reqid = u16_at 0 d; seqid = u16_at 2 d;
            udp = (if u_total udp = 0 \<and> u_reqid udp = reqid
                   then udp\<lparr>u_seqid := seqid, u_total := u16_at 4 d\<rparr> else udp) in
        if u_reqid udp \<noteq> reqid \<or> u_seqid udp \<noteq> seqid then
          let mmc = map_stream True (\<lambda>io. io\<lparr>st_status := MMC_STATUS_FAILED, st_failed := time\<rparr>) mmc
          in (if reqid < u_reqid udp then MMC_REQUEST_MORE else MMC_REQUEST_RETRY, mmc, udp)
        else
          (MMC_OK, map_stream True (\<lambda>io. io\<lparr>st_io := (st_io io)\<lparr>io_buffer := append_datagram b d\<rparr>\<rparr>) mmc,
           udp\<lparr>u_seqid := u_seqid udp + 1\<rparr>))"

lemma unread_append_datagram:
  assumes "8 \<le> length d" and "b_idx b < length (b_value b)" and "0 < b_idx b"
  shows "drop (b_idx (append_datagram b d)) (b_value (append_datagram b d)) =
    drop (b_idx b) (b_value b) @ drop 8 d @ drop (length d - 8) d"
  using assms by (simp add: append_datagram_def memmove_def Let_def)

text \<open>The reads keep the index inside the buffer, and at zero only while it is empty.\<close>

definition udp_io_ok :: "mmc_io \<Rightarrow> bool" where
  "udp_io_ok io \<longleftrightarrow> b_idx (io_buffer io) \<le> length (b_value (io_buffer io)) \<and>
     (b_idx (io_buffer io) = 0 \<longrightarrow> b_value (io_buffer io) = [])"

lemma failure_io: "st_io (stream_of w (snd (mmc_server_failure u m e n))) = st_io (stream_of w m)"
  by (simp add: mmc_server_failure_def mmc_server_seterror_def map_stream_def stream_of_def)

lemma read_udp_io:
  "st_io (m_udp (fst (snd (mmc_request_read_udp time d mmc udp)))) =
     (let io = st_io (m_udp mmc); b = refill_buffer (io_buffer io) in
      io\<lparr>io_buffer := (if fst (mmc_request_read_udp time d mmc udp) = MMC_OK then append_datagram b d else b)\<rparr>)"
proof -
  have st: "st_io (m_udp (snd (mmc_server_failure True m e n))) = st_io (m_udp m)"
    "fst (mmc_server_failure True m e n) \<noteq> MMC_OK" for m e n
    using failure_io [of True True m e n]
    by (auto simp: stream_of_def mmc_server_failure_def mmc_consts split: if_splits)
  show ?thesis
    using st by (simp add: mmc_request_read_udp_def map_stream_def Let_def case_prod_unfold mmc_consts)
qed

lemma append_datagram_ok:
  "8 \<le> length d \<Longrightarrow> b_idx b \<le> length (b_value b) \<Longrightarrow>
   b_idx (append_datagram b d) \<le> length (b_value (append_datagram b d)) \<and> 0 < b_idx (append_datagram b d)"
  by (auto simp: append_datagram_def memmove_def Let_def)

lemma refill_buffer_ok: "b_idx (refill_buffer b) \<le> length (b_value (refill_buffer b))"
  by (simp add: refill_buffer_def mmc_buffer_reset_def)

lemma udp_io_ok_step:
  assumes "udp_io_ok (st_io (m_udp mmc))" and "8 \<le> length d"
  shows "udp_io_ok (st_io (m_udp (fst (snd (mmc_request_read_udp time d mmc udp)))))"
proof (cases "fst (mmc_request_read_udp time d mmc udp) = MMC_OK")
  case True
  then show ?thesis
    using append_datagram_ok [OF assms(2) refill_buffer_ok [of "io_buffer (st_io (m_udp mmc))"]]
    by (auto simp: read_udp_io udp_io_ok_def Let_def)
next
  case False
  then show ?thesis
    using assms(1) by (auto simp: read_udp_io udp_io_ok_def refill_buffer_def mmc_buffer_reset_def Let_def)
qed

subsection \<open>Properties\<close>

text \<open>
  C32: A datagram that is accepted while earlier bytes are still unread leaves the last eight
  bytes of the datagram twice in the stream: the header is moved away, but the length of the
  buffer grows by the whole datagram. Only when nothing was unread the payload arrives as
  the server sent it.
\<close>

theorem udp_datagram_stream:
  assumes "udp_io_ok (st_io (m_udp mmc))" and "mmc_request_read_udp time d mmc udp = (MMC_OK, mmc', udp')"
  shows "unread (st_io (m_udp mmc')) =
    (if unread (st_io (m_udp mmc)) = [] then drop 8 d
     else unread (st_io (m_udp mmc)) @ drop 8 d @ drop (length d - 8) d)"
proof -
  have fail: "fst (mmc_server_failure True m e n) \<noteq> MMC_OK" for m e n
    by (simp add: mmc_server_failure_def mmc_consts)
  have len: "8 \<le> length d"
  proof (rule ccontr)
    assume "\<not> 8 \<le> length d"
    then have "fst (mmc_request_read_udp time d mmc udp) \<noteq> MMC_OK"
      using fail by (simp add: mmc_request_read_udp_def Let_def case_prod_unfold)
    then show False using assms(2) by simp
  qed
  let ?b = "io_buffer (st_io (m_udp mmc))"
  have io: "io_buffer (st_io (m_udp mmc')) = append_datagram (refill_buffer ?b) d"
    using read_udp_io [of time d mmc udp] assms(2) by (simp add: Let_def)
  show ?thesis
  proof (cases "b_idx ?b < length (b_value ?b)")
    case True
    then have "0 < b_idx ?b" using assms(1) by (auto simp: udp_io_ok_def)
    then show ?thesis
      using True unread_append_datagram [OF len True] io by (simp add: unread_def refill_buffer_def)
  next
    case False
    then show ?thesis
      using io by (simp add: unread_def refill_buffer_def mmc_buffer_reset_def append_datagram_def)
  qed
qed

definition udp_example :: mmc_t where
  "udp_example = map_stream True (\<lambda>io. io\<lparr>st_io := \<lparr>io_buffer = \<lparr>b_value = replicate 8 0 @ [97], b_idx = 8\<rparr>, io_input = []\<rparr>\<rparr>)
     (mmc_server_new 8192 [] 11211 11211 False 1000000 15)"

theorem udp_datagram_stream_witness:
  "\<exists>mmc' udp'. mmc_request_read_udp 0 [0, 7, 0, 1, 0, 2, 0, 0, 98, 99] udp_example
      \<lparr>u_reqid = 7, u_seqid = 1, u_total = 2\<rparr> = (MMC_OK, mmc', udp') \<and>
    unread (st_io (m_udp mmc')) = [97, 98, 99] @ [0, 1, 0, 2, 0, 0, 98, 99]"
proof -
  let ?d = "[0, 7, 0, 1, 0, 2, 0, 0, 98, 99] :: buf" and ?u = "\<lparr>u_reqid = 7, u_seqid = 1, u_total = 2\<rparr>"
  have io: "st_io (m_udp udp_example) = \<lparr>io_buffer = \<lparr>b_value = replicate 8 0 @ [97], b_idx = 8\<rparr>, io_input = []\<rparr>"
    by (simp add: udp_example_def map_stream_def)
  have ok: "udp_io_ok (st_io (m_udp udp_example))" by (simp add: io udp_io_ok_def)
  have un: "unread (st_io (m_udp udp_example)) = [97]" by (simp add: io unread_def)
  obtain mmc' udp' where r: "mmc_request_read_udp 0 ?d udp_example ?u = (MMC_OK, mmc', udp')"
    by (simp add: mmc_request_read_udp_def u16_at_def MMC_MAX_UDP_LEN_def Let_def)
  show ?thesis using udp_datagram_stream [OF ok r] r un by simp
qed

text \<open>
  A stream that is closed in the middle of a line and opened again starts with the old
  bytes: disconnecting empties the read buffer but not the input buffer of the line reader,
  so the first line of the new connection is read as the continuation of the lost one.
\<close>

theorem reconnect_keeps_partial_line:
  assumes "io_ok (st_io io)" and "10 \<notin> set (io_input (st_io io))" and "10 \<notin> set line"
    and "length (io_input (st_io io)) + length line + 1 < MMC_BUFFER_SIZE"
  shows "\<exists>io'. mmc_stream_get_line (receive (st_io (connected_stream udp s fd (disconnect_stream io))) (line @ [10])) =
    (Some (io_input (st_io io) @ line @ [10]), io')"
proof -
  let ?io = "receive (st_io (connected_stream udp s fd (disconnect_stream io))) (line @ [10])"
  have "io_ok ?io" "unread ?io = line @ 10 # []" "io_input ?io = io_input (st_io io)"
    using assms(1)
    by (simp_all add: connected_stream_def disconnect_stream_def mmc_buffer_free_def receive_def unread_def io_ok_def Let_def)
  from get_line_complete [OF this(1) assms(3) this(2)] assms(4) this(3) show ?thesis by auto
qed

theorem reconnect_keeps_partial_line_witness:
  "\<exists>io'. mmc_stream_get_line (receive (st_io (connected_stream False 1 5
      (disconnect_stream (zero_stream\<lparr>st_io := \<lparr>io_buffer = \<lparr>b_value = [], b_idx = 0\<rparr>, io_input = [86, 65]\<rparr>\<rparr>)))) ([69] @ [10])) =
    (Some [86, 65, 69, 10], io')"
  using reconnect_keeps_partial_line
    [of "zero_stream\<lparr>st_io := \<lparr>io_buffer = \<lparr>b_value = [], b_idx = 0\<rparr>, io_input = [86, 65]\<rparr>\<rparr>" "[69]" False 1 5]
  by (simp add: io_ok_def MMC_BUFFER_SIZE_def)

end
