(* ===== verification/Mmc_Pool.thy ===== *)
theory Mmc_Pool
  imports Mmc_Server Mmc_Request Mmc_Key Mmc_Standard_Hash Mmc_Consistent_Hash
begin

text \<open>
  The pool of \<^verbatim>\<open>src/memcache_pool.c\<close>: its state, the choice of a server for a key with the
  failover sequence, the life of a request (allocation, cloning, scheduling, failover,
  deactivation of a server) and the scheduling of multi-gets.

  Servers and requests live in two stores indexed by their addresses. The functions of the
  code call each other in a cycle: scheduling opens a connection, a failed connection
  deactivates the server, that calls the failover handler of every request of the server,
  and a failover handler schedules again or runs a select round. Each function is therefore
  defined over the operations it calls back into (\<open>pool_ops\<close>), and the cycle is closed in
  \<open>Mmc_Select\<close> by a bound on its depth. \<open>None\<close> is a memory error, a call deeper than
  the bound, a loop that does not end or an \<^verbatim>\<open>E_ERROR\<close>, which ends the process.

  The environment gives the settings and the outcomes of system calls, in the order they
  are made: the n-th outcome is a function of n, so a statement about every environment is
  one about every behaviour of the network, the clock and the userspace callback. The clock
  advances with the system calls. \<open>e_arrived n s\<close> is all that has arrived on the stream
  \<open>s\<close> until the n-th call.
\<close>

subsection \<open>Requests, protocols, the pool\<close>

text \<open>The failover handlers the extension installs; the last one belongs to a multi-get.\<close>

datatype failover_handler =
    mmc_failover_null
  | mmc_failover_key
  | mmc_failover_value "(nat \<times> buf) list" bool

type_synonym 'u response_fun = "bool \<Rightarrow> int \<Rightarrow> buf \<Rightarrow> u32 \<Rightarrow> mmc_t \<times> 'u \<Rightarrow> int \<times> (mmc_t \<times> 'u)"
type_synonym ('d, 'o, 'u) value_fun = "buf \<Rightarrow> ('d, 'o) zval \<Rightarrow> u32 \<Rightarrow> u64 \<Rightarrow> 'u \<Rightarrow> int \<times> 'u"

text \<open>
  \<open>r_io\<close> names the stream \<^verbatim>\<open>request->io\<close> points to: the server and whether it is its udp
  stream. \<open>r_proto\<close> holds the buffers, the key and the parser state of the protocol.
\<close>

record ('d, 'o, 'u, 'p) mmc_request_t =
  r_io :: "(nat \<times> bool) option"
  r_send_idx :: nat
  r_protocol_udp :: bool
  r_failed_servers :: "nat fifo"
  r_failed_index :: nat
  r_read_udp :: bool
  r_udp :: udp_fields
  r_response :: "'u response_fun"
  r_value :: "('d, 'o, 'u) value_fun"
  r_failover :: failover_handler
  r_proto :: 'p

record ('d, 'o, 'u, 'p) mmc_protocol_t =
  pr_create :: 'p
  pr_clone :: "'p \<Rightarrow> 'p \<Rightarrow> 'p"
  pr_copy_parse :: "'p \<Rightarrow> 'p \<Rightarrow> 'p"
  pr_reset :: "'p \<Rightarrow> 'p"
  pr_begin_get :: "'p \<Rightarrow> int \<Rightarrow> 'p"
  pr_append_get :: "'p \<Rightarrow> nat \<Rightarrow> buf \<Rightarrow> 'p"
  pr_end_get :: "'p \<Rightarrow> 'p"
  pr_parse :: "('d, 'o, mmc_t \<times> 'u) mmc_handlers \<Rightarrow> 'p \<Rightarrow> mmc_io \<Rightarrow> mmc_t \<times> 'u \<Rightarrow>
                (int \<times> 'p \<times> mmc_io \<times> (mmc_t \<times> 'u)) option"
  pr_sendbuf :: "'p \<Rightarrow> buf"
  pr_set_sendbuf :: "buf \<Rightarrow> 'p \<Rightarrow> 'p"
  pr_reset_readbuf :: "'p \<Rightarrow> 'p"
  pr_key :: "'p \<Rightarrow> buf"
  pr_set_key :: "buf \<Rightarrow> 'p \<Rightarrow> 'p"

datatype hash_state =
    StandardState "nat mmc_standard_state_t"
  | ConsistentState "nat mmc_consistent_state_t"

text \<open>An entry of the array that \<^verbatim>\<open>poll\<close> gets.\<close>

record pollfd =
  pf_fd :: int
  pf_events :: u16
  pf_revents :: u16

text \<open>
  \<open>p_first\<close> says whether \<^verbatim>\<open>pool->sending\<close> and \<^verbatim>\<open>pool->reading\<close> point to the first pair of
  queues; \<open>p_calls\<close> counts the system calls made so far.
\<close>

record ('d, 'o, 'u, 'p) mmc_pool_t =
  p_mmc :: "nat \<Rightarrow> mmc_t"
  p_req :: "nat \<Rightarrow> ('d, 'o, 'u, 'p) mmc_request_t"
  p_fresh :: nat
  p_servers :: "nat list"
  p_hash_state :: hash_state
  p_timeout :: int
  p_in_select :: bool
  p_first :: bool
  p_sending1 :: "nat fifo"
  p_sending2 :: "nat fifo"
  p_reading1 :: "nat fifo"
  p_reading2 :: "nat fifo"
  p_pending :: "nat fifo"
  p_free_requests :: "nat fifo"
  p_wfds :: "int set"
  p_rfds :: "int set"
  p_select_api :: int
  p_pollfds :: "pollfd list"
  p_user :: 'u
  p_calls :: nat

record 'u mmc_env =
  g_allow_failover :: bool
  g_max_failover_attempts :: int
  g_key_prefix :: "buf option"
  e_time :: "nat \<Rightarrow> int"
  e_connect :: "nat \<Rightarrow> nat \<Rightarrow> bool \<Rightarrow> connect_result"
  e_send :: "nat \<Rightarrow> send_result"
  e_select :: "nat \<Rightarrow> int \<times> int set \<times> int set"
  e_poll :: "nat \<Rightarrow> int \<times> (nat \<Rightarrow> u16)"
  e_select_error :: "nat \<Rightarrow> buf \<times> int"
  e_datagram :: "nat \<Rightarrow> buf"
  e_arrived :: "nat \<Rightarrow> nat \<Rightarrow> buf"
  e_eof :: "nat \<Rightarrow> bool"
  e_failure_callback :: "(nat \<Rightarrow> 'u \<Rightarrow> 'u) option"
  e_has_value :: "'u \<Rightarrow> buf \<Rightarrow> bool"
  e_qsort :: "nat mmc_consistent_point_t list \<Rightarrow> nat mmc_consistent_point_t list"

definition tick :: "('d, 'o, 'u, 'p) mmc_pool_t \<Rightarrow> ('d, 'o, 'u, 'p) mmc_pool_t" where
  "tick w = w\<lparr>p_calls := p_calls w + 1\<rparr>"

definition upd_mmc :: "nat \<Rightarrow> (mmc_t \<Rightarrow> mmc_t) \<Rightarrow> ('d, 'o, 'u, 'p) mmc_pool_t \<Rightarrow> ('d, 'o, 'u, 'p) mmc_pool_t" where
  "upd_mmc m f w = w\<lparr>p_mmc := (p_mmc w)(m := f (p_mmc w m))\<rparr>"

definition upd_req ::
  "nat \<Rightarrow> (('d, 'o, 'u, 'p) mmc_request_t \<Rightarrow> ('d, 'o, 'u, 'p) mmc_request_t) \<Rightarrow> ('d, 'o, 'u, 'p) mmc_pool_t \<Rightarrow>
   ('d, 'o, 'u, 'p) mmc_pool_t" where
  "upd_req r f w = w\<lparr>p_req := (p_req w)(r := f (p_req w r))\<rparr>"

text \<open>The pair of queues that \<^verbatim>\<open>pool->sending\<close> and \<^verbatim>\<open>pool->reading\<close> are, by the flag.\<close>

definition sending :: "bool \<Rightarrow> ('d, 'o, 'u, 'p) mmc_pool_t \<Rightarrow> nat fifo" where
  "sending ph w = (if ph then p_sending1 w else p_sending2 w)"

definition reading :: "bool \<Rightarrow> ('d, 'o, 'u, 'p) mmc_pool_t \<Rightarrow> nat fifo" where
  "reading ph w = (if ph then p_reading1 w else p_reading2 w)"

definition map_sending ::
  "bool \<Rightarrow> (nat fifo \<Rightarrow> nat fifo) \<Rightarrow> ('d, 'o, 'u, 'p) mmc_pool_t \<Rightarrow> ('d, 'o, 'u, 'p) mmc_pool_t" where
  "map_sending ph f w = (if ph then w\<lparr>p_sending1 := f (p_sending1 w)\<rparr> else w\<lparr>p_sending2 := f (p_sending2 w)\<rparr>)"

definition map_reading ::
  "bool \<Rightarrow> (nat fifo \<Rightarrow> nat fifo) \<Rightarrow> ('d, 'o, 'u, 'p) mmc_pool_t \<Rightarrow> ('d, 'o, 'u, 'p) mmc_pool_t" where
  "map_reading ph f w = (if ph then w\<lparr>p_reading1 := f (p_reading1 w)\<rparr> else w\<lparr>p_reading2 := f (p_reading2 w)\<rparr>)"

definition mmc_pool_release :: "nat \<Rightarrow> ('d, 'o, 'u, 'p) mmc_pool_t \<Rightarrow> ('d, 'o, 'u, 'p) mmc_pool_t" where
  "mmc_pool_release r w = w\<lparr>p_free_requests := fq_push (p_free_requests w) r\<rparr>"

definition server_valid :: "'u mmc_env \<Rightarrow> ('d, 'o, 'u, 'p) mmc_pool_t \<Rightarrow> nat \<Rightarrow> bool" where
  "server_valid env w m = mmc_server_valid (e_time env (p_calls w)) (Some (p_mmc w m))"

type_synonym ('d, 'o, 'u, 'p) pool_result = "(int \<times> ('d, 'o, 'u, 'p) mmc_pool_t) option"

subsection \<open>The server of a key\<close>

definition find_server :: "'u mmc_env \<Rightarrow> buf \<Rightarrow> ('d, 'o, 'u, 'p) mmc_pool_t \<Rightarrow> (nat \<times> ('d, 'o, 'u, 'p) mmc_pool_t) option" where
  "find_server env key w =
     (case p_hash_state w of
        StandardState st \<Rightarrow> map_option (\<lambda>m. (m, w)) (mmc_standard_find_server st key)
      | ConsistentState st \<Rightarrow>
          map_option (\<lambda>(m, st). (m, w\<lparr>p_hash_state := ConsistentState st\<rparr>)) (mmc_consistent_find_server (e_qsort env) st key))"

text \<open>\<^verbatim>\<open>sprintf(keytmp, "%s-%d", key, index)\<close>\<close>

definition failover_key :: "buf \<Rightarrow> nat \<Rightarrow> buf" where
  "failover_key key index = c_string key @ bytes ''-'' @ dec index"

text \<open>\<open>None\<close> for the skip list is NULL. The result is the server, the new index and the pool.\<close>

function mmc_pool_find_next ::
  "'u mmc_env \<Rightarrow> buf \<Rightarrow> nat fifo option \<Rightarrow> nat \<Rightarrow> ('d, 'o, 'u, 'p) mmc_pool_t \<Rightarrow>
   (nat \<times> nat \<times> ('d, 'o, 'u, 'p) mmc_pool_t) option" where
  "mmc_pool_find_next env key skip_servers last_index w =
     do {
       (mmc, w) \<leftarrow> find_server env (failover_key key last_index) w;
       if (case skip_servers of None \<Rightarrow> False | Some q \<Rightarrow> fq_contains q mmc) \<and>
          int (last_index + 1) < g_max_failover_attempts env
       then mmc_pool_find_next env key skip_servers (last_index + 1) w
       else Some (mmc, last_index + 1, w)
     }"
  by pat_completeness auto
termination by (relation "measure (\<lambda>(env, key, skip, i, w). nat (g_max_failover_attempts env - int i))") auto

declare mmc_pool_find_next.simps [simp del]

lemma find_next_index:
  "mmc_pool_find_next env key skip i w = Some (m, j, w') \<Longrightarrow> i < j"
proof (induction env key skip i w rule: mmc_pool_find_next.induct)
  case (1 env key skip i w)
  from "1.prems" obtain m1 w1 where f: "find_server env (failover_key key i) w = Some (m1, w1)"
    by (subst (asm) mmc_pool_find_next.simps) (auto simp: bind_eq_Some_conv)
  show ?case
    using "1.IH" [OF f refl] "1.prems"
    by (subst (asm) (2) mmc_pool_find_next.simps) (auto simp: f split: if_splits)
qed

function find_valid ::
  "'u mmc_env \<Rightarrow> buf \<Rightarrow> nat \<Rightarrow> ('d, 'o, 'u, 'p) mmc_pool_t \<Rightarrow> (nat \<times> ('d, 'o, 'u, 'p) mmc_pool_t) option" where
  "find_valid env key last_index w =
     do {
       (mmc, last_index', w) \<leftarrow> mmc_pool_find_next env key None last_index w;
       if \<not> server_valid env w mmc \<and> int last_index' < g_max_failover_attempts env
       then find_valid env key last_index' w
       else Some (mmc, w)
     }"
  by pat_completeness auto
termination
  by (relation "measure (\<lambda>(env, key, i, w). nat (g_max_failover_attempts env - int i))") (auto dest!: find_next_index)

declare find_valid.simps [simp del]

definition mmc_pool_find :: "'u mmc_env \<Rightarrow> buf \<Rightarrow> ('d, 'o, 'u, 'p) mmc_pool_t \<Rightarrow> (nat \<times> ('d, 'o, 'u, 'p) mmc_pool_t) option" where
  "mmc_pool_find env key w =
     do {
       (mmc, w) \<leftarrow> find_server env key w;
       if \<not> server_valid env w mmc \<and> g_allow_failover env then find_valid env key 0 w else Some (mmc, w)
     }"

subsection \<open>Requests\<close>

definition mmc_pool_response_handler_null :: "'u response_fun" where
  "mmc_pool_response_handler_null udp response message message_len s = (MMC_REQUEST_DONE, s)"

text \<open>A request that \<^verbatim>\<open>create_request\<close> has just zeroed.\<close>

definition new_request :: "('d, 'o, 'u, 'p) mmc_protocol_t \<Rightarrow> ('d, 'o, 'u, 'p) mmc_request_t" where
  "new_request pr =
     \<lparr>r_io = None, r_send_idx = 0, r_protocol_udp = False, r_failed_servers = fq_zero, r_failed_index = 0,
      r_read_udp = False, r_udp = \<lparr>u_reqid = 0, u_seqid = 0, u_total = 0\<rparr>,
      r_response = mmc_pool_response_handler_null, r_value = (\<lambda>k v f c s. (MMC_REQUEST_DONE, s)),
      r_failover = mmc_failover_null, r_proto = pr_create pr\<rparr>"

text \<open>
  \<^verbatim>\<open>mmc_request_reset\<close>, called by the reset function of the protocol, which resets the
  fields \<open>pr_reset\<close> names.
\<close>

definition mmc_request_reset ::
  "('d, 'o, 'u, 'p) mmc_protocol_t \<Rightarrow> ('d, 'o, 'u, 'p) mmc_request_t \<Rightarrow> ('d, 'o, 'u, 'p) mmc_request_t" where
  "mmc_request_reset pr req =
     req\<lparr>r_send_idx := 0, r_failed_servers := fq_reset (r_failed_servers req), r_failed_index := 0,
         r_proto := pr_set_key pr [] (pr_set_sendbuf pr [] (pr_reset pr (r_proto req)))\<rparr>"

definition mmc_pool_request_alloc ::
  "('d, 'o, 'u, 'p) mmc_protocol_t \<Rightarrow> bool \<Rightarrow> failover_handler \<Rightarrow> ('d, 'o, 'u, 'p) mmc_pool_t \<Rightarrow>
   nat \<times> ('d, 'o, 'u, 'p) mmc_pool_t" where
  "mmc_pool_request_alloc pr udp failover w =
     (let (r, w) = (case fq_next (p_free_requests w) of
            None \<Rightarrow> (p_fresh w, (upd_req (p_fresh w) (\<lambda>_. new_request pr) w)\<lparr>p_fresh := p_fresh w + 1\<rparr>)
          | Some r \<Rightarrow> (r, upd_req r (mmc_request_reset pr) (w\<lparr>p_free_requests := fq_rest (p_free_requests w)\<rparr>)))
      in (r, upd_req r (\<lambda>req. req\<lparr>r_protocol_udp := udp,
                r_proto := (if udp then pr_set_sendbuf pr (pr_sendbuf pr (r_proto req) @ replicate 8 0) (r_proto req)
                            else r_proto req),
                r_failover := failover\<rparr>) w))"

definition mmc_pool_request ::
  "('d, 'o, 'u, 'p) mmc_protocol_t \<Rightarrow> bool \<Rightarrow> 'u response_fun \<Rightarrow> failover_handler \<Rightarrow> ('d, 'o, 'u, 'p) mmc_pool_t \<Rightarrow>
   nat \<times> ('d, 'o, 'u, 'p) mmc_pool_t" where
  "mmc_pool_request pr udp response failover w =
     (let (r, w) = mmc_pool_request_alloc pr udp failover w in (r, upd_req r (\<lambda>req. req\<lparr>r_response := response\<rparr>) w))"

definition mmc_pool_request_get ::
  "('d, 'o, 'u, 'p) mmc_protocol_t \<Rightarrow> bool \<Rightarrow> ('d, 'o, 'u) value_fun \<Rightarrow> failover_handler \<Rightarrow>
   ('d, 'o, 'u, 'p) mmc_pool_t \<Rightarrow> nat \<times> ('d, 'o, 'u, 'p) mmc_pool_t" where
  "mmc_pool_request_get pr udp value failover w =
     (let (r, w) = mmc_pool_request pr udp mmc_pool_response_handler_null failover w
      in (r, upd_req r (\<lambda>req. req\<lparr>r_value := value\<rparr>) w))"

text \<open>
  The clone may be the request itself, when that has been released before: every field is
  read after the allocation.
\<close>

definition mmc_pool_clone_request ::
  "('d, 'o, 'u, 'p) mmc_protocol_t \<Rightarrow> nat \<Rightarrow> ('d, 'o, 'u, 'p) mmc_pool_t \<Rightarrow> nat \<times> ('d, 'o, 'u, 'p) mmc_pool_t" where
  "mmc_pool_clone_request pr r w =
     (let (c, w) = mmc_pool_request_alloc pr (r_protocol_udp (p_req w r)) mmc_failover_null w;
          req = p_req w r; proto = r_proto req
      in (c, upd_req c (\<lambda>clone. clone\<lparr>r_response := r_response req, r_value := r_value req,
                r_proto := pr_clone pr
                  (pr_set_sendbuf pr (pr_sendbuf pr proto)
                    (pr_set_key pr (pr_key pr proto) (pr_copy_parse pr (r_proto clone) proto))) proto\<rparr>) w))"

subsection \<open>The operations that are called back\<close>

record ('d, 'o, 'u, 'p) pool_ops =
  op_schedule :: "nat \<Rightarrow> nat \<Rightarrow> ('d, 'o, 'u, 'p) mmc_pool_t \<Rightarrow> ('d, 'o, 'u, 'p) pool_result"
  op_select :: "('d, 'o, 'u, 'p) mmc_pool_t \<Rightarrow> ('d, 'o, 'u, 'p) mmc_pool_t option"

subsection \<open>Multi-gets\<close>

text \<open>A key of the user, by its address and its string; the result is its prepared form.\<close>

definition mmc_prepare_key :: "'u mmc_env \<Rightarrow> buf \<Rightarrow> buf option option" where
  "mmc_prepare_key env zstr =
     do {
       (status, mem, len) \<leftarrow> mmc_prepare_key_ex zstr (replicate (MMC_MAX_KEY_LEN + 1) 0) (g_key_prefix env);
       Some (if status = MMC_OK then map_option (\<lambda>n. take n mem) len else None)
     }"

text \<open>Allocating the request a server's next keys are collected in.\<close>

definition build_get ::
  "('d, 'o, 'u, 'p) mmc_protocol_t \<Rightarrow> bool \<Rightarrow> int \<Rightarrow> ('d, 'o, 'u) value_fun \<Rightarrow> failover_handler \<Rightarrow> nat option \<Rightarrow> nat \<Rightarrow>
   ('d, 'o, 'u, 'p) mmc_pool_t \<Rightarrow> ('d, 'o, 'u, 'p) mmc_pool_t" where
  "build_get pr udp op value failover failed mmc w =
     (let (r, w) = mmc_pool_request_get pr udp value failover w;
          w = upd_mmc mmc (\<lambda>m. m\<lparr>m_buildreq := Some r\<rparr>) w;
          w = (case failed of
                 None \<Rightarrow> w
               | Some f \<Rightarrow> upd_req r (\<lambda>req. req\<lparr>
                   r_failed_servers := fq_copy (r_failed_servers req) (r_failed_servers (p_req w f)),
                   r_failed_index := r_failed_index (p_req w f)\<rparr>) w)
      in upd_req r (\<lambda>req. req\<lparr>r_proto := pr_begin_get pr (r_proto req) op\<rparr>) w)"

definition append_get_key ::
  "('d, 'o, 'u, 'p) mmc_protocol_t \<Rightarrow> nat \<Rightarrow> buf \<Rightarrow> nat \<Rightarrow> ('d, 'o, 'u, 'p) mmc_pool_t \<Rightarrow> ('d, 'o, 'u, 'p) pool_result" where
  "append_get_key pr zkey key mmc w =
     do {
       r \<leftarrow> m_buildreq (p_mmc w mmc);
       Some (MMC_OK, upd_req r (\<lambda>req. req\<lparr>r_proto := pr_append_get pr (r_proto req) zkey key\<rparr>) w)
     }"

definition mmc_pool_schedule_get ::
  "('d, 'o, 'u, 'p) pool_ops \<Rightarrow> 'u mmc_env \<Rightarrow> ('d, 'o, 'u, 'p) mmc_protocol_t \<Rightarrow> bool \<Rightarrow> int \<Rightarrow> nat \<times> buf \<Rightarrow>
   ('d, 'o, 'u) value_fun \<Rightarrow> failover_handler \<Rightarrow> nat option \<Rightarrow> ('d, 'o, 'u, 'p) mmc_pool_t \<Rightarrow> ('d, 'o, 'u, 'p) pool_result" where
  "mmc_pool_schedule_get ops env pr udp op zkey value failover failed w =
     do {
       prepared \<leftarrow> mmc_prepare_key env (snd zkey);
       case prepared of
         None \<Rightarrow> Some (MMC_REQUEST_FAILURE, w)
       | Some key \<Rightarrow>
           do {
             (mmc, w) \<leftarrow> mmc_pool_find env key w;
             if \<not> server_valid env w mmc then Some (MMC_REQUEST_FAILURE, w)
             else
               case m_buildreq (p_mmc w mmc) of
                 None \<Rightarrow>
                   append_get_key pr (fst zkey) key mmc
                     (build_get pr udp op value failover failed mmc (w\<lparr>p_pending := fq_push (p_pending w) mmc\<rparr>))
               | Some b \<Rightarrow>
                   if udp \<and> length (pr_sendbuf pr (r_proto (p_req w b))) + length key + 3 > MMC_MAX_UDP_LEN then
                     do {
                       (_, w) \<leftarrow> op_schedule ops mmc b (upd_req b (\<lambda>req. req\<lparr>r_proto := pr_end_get pr (r_proto req)\<rparr>) w);
                       w \<leftarrow> op_select ops w;
                       append_get_key pr (fst zkey) key mmc (build_get pr udp op value failover failed mmc w)
                     }
                   else append_get_key pr (fst zkey) key mmc w
           }
     }"

subsection \<open>Failover\<close>

text \<open>
  The loop of \<^verbatim>\<open>mmc_pool_failover_handler\<close>: the failed server joins the request's list and
  the next candidate of the sequence is probed.
\<close>

function failover_probe ::
  "'u mmc_env \<Rightarrow> buf \<Rightarrow> nat \<Rightarrow> nat fifo \<Rightarrow> nat \<Rightarrow> ('d, 'o, 'u, 'p) mmc_pool_t \<Rightarrow>
   (nat \<times> nat fifo \<times> nat \<times> ('d, 'o, 'u, 'p) mmc_pool_t) option" where
  "failover_probe env key mmc failed_servers failed_index w =
     do {
       let failed_servers = fq_push failed_servers mmc;
       (mmc, failed_index', w) \<leftarrow> mmc_pool_find_next env key (Some failed_servers) failed_index w;
       if \<not> server_valid env w mmc \<and> int failed_index' < g_max_failover_attempts env \<and>
          fq_len failed_servers < length (p_servers w)
       then failover_probe env key mmc failed_servers failed_index' w
       else Some (mmc, failed_servers, failed_index', w)
     }"
  by pat_completeness auto
termination
  by (relation "measure (\<lambda>(env, key, m, fs, i, w). nat (g_max_failover_attempts env - int i))")
    (auto dest!: find_next_index)

declare failover_probe.simps [simp del]

definition mmc_pool_failover_handler ::
  "('d, 'o, 'u, 'p) pool_ops \<Rightarrow> 'u mmc_env \<Rightarrow> ('d, 'o, 'u, 'p) mmc_protocol_t \<Rightarrow> nat \<Rightarrow> nat \<Rightarrow>
   ('d, 'o, 'u, 'p) mmc_pool_t \<Rightarrow> ('d, 'o, 'u, 'p) pool_result" where
  "mmc_pool_failover_handler ops env pr mmc r w =
     (let req = p_req w r in
      if g_allow_failover env \<and> int (r_failed_index req) < g_max_failover_attempts env \<and>
         fq_len (r_failed_servers req) < length (p_servers w)
      then do {
        (mmc, failed_servers, failed_index, w) \<leftarrow>
          failover_probe env (pr_key pr (r_proto req)) mmc (r_failed_servers req) (r_failed_index req) w;
        op_schedule ops mmc r
          (upd_req r (\<lambda>req. req\<lparr>r_failed_servers := failed_servers, r_failed_index := failed_index\<rparr>) w)
      }
      else Some (MMC_REQUEST_FAILURE, mmc_pool_release r w))"

definition mmc_pool_failover_handler_null :: "nat \<Rightarrow> ('d, 'o, 'u, 'p) mmc_pool_t \<Rightarrow> ('d, 'o, 'u, 'p) pool_result" where
  "mmc_pool_failover_handler_null r w = Some (MMC_REQUEST_FAILURE, mmc_pool_release r w)"

text \<open>\<^verbatim>\<open>mmc_value_failover_handler\<close> of \<^verbatim>\<open>src/memcache.c\<close>: the keys without a value are scheduled again.\<close>

fun reschedule_keys ::
  "('d, 'o, 'u, 'p) pool_ops \<Rightarrow> 'u mmc_env \<Rightarrow> ('d, 'o, 'u, 'p) mmc_protocol_t \<Rightarrow> bool \<Rightarrow> (nat \<times> buf) list \<Rightarrow> nat \<Rightarrow>
   ('d, 'o, 'u, 'p) mmc_pool_t \<Rightarrow> ('d, 'o, 'u, 'p) mmc_pool_t option" where
  "reschedule_keys ops env pr want_cas [] r w = Some w"
| "reschedule_keys ops env pr want_cas (key # keys) r w =
     (if \<not> e_has_value env (p_user w) (snd key) then
        do {
          (_, w) \<leftarrow> mmc_pool_schedule_get ops env pr True (if want_cas then MMC_OP_GETS else MMC_OP_GET) key
                      (r_value (p_req w r)) (r_failover (p_req w r)) (Some r) w;
          reschedule_keys ops env pr want_cas keys r w
        }
      else reschedule_keys ops env pr want_cas keys r w)"

definition mmc_value_failover_handler ::
  "('d, 'o, 'u, 'p) pool_ops \<Rightarrow> 'u mmc_env \<Rightarrow> ('d, 'o, 'u, 'p) mmc_protocol_t \<Rightarrow> (nat \<times> buf) list \<Rightarrow> bool \<Rightarrow> nat \<Rightarrow>
   ('d, 'o, 'u, 'p) mmc_pool_t \<Rightarrow> ('d, 'o, 'u, 'p) pool_result" where
  "mmc_value_failover_handler ops env pr keys want_cas r w =
     (if \<not> g_allow_failover env \<or> int (fq_len (r_failed_servers (p_req w r))) \<ge> g_max_failover_attempts env
      then Some (MMC_REQUEST_FAILURE, mmc_pool_release r w)
      else do {
        w \<leftarrow> reschedule_keys ops env pr want_cas keys r w;
        Some (MMC_OK, mmc_pool_release r w)
      })"

text \<open>\<^verbatim>\<open>request->failover_handler(pool, mmc, request, ...)\<close>\<close>

definition call_failover ::
  "('d, 'o, 'u, 'p) pool_ops \<Rightarrow> 'u mmc_env \<Rightarrow> ('d, 'o, 'u, 'p) mmc_protocol_t \<Rightarrow> nat \<Rightarrow> nat \<Rightarrow>
   ('d, 'o, 'u, 'p) mmc_pool_t \<Rightarrow> ('d, 'o, 'u, 'p) pool_result" where
  "call_failover ops env pr mmc r w =
     (case r_failover (p_req w r) of
        mmc_failover_null \<Rightarrow> mmc_pool_failover_handler_null r w
      | mmc_failover_key \<Rightarrow> mmc_pool_failover_handler ops env pr mmc r w
      | mmc_failover_value keys want_cas \<Rightarrow> mmc_value_failover_handler ops env pr keys want_cas r w)"

subsection \<open>Deactivating and connecting a server\<close>

fun failover_all ::
  "('d, 'o, 'u, 'p) pool_ops \<Rightarrow> 'u mmc_env \<Rightarrow> ('d, 'o, 'u, 'p) mmc_protocol_t \<Rightarrow> nat \<Rightarrow> nat list \<Rightarrow>
   ('d, 'o, 'u, 'p) mmc_pool_t \<Rightarrow> ('d, 'o, 'u, 'p) mmc_pool_t option" where
  "failover_all ops env pr mmc [] w = Some w"
| "failover_all ops env pr mmc (r # rs) w =
     do { (_, w) \<leftarrow> call_failover ops env pr mmc r w; failover_all ops env pr mmc rs w }"

text \<open>The requests of a server that is taken down, in the order they are failed over.\<close>

definition deactivated_requests :: "mmc_t \<Rightarrow> nat fifo" where
  "deactivated_requests mmc =
     (let q = m_readqueue mmc;
          q = (case m_readreq mmc of None \<Rightarrow> q | Some r \<Rightarrow> fq_push q r)
      in case m_buildreq mmc of None \<Rightarrow> q | Some r \<Rightarrow> fq_push q r)"

definition failed_stream :: "int \<Rightarrow> mmc_stream_t \<Rightarrow> mmc_stream_t" where
  "failed_stream time io = (disconnect_stream io)\<lparr>st_status := MMC_STATUS_FAILED, st_failed := time\<rparr>"

definition mark_failed :: "int \<Rightarrow> mmc_t \<Rightarrow> mmc_t" where
  "mark_failed time mmc =
     mmc\<lparr>m_tcp := failed_stream time (m_tcp mmc), m_udp := failed_stream time (m_udp mmc),
         m_sendqueue := fq_reset (m_sendqueue mmc), m_sendreq := None,
         m_readqueue := fq_zero, m_readreq := None, m_buildreq := None\<rparr>"

text \<open>Everything up to the failover handlers: the server is down and owns no request.\<close>

definition take_down :: "'u mmc_env \<Rightarrow> nat \<Rightarrow> ('d, 'o, 'u, 'p) mmc_pool_t \<Rightarrow> ('d, 'o, 'u, 'p) mmc_pool_t" where
  "take_down env mmc w =
     upd_mmc mmc (mark_failed (e_time env (p_calls w)))
       (map_reading (p_first w) (\<lambda>q. fq_remove q mmc) (map_sending (p_first w) (\<lambda>q. fq_remove q mmc) w))"

definition mmc_server_deactivate ::
  "('d, 'o, 'u, 'p) pool_ops \<Rightarrow> 'u mmc_env \<Rightarrow> ('d, 'o, 'u, 'p) mmc_protocol_t \<Rightarrow> nat \<Rightarrow>
   ('d, 'o, 'u, 'p) mmc_pool_t \<Rightarrow> ('d, 'o, 'u, 'p) mmc_pool_t option" where
  "mmc_server_deactivate ops env pr mmc w =
     do {
       w \<leftarrow> failover_all ops env pr mmc (fq_list (deactivated_requests (p_mmc w mmc))) (take_down env mmc w);
       Some (case e_failure_callback env of
               None \<Rightarrow> w
             | Some callback \<Rightarrow> tick (w\<lparr>p_user := callback mmc (p_user w)\<rparr>))
     }"

definition FD_SETSIZE :: int where [mmc_consts]: "FD_SETSIZE = 1024"

definition mmc_server_connect ::
  "('d, 'o, 'u, 'p) pool_ops \<Rightarrow> 'u mmc_env \<Rightarrow> ('d, 'o, 'u, 'p) mmc_protocol_t \<Rightarrow> nat \<Rightarrow> bool \<Rightarrow>
   ('d, 'o, 'u, 'p) mmc_pool_t \<Rightarrow> ('d, 'o, 'u, 'p) pool_result" where
  "mmc_server_connect ops env pr mmc udp w =
     (let w = (if st_stream (stream_of udp (p_mmc w mmc)) \<noteq> None then upd_mmc mmc (mmc_server_disconnect udp) w else w) in
      case e_connect env (p_calls w) mmc udp of
        NotConnected errstr errnum \<Rightarrow>
          do {
            w \<leftarrow> mmc_server_deactivate ops env pr mmc (upd_mmc mmc (\<lambda>m. connect_error m errstr errnum) (tick w));
            Some (MMC_REQUEST_FAILURE, w)
          }
      | Connected stream fd \<Rightarrow>
          if fd \<ge> FD_SETSIZE then None
          else Some (MMC_OK, upd_mmc mmc (\<lambda>m. (map_stream udp (connected_stream udp stream fd) m)\<lparr>m_error := None\<rparr>) (tick w)))"

definition mmc_pool_open ::
  "('d, 'o, 'u, 'p) pool_ops \<Rightarrow> 'u mmc_env \<Rightarrow> ('d, 'o, 'u, 'p) mmc_protocol_t \<Rightarrow> nat \<Rightarrow> bool \<Rightarrow>
   ('d, 'o, 'u, 'p) mmc_pool_t \<Rightarrow> ('d, 'o, 'u, 'p) pool_result" where
  "mmc_pool_open ops env pr mmc udp w =
     (let status = st_status (stream_of udp (p_mmc w mmc)) in
      if status = MMC_STATUS_CONNECTED \<or> status = MMC_STATUS_UNKNOWN then Some (MMC_OK, w)
      else if status = MMC_STATUS_DISCONNECTED \<or> status = MMC_STATUS_FAILED then mmc_server_connect ops env pr mmc udp w
      else Some (MMC_REQUEST_FAILURE, w))"

subsection \<open>Scheduling\<close>

text \<open>The request id and the number of datagrams are written over the header in the send buffer.\<close>

definition udp_header :: "u16 \<Rightarrow> buf \<Rightarrow> buf" where
  "udp_header reqid sendbuf =
     sendbuf[0 := word_of_nat (unat reqid div 256), 1 := word_of_nat (unat reqid mod 256), 4 := 0, 5 := 1]"

definition slot_udp ::
  "('d, 'o, 'u, 'p) mmc_protocol_t \<Rightarrow> nat \<Rightarrow> nat \<Rightarrow> ('d, 'o, 'u, 'p) mmc_pool_t \<Rightarrow> ('d, 'o, 'u, 'p) mmc_pool_t" where
  "slot_udp pr mmc r w =
     (let reqid = m_reqid (p_mmc w mmc) in
      upd_mmc mmc (\<lambda>m. m\<lparr>m_reqid := reqid + 1\<rparr>)
        (upd_req r (\<lambda>req. req\<lparr>r_io := Some (mmc, True), r_read_udp := True,
             r_udp := \<lparr>u_reqid = reqid, u_seqid = 0, u_total = 0\<rparr>,
             r_proto := pr_set_sendbuf pr (udp_header reqid (pr_sendbuf pr (r_proto req))) (r_proto req)\<rparr>) w))"

definition slot_tcp :: "nat \<Rightarrow> nat \<Rightarrow> ('d, 'o, 'u, 'p) mmc_pool_t \<Rightarrow> ('d, 'o, 'u, 'p) mmc_pool_t" where
  "slot_tcp mmc r w =
     upd_req r (\<lambda>req. req\<lparr>r_send_idx := (if r_protocol_udp req then r_send_idx req + 8 else r_send_idx req),
                          r_io := Some (mmc, False), r_read_udp := False\<rparr>) w"

definition set_sendreq :: "nat \<Rightarrow> nat option \<Rightarrow> ('d, 'o, 'u, 'p) mmc_pool_t \<Rightarrow> ('d, 'o, 'u, 'p) mmc_pool_t" where
  "set_sendreq mmc r w = upd_mmc mmc (\<lambda>m. m\<lparr>m_sendreq := r\<rparr>) w"

definition set_readreq :: "nat \<Rightarrow> nat option \<Rightarrow> ('d, 'o, 'u, 'p) mmc_pool_t \<Rightarrow> ('d, 'o, 'u, 'p) mmc_pool_t" where
  "set_readreq mmc r w = upd_mmc mmc (\<lambda>m. m\<lparr>m_readreq := r\<rparr>) w"

definition mmc_pool_slot_send ::
  "('d, 'o, 'u, 'p) pool_ops \<Rightarrow> 'u mmc_env \<Rightarrow> ('d, 'o, 'u, 'p) mmc_protocol_t \<Rightarrow> nat \<Rightarrow> nat option \<Rightarrow> bool \<Rightarrow>
   ('d, 'o, 'u, 'p) mmc_pool_t \<Rightarrow> ('d, 'o, 'u, 'p) pool_result" where
  "mmc_pool_slot_send ops env pr mmc request handle_failover w =
     (case request of
        None \<Rightarrow> Some (MMC_OK, set_sendreq mmc None w)
      | Some r \<Rightarrow>
          do {
            (udp, w) \<leftarrow>
              (if r_protocol_udp (p_req w r) \<and> st_port (m_udp (p_mmc w mmc)) \<noteq> 0 \<and>
                  int (length (pr_sendbuf pr (r_proto (p_req w r)))) \<le> st_chunk_size (m_udp (p_mmc w mmc))
               then mmc_pool_open ops env pr mmc True w else Some (MMC_REQUEST_FAILURE, w));
            if udp = MMC_OK then Some (MMC_OK, set_sendreq mmc (Some r) (slot_udp pr mmc r w))
            else do {
              (tcp, w) \<leftarrow> mmc_pool_open ops env pr mmc False w;
              if tcp = MMC_OK then Some (MMC_OK, set_sendreq mmc (Some r) (slot_tcp mmc r w))
              else
                let w = set_sendreq mmc None w in
                if handle_failover then call_failover ops env pr mmc r w else Some (MMC_REQUEST_FAILURE, w)
            }
          })"

text \<open>The read slot, at the end of \<^verbatim>\<open>mmc_pool_schedule\<close>.\<close>

definition schedule_read :: "nat \<Rightarrow> nat \<Rightarrow> ('d, 'o, 'u, 'p) mmc_pool_t \<Rightarrow> ('d, 'o, 'u, 'p) mmc_pool_t" where
  "schedule_read mmc r w =
     (if m_readreq (p_mmc w mmc) = None
      then map_reading (p_first w) (\<lambda>q. fq_push q mmc) (set_readreq mmc (Some r) w)
      else upd_mmc mmc (\<lambda>m. m\<lparr>m_readqueue := fq_push (m_readqueue m) r\<rparr>) w)"

definition mmc_pool_schedule ::
  "('d, 'o, 'u, 'p) pool_ops \<Rightarrow> 'u mmc_env \<Rightarrow> ('d, 'o, 'u, 'p) mmc_protocol_t \<Rightarrow> nat \<Rightarrow> nat \<Rightarrow>
   ('d, 'o, 'u, 'p) mmc_pool_t \<Rightarrow> ('d, 'o, 'u, 'p) pool_result" where
  "mmc_pool_schedule ops env pr mmc r w =
     (if \<not> server_valid env w mmc then call_failover ops env pr mmc r w
      else
        let w = upd_req r (\<lambda>req. req\<lparr>r_send_idx := 0, r_proto := pr_reset_readbuf pr (r_proto req)\<rparr>) w in
        if m_sendreq (p_mmc w mmc) = None then
          do {
            (result, w) \<leftarrow> mmc_pool_slot_send ops env pr mmc (Some r) False w;
            if result \<noteq> MMC_OK then call_failover ops env pr mmc r w
            else Some (MMC_OK, schedule_read mmc r (map_sending (p_first w) (\<lambda>q. fq_push q mmc) w))
          }
        else
          Some (MMC_OK, schedule_read mmc r (upd_mmc mmc (\<lambda>m. m\<lparr>m_sendqueue := fq_push (m_sendqueue m) r\<rparr>) w)))"

text \<open>The further servers of a redundant request.\<close>

fun schedule_clones ::
  "('d, 'o, 'u, 'p) pool_ops \<Rightarrow> 'u mmc_env \<Rightarrow> ('d, 'o, 'u, 'p) mmc_protocol_t \<Rightarrow> buf \<Rightarrow> nat \<Rightarrow> nat \<Rightarrow> nat \<Rightarrow> nat fifo \<Rightarrow>
   nat \<Rightarrow> ('d, 'o, 'u, 'p) mmc_pool_t \<Rightarrow> ('d, 'o, 'u, 'p) mmc_pool_t option" where
  "schedule_clones ops env pr key r 0 mmc skip_servers last_index w = Some w"
| "schedule_clones ops env pr key r (Suc n) mmc skip_servers last_index w =
     do {
       let skip_servers = fq_push skip_servers mmc;
       (mmc, last_index, w) \<leftarrow> mmc_pool_find_next env key (Some skip_servers) last_index w;
       w \<leftarrow> (if server_valid env w mmc then
               (let (c, w) = mmc_pool_clone_request pr r w in map_option snd (op_schedule ops mmc c w))
             else Some w);
       schedule_clones ops env pr key r n mmc skip_servers last_index w
     }"

definition mmc_pool_schedule_key ::
  "('d, 'o, 'u, 'p) pool_ops \<Rightarrow> 'u mmc_env \<Rightarrow> ('d, 'o, 'u, 'p) mmc_protocol_t \<Rightarrow> buf \<Rightarrow> nat \<Rightarrow> nat \<Rightarrow>
   ('d, 'o, 'u, 'p) mmc_pool_t \<Rightarrow> ('d, 'o, 'u, 'p) pool_result" where
  "mmc_pool_schedule_key ops env pr key r redundancy w =
     (if redundancy > 1 then
        do {
          (mmc, w) \<leftarrow> mmc_pool_find env key w;
          (result, w) \<leftarrow> op_schedule ops mmc r w;
          w \<leftarrow> schedule_clones ops env pr key r (min (redundancy - 1) (length (p_servers w) - 1)) mmc fq_zero 0 w;
          Some (result, w)
        }
      else do {
        (mmc, w) \<leftarrow> mmc_pool_find env key w;
        op_schedule ops mmc r w
      })"

subsection \<open>The pool itself\<close>

text \<open>The settings of the module the pool is created with.\<close>

record pool_settings =
  gs_hash_strategy :: int
  gs_hash_function :: int
  gs_crc_step :: "u32 \<Rightarrow> u8 \<Rightarrow> u32"
  gs_select_api :: int

definition MMC_STANDARD_HASH :: int where [mmc_consts]: "MMC_STANDARD_HASH = 1"
definition MMC_CONSISTENT_HASH :: int where [mmc_consts]: "MMC_CONSISTENT_HASH = 2"
definition MMC_API_SELECT :: int where [mmc_consts]: "MMC_API_SELECT = 1"
definition MMC_API_POLL :: int where [mmc_consts]: "MMC_API_POLL = 2"
definition MMC_HASH_CRC32 :: int where [mmc_consts]: "MMC_HASH_CRC32 = 1"
definition MMC_HASH_FNV1A :: int where [mmc_consts]: "MMC_HASH_FNV1A = 2"

definition mmc_pool_init_hash :: "pool_settings \<Rightarrow> hash_state" where
  "mmc_pool_init_hash gs =
     (let hash = (if gs_hash_function gs = MMC_HASH_FNV1A then mmc_hash_fnv1a else mmc_hash_crc32 (gs_crc_step gs))
      in if gs_hash_strategy gs = MMC_CONSISTENT_HASH then ConsistentState (mmc_consistent_create_state hash)
         else StandardState (mmc_standard_create_state hash))"

definition mmc_pool_new ::
  "pool_settings \<Rightarrow> (nat \<Rightarrow> mmc_t) \<Rightarrow> (nat \<Rightarrow> ('d, 'o, 'u, 'p) mmc_request_t) \<Rightarrow> 'u \<Rightarrow> ('d, 'o, 'u, 'p) mmc_pool_t" where
  "mmc_pool_new gs mmcs reqs user =
     \<lparr>p_mmc = mmcs, p_req = reqs, p_fresh = 0, p_servers = [], p_hash_state = mmc_pool_init_hash gs, p_timeout = 0,
      p_in_select = False, p_first = True, p_sending1 = fq_zero, p_sending2 = fq_zero, p_reading1 = fq_zero,
      p_reading2 = fq_zero, p_pending = fq_zero, p_free_requests = fq_zero, p_wfds = {}, p_rfds = {},
      p_select_api = gs_select_api gs, p_pollfds = [], p_user = user,
      p_calls = 0\<rparr>"

definition hash_add_server :: "nat \<Rightarrow> mmc_t \<Rightarrow> u32 \<Rightarrow> hash_state \<Rightarrow> hash_state option" where
  "hash_add_server mmc server weight hs =
     (case hs of
        StandardState st \<Rightarrow> Some (StandardState (mmc_standard_add_server st mmc (unat weight)))
      | ConsistentState st \<Rightarrow>
          map_option ConsistentState
            (mmc_consistent_add_server st mmc (m_host server) (word_of_nat (st_port (m_tcp server))) weight))"

definition mmc_pool_add :: "nat \<Rightarrow> u32 \<Rightarrow> ('d, 'o, 'u, 'p) mmc_pool_t \<Rightarrow> ('d, 'o, 'u, 'p) mmc_pool_t option" where
  "mmc_pool_add mmc weight w =
     do {
       hs \<leftarrow> hash_add_server mmc (p_mmc w mmc) weight (p_hash_state w);
       Some (w\<lparr>p_hash_state := hs, p_servers := p_servers w @ [mmc],
               p_timeout := (if p_servers w = [] \<or> m_timeout (p_mmc w mmc) < p_timeout w
                             then m_timeout (p_mmc w mmc) else p_timeout w)\<rparr>)
     }"

text \<open>
  \<^verbatim>\<open>mmc_pool_close\<close>: persistent servers go to sleep; the memory of the others is given back,
  so what their names stand for afterwards does not matter.
\<close>

definition mmc_pool_close :: "pool_settings \<Rightarrow> ('d, 'o, 'u, 'p) mmc_pool_t \<Rightarrow> ('d, 'o, 'u, 'p) mmc_pool_t" where
  "mmc_pool_close gs w =
     (if p_servers w = [] then w
      else w\<lparr>p_mmc := (\<lambda>m. if m \<in> set (p_servers w) then mmc_server_sleep (p_mmc w m) else p_mmc w m),
             p_servers := [], p_hash_state := mmc_pool_init_hash gs\<rparr>)"

end
