(* ===== verification/Mmc_Pool_Find.thy ===== *)
theory Mmc_Pool_Find
  imports Mmc_Pool
begin

text \<open>
  Which server a key goes to: the pool's view of a hash strategy as an instance of the
  interface \<open>hash_strategy\<close>, and on top of it what \<^verbatim>\<open>mmc_pool_find_next\<close> and
  \<^verbatim>\<open>mmc_pool_find\<close> of \<^verbatim>\<open>src/memcache_pool.c\<close> return.
\<close>

subsection \<open>The strategy of a pool\<close>

definition hash_usable :: "'u mmc_env \<Rightarrow> hash_state \<Rightarrow> bool" where
  "hash_usable env hs =
     (case hs of StandardState st \<Rightarrow> standard_usable st | ConsistentState st \<Rightarrow> consistent_usable (e_qsort env) st)"

definition hash_owner :: "'u mmc_env \<Rightarrow> hash_state \<Rightarrow> buf \<Rightarrow> nat" where
  "hash_owner env hs key =
     (case hs of StandardState st \<Rightarrow> standard_owner st key | ConsistentState st \<Rightarrow> consistent_server (e_qsort env) st key)"

definition pool_usable :: "'u mmc_env \<Rightarrow> ('d, 'o, 'u, 'p) mmc_pool_t \<Rightarrow> bool" where
  "pool_usable env w = hash_usable env (p_hash_state w)"

definition key_owner :: "'u mmc_env \<Rightarrow> ('d, 'o, 'u, 'p) mmc_pool_t \<Rightarrow> buf \<Rightarrow> nat" where
  "key_owner env w = hash_owner env (p_hash_state w)"

text \<open>Pools that differ in the cached part of the hash state only.\<close>

definition same_pool :: "'u mmc_env \<Rightarrow> ('d, 'o, 'u, 'p) mmc_pool_t \<Rightarrow> ('d, 'o, 'u, 'p) mmc_pool_t \<Rightarrow> bool" where
  "same_pool env w w' \<longleftrightarrow> w' = w\<lparr>p_hash_state := p_hash_state w'\<rparr> \<and> pool_usable env w' \<and>
     (\<forall>key. key_owner env w' key = key_owner env w key)"

lemma same_pool_refl: "pool_usable env w \<Longrightarrow> same_pool env w w"
  by (simp add: same_pool_def)

lemma same_pool_trans: "same_pool env w w1 \<Longrightarrow> same_pool env w1 w2 \<Longrightarrow> same_pool env w w2"
  unfolding same_pool_def by (metis mmc_pool_t.update_convs(5) mmc_pool_t.surjective)

lemma same_pool_simps:
  assumes "same_pool env w w'"
  shows "p_mmc w' = p_mmc w" "p_calls w' = p_calls w" "p_req w' = p_req w" "p_servers w' = p_servers w"
    "server_valid env w' = server_valid env w" "pool_usable env w'" "key_owner env w' = key_owner env w"
proof -
  have w': "w' = w\<lparr>p_hash_state := p_hash_state w'\<rparr>" using assms by (simp add: same_pool_def)
  show eq: "p_mmc w' = p_mmc w" "p_calls w' = p_calls w" "p_req w' = p_req w" "p_servers w' = p_servers w"
    by (subst w', simp)+
  show "server_valid env w' = server_valid env w" by (rule ext) (simp add: server_valid_def eq)
  show "pool_usable env w'" "key_owner env w' = key_owner env w" using assms by (auto simp: same_pool_def)
qed

lemma find_server_owner:
  assumes "pool_usable env w"
  shows "\<exists>w'. find_server env key w = Some (key_owner env w key, w') \<and> same_pool env w w'"
proof (cases "p_hash_state w")
  case (StandardState st)
  then show ?thesis
    using assms standard.find_owner [of st key]
    by (auto simp: pool_usable_def hash_usable_def find_server_def key_owner_def hash_owner_def same_pool_def)
next
  case (ConsistentState st)
  then have "consistent_usable (e_qsort env) st" using assms by (simp add: pool_usable_def hash_usable_def)
  from consistent.find_owner [OF this, of key] show ?thesis
    using ConsistentState
    by (auto simp: pool_usable_def hash_usable_def find_server_def key_owner_def hash_owner_def same_pool_def)
qed

interpretation pool_hash: hash_strategy "\<lambda>w key. find_server env key w" "pool_usable env" "key_owner env" for env
proof unfold_locales
  fix w :: "('a, 'b, 'c, 'd) mmc_pool_t" and key assume "pool_usable env w"
  from find_server_owner [OF this, of key] show "\<exists>w'. find_server env key w = Some (key_owner env w key, w') \<and>
      pool_usable env w' \<and> (\<forall>k. key_owner env w' k = key_owner env w k)"
    by (auto simp: same_pool_def)
qed

text \<open>The failover sequence of a key: the owners of \<^verbatim>\<open>key-0\<close>, \<^verbatim>\<open>key-1\<close>, and so on.\<close>

definition candidate :: "'u mmc_env \<Rightarrow> ('d, 'o, 'u, 'p) mmc_pool_t \<Rightarrow> buf \<Rightarrow> nat \<Rightarrow> nat" where
  "candidate env w key i = key_owner env w (failover_key key i)"

definition skipped :: "nat fifo option \<Rightarrow> nat \<Rightarrow> bool" where
  "skipped skip m = (case skip of None \<Rightarrow> False | Some q \<Rightarrow> m \<in> set (fq_list q))"

lemma find_next_candidate:
  assumes "pool_usable env w"
  shows "\<exists>k w'. mmc_pool_find_next env key skip i w = Some (candidate env w key k, k + 1, w') \<and> same_pool env w w' \<and>
    i \<le> k \<and> (\<forall>l. i \<le> l \<and> l < k \<longrightarrow> skipped skip (candidate env w key l)) \<and>
    (\<not> skipped skip (candidate env w key k) \<or> g_max_failover_attempts env \<le> int k + 1) \<and>
    (k = i \<or> int k < g_max_failover_attempts env)"
  using assms
proof (induction "nat (g_max_failover_attempts env - int i)" arbitrary: i w rule: less_induct)
  case less
  obtain w1 where f: "find_server env (failover_key key i) w = Some (candidate env w key i, w1)" "same_pool env w w1"
    using find_server_owner [OF less.prems] unfolding candidate_def by blast
  have cand: "candidate env w1 key = candidate env w key"
    using same_pool_simps(7) [OF f(2)] by (simp add: candidate_def fun_eq_iff)
  show ?case
  proof (cases "skipped skip (candidate env w key i) \<and> int (i + 1) < g_max_failover_attempts env")
    case True
    have m: "nat (g_max_failover_attempts env - int (i + 1)) < nat (g_max_failover_attempts env - int i)"
      using True by linarith
    obtain k w' where r: "mmc_pool_find_next env key skip (i + 1) w1 = Some (candidate env w key k, k + 1, w')"
      "same_pool env w1 w'" "i + 1 \<le> k" "\<forall>l. i + 1 \<le> l \<and> l < k \<longrightarrow> skipped skip (candidate env w key l)"
      "\<not> skipped skip (candidate env w key k) \<or> g_max_failover_attempts env \<le> int k + 1"
      "k = i + 1 \<or> int k < g_max_failover_attempts env"
      using less.hyps [OF m same_pool_simps(6) [OF f(2)]] unfolding cand by blast
    have "mmc_pool_find_next env key skip i w = mmc_pool_find_next env key skip (i + 1) w1"
      using f(1) True by (subst mmc_pool_find_next.simps) (simp add: skipped_def split: option.splits)
    moreover have "\<forall>l. i \<le> l \<and> l < k \<longrightarrow> skipped skip (candidate env w key l)"
      using True r(4) by (metis Suc_eq_plus1 Suc_leI le_neq_implies_less)
    ultimately show ?thesis
      using r same_pool_trans [OF f(2) r(2)] True by (intro exI [of _ k] exI [of _ w']) auto
  next
    case False
    then have "mmc_pool_find_next env key skip i w = Some (candidate env w key i, i + 1, w1)"
      using f(1) by (subst mmc_pool_find_next.simps) (auto simp: skipped_def split: option.splits)
    then show ?thesis using f(2) False by (intro exI [of _ i] exI [of _ w1]) auto
  qed
qed

lemma find_valid_candidate:
  assumes "pool_usable env w"
  shows "\<exists>k w'. find_valid env key i w = Some (candidate env w key k, w') \<and> same_pool env w w' \<and> i \<le> k \<and>
    (\<forall>l. i \<le> l \<and> l < k \<longrightarrow> \<not> server_valid env w (candidate env w key l)) \<and>
    (server_valid env w (candidate env w key k) \<or> g_max_failover_attempts env \<le> int k + 1) \<and>
    (k = i \<or> int k < g_max_failover_attempts env)"
  using assms
proof (induction "nat (g_max_failover_attempts env - int i)" arbitrary: i w rule: less_induct)
  case less
  from find_next_candidate [OF less.prems, of key None i] obtain w1 where
    f: "mmc_pool_find_next env key None i w = Some (candidate env w key i, i + 1, w1)" "same_pool env w w1"
    unfolding skipped_def by (metis le_eq_less_or_eq order_refl option.case(1))
  note s = same_pool_simps [OF f(2)]
  have cand: "candidate env w1 key = candidate env w key" by (simp add: candidate_def fun_eq_iff s)
  show ?case
  proof (cases "\<not> server_valid env w (candidate env w key i) \<and> int (i + 1) < g_max_failover_attempts env")
    case True
    have m: "nat (g_max_failover_attempts env - int (i + 1)) < nat (g_max_failover_attempts env - int i)"
      using True by linarith
    obtain k w' where r: "find_valid env key (i + 1) w1 = Some (candidate env w key k, w')"
      "same_pool env w1 w'" "i + 1 \<le> k" "\<forall>l. i + 1 \<le> l \<and> l < k \<longrightarrow> \<not> server_valid env w (candidate env w key l)"
      "server_valid env w (candidate env w key k) \<or> g_max_failover_attempts env \<le> int k + 1"
      "k = i + 1 \<or> int k < g_max_failover_attempts env"
      using less.hyps [OF m s(6)] unfolding cand s(5) by blast
    have "find_valid env key i w = find_valid env key (i + 1) w1"
      using f(1) True by (subst find_valid.simps) (simp add: s(5))
    moreover have "\<forall>l. i \<le> l \<and> l < k \<longrightarrow> \<not> server_valid env w (candidate env w key l)"
      using True r(4) by (metis Suc_eq_plus1 Suc_leI le_neq_implies_less)
    ultimately show ?thesis
      using r same_pool_trans [OF f(2) r(2)] True by (intro exI [of _ k] exI [of _ w']) auto
  next
    case False
    then have "find_valid env key i w = Some (candidate env w key i, w1)"
      using f(1) False by (subst find_valid.simps) (auto simp: s(5))
    then show ?thesis using f(2) False by (intro exI [of _ i] exI [of _ w1]) auto
  qed
qed

subsection \<open>Properties\<close>

text \<open>A pool of two servers on which the properties are tried.\<close>

definition example_env :: "unit mmc_env" where
  "example_env =
     \<lparr>g_allow_failover = True, g_max_failover_attempts = 20, g_key_prefix = None, e_time = (\<lambda>n. 100),
      e_connect = (\<lambda>n m udp. Connected n 5), e_send = (\<lambda>n. Sent 1), e_select = (\<lambda>n. (0, {}, {})),
      e_poll = (\<lambda>n. (0, \<lambda>i. 0)),
      e_select_error = (\<lambda>n. ([], 0)), e_datagram = (\<lambda>n. []), e_arrived = (\<lambda>n s. []), e_eof = (\<lambda>n. False),
      e_failure_callback = None, e_has_value = (\<lambda>u k. False), e_qsort = sort_key cp_point\<rparr>"

definition example_hash :: mmc_hash_function_t where
  "example_hash = \<lparr>hf_init = 0, hf_combine = (\<lambda>seed key. word_of_nat (digits_val 0 (filter is_digit key) * 65536)),
     hf_finish = (\<lambda>seed. seed)\<rparr>"

definition example_protocol :: "('d, 'o, unit, buf) mmc_protocol_t" where
  "example_protocol = \<lparr>pr_create = [], pr_clone = (\<lambda>c r. c), pr_copy_parse = (\<lambda>c r. c), pr_reset = (\<lambda>p. []),
     pr_begin_get = (\<lambda>p op. p), pr_append_get = (\<lambda>p z k. p @ k), pr_end_get = (\<lambda>p. p),
     pr_parse = (\<lambda>h p io s. Some (MMC_REQUEST_DONE, p, io, s)), pr_sendbuf = (\<lambda>p. p), pr_set_sendbuf = (\<lambda>b p. b),
     pr_reset_readbuf = (\<lambda>p. p), pr_key = (\<lambda>p. [107]), pr_set_key = (\<lambda>k p. p)\<rparr>"

definition example_pool :: "('d, 'o, unit, buf) mmc_pool_t" where
  "example_pool =
     (mmc_pool_new \<lparr>gs_hash_strategy = MMC_STANDARD_HASH, gs_hash_function = MMC_HASH_FNV1A, gs_crc_step = (\<lambda>c b. c),
         gs_select_api = 1\<rparr>
        (\<lambda>m. mmc_server_new 8192 [] 11211 0 False 1000000 15) (\<lambda>r. new_request example_protocol) ())
       \<lparr>p_hash_state := StandardState \<lparr>ss_num_servers = 2, ss_buckets = [0, 1], ss_num_buckets = 2, ss_hash = example_hash\<rparr>,
        p_servers := [0, 1]\<rparr>"

lemma example_usable: "pool_usable env example_pool"
  by (simp add: pool_usable_def hash_usable_def example_pool_def standard_usable_def standard_inv_def)

text \<open>
  The search for the next failover server returns, and it returns the first server of
  the key's failover sequence (the owners of \<^verbatim>\<open>key-0\<close>, \<^verbatim>\<open>key-1\<close>, ...) from the given index
  on that is not in the skip list; only when all that may be tried are in the list, it
  returns the last of them. Nothing in the pool but the cache of the hash strategy changes.
\<close>

theorem find_next_first_unskipped:
  assumes "pool_usable env w" and "mmc_pool_find_next env key skip i w = r"
  shows "\<exists>k w'. r = Some (candidate env w key k, k + 1, w') \<and> w' = w\<lparr>p_hash_state := p_hash_state w'\<rparr> \<and> i \<le> k \<and>
    (\<forall>l \<in> {i..<k}. skipped skip (candidate env w key l)) \<and>
    (skipped skip (candidate env w key k) \<longrightarrow> g_max_failover_attempts env \<le> int k + 1)"
proof -
  from find_next_candidate [OF assms(1), of key skip i] obtain k w' where
    k: "r = Some (candidate env w key k, k + 1, w')" "same_pool env w w'" "i \<le> k"
      "\<forall>l. i \<le> l \<and> l < k \<longrightarrow> skipped skip (candidate env w key l)"
      "\<not> skipped skip (candidate env w key k) \<or> g_max_failover_attempts env \<le> int k + 1"
    unfolding assms(2) by blast
  moreover have "\<forall>l \<in> {i..<k}. skipped skip (candidate env w key l)" using k(4) by simp
  moreover have "w' = w\<lparr>p_hash_state := p_hash_state w'\<rparr>" using k(2) by (simp add: same_pool_def)
  ultimately show ?thesis by blast
qed

theorem find_next_first_unskipped_witness:
  "\<exists>k (w' :: (unit, unit, unit, buf) mmc_pool_t).
    mmc_pool_find_next example_env [107] (Some (fq_push fq_zero 1)) 0 example_pool =
      Some (candidate example_env (example_pool :: (unit, unit, unit, buf) mmc_pool_t) [107] k, k + 1, w') \<and>
    w' = example_pool\<lparr>p_hash_state := p_hash_state w'\<rparr>"
  using find_next_first_unskipped [OF example_usable refl, of example_env "[107]" "Some (fq_push fq_zero 1)" 0]
  by (elim exE conjE) (rule exI, rule exI, erule conjI, assumption)

text \<open>
  C33: A key is served by its owner while the owner is valid, and by the first valid server of
  its failover sequence otherwise; when failover is off, or no server among the first
  \<^verbatim>\<open>max_failover_attempts\<close> is valid, an invalid server is returned (which the callers test
  for), and the search always ends.
\<close>

theorem pool_find_first_valid:
  assumes "pool_usable env w"
  shows "\<exists>m w'. mmc_pool_find env key w = Some (m, w') \<and> same_pool env w w' \<and>
    (if server_valid env w (key_owner env w key) \<or> \<not> g_allow_failover env then m = key_owner env w key
     else \<exists>k. m = candidate env w key k \<and> (\<forall>l<k. \<not> server_valid env w (candidate env w key l)) \<and>
            (server_valid env w m \<or> g_max_failover_attempts env \<le> int k + 1))"
proof -
  obtain w1 where f: "find_server env key w = Some (key_owner env w key, w1)" "same_pool env w w1"
    using find_server_owner [OF assms] by blast
  note s = same_pool_simps [OF f(2)]
  show ?thesis
  proof (cases "server_valid env w (key_owner env w key) \<or> \<not> g_allow_failover env")
    case True
    then show ?thesis using f by (auto simp: mmc_pool_find_def s)
  next
    case False
    have cand: "candidate env w1 key = candidate env w key" by (simp add: candidate_def fun_eq_iff s)
    obtain k w' where
      k: "find_valid env key 0 w1 = Some (candidate env w key k, w')" "same_pool env w1 w'"
        "\<forall>l<k. \<not> server_valid env w (candidate env w key l)"
        "server_valid env w (candidate env w key k) \<or> g_max_failover_attempts env \<le> int k + 1"
      using find_valid_candidate [OF s(6), of key 0] unfolding cand s(5) by (elim exE conjE) (rule that; simp)
    have "mmc_pool_find env key w = Some (candidate env w key k, w')"
      using f(1) k(1) False by (simp add: mmc_pool_find_def s(5))
    moreover have "same_pool env w w'" by (rule same_pool_trans [OF f(2) k(2)])
    ultimately show ?thesis using False k(3,4) by auto
  qed
qed

theorem pool_find_first_valid_witness:
  "\<exists>m (w' :: (unit, unit, unit, buf) mmc_pool_t). mmc_pool_find example_env [107] example_pool = Some (m, w') \<and>
    m = key_owner example_env (example_pool :: (unit, unit, unit, buf) mmc_pool_t) [107]"
proof -
  have "server_valid example_env (example_pool :: (unit, unit, unit, buf) mmc_pool_t) m" for m
    by (simp add: server_valid_def mmc_server_valid_def example_pool_def mmc_pool_new_def mmc_server_new_def mmc_consts)
  with pool_find_first_valid [OF example_usable, of example_env "[107]"] show ?thesis
    by (simp split: if_splits) blast
qed

end
