(* ===== verification/Mmc_Pool_Inv.thy ===== *)
theory Mmc_Pool_Inv
  imports Mmc_Pool_Find "HOL-Library.Sublist"
begin

text \<open>
  The invariant of the pool between two calls: on every server the requests that wait to be
  sent are the newest of those that wait to be answered (so the answers of a connection
  match its requests), no request is owned by two servers or by a server and the free list,
  every server with something to send or to read is in the queue that \<^verbatim>\<open>select\<close> looks at,
  and every request that was put on the wire knows its stream.

  Scheduling keeps it, whatever the network does: each operation of \<open>Mmc_Pool\<close> has one lemma,
  stated over the operations it calls back into, and \<open>Mmc_Select\<close> closes the cycle.
\<close>

subsection \<open>The requests of a server\<close>

definition slot :: "nat option \<Rightarrow> nat list" where
  "slot r = (case r of None \<Rightarrow> [] | Some x \<Rightarrow> [x])"

lemma slot_simps [simp]: "slot None = []" "slot (Some r) = [r]"
  by (simp_all add: slot_def)

definition sends :: "mmc_t \<Rightarrow> nat list" where
  "sends mmc = slot (m_sendreq mmc) @ fq_list (m_sendqueue mmc)"

definition reads :: "mmc_t \<Rightarrow> nat list" where
  "reads mmc = slot (m_readreq mmc) @ fq_list (m_readqueue mmc)"

definition owned :: "mmc_t \<Rightarrow> nat list" where
  "owned mmc = reads mmc @ slot (m_buildreq mmc)"

definition pipeline_ok :: "mmc_t \<Rightarrow> bool" where
  "pipeline_ok mmc \<longleftrightarrow>
     (m_sendreq mmc = None \<longrightarrow> fq_list (m_sendqueue mmc) = []) \<and>
     (m_readreq mmc = None \<longrightarrow> fq_list (m_readqueue mmc) = []) \<and>
     suffix (sends mmc) (reads mmc) \<and> distinct (owned mmc)"

text \<open>The fields of a server that the pipeline is made of.\<close>

definition pipeline :: "mmc_t \<Rightarrow> nat option \<times> nat option \<times> nat option \<times> nat fifo \<times> nat fifo \<times> int" where
  "pipeline mmc = (m_sendreq mmc, m_readreq mmc, m_buildreq mmc, m_sendqueue mmc, m_readqueue mmc,
     st_retry_interval (m_tcp mmc))"

lemma pipeline_fields:
  "pipeline mmc = pipeline mmc' \<Longrightarrow>
   sends mmc = sends mmc' \<and> reads mmc = reads mmc' \<and> owned mmc = owned mmc' \<and> pipeline_ok mmc = pipeline_ok mmc' \<and>
   m_sendreq mmc = m_sendreq mmc' \<and> m_readreq mmc = m_readreq mmc' \<and> m_sendqueue mmc = m_sendqueue mmc' \<and>
   st_retry_interval (m_tcp mmc) = st_retry_interval (m_tcp mmc')"
  by (simp add: pipeline_def sends_def reads_def owned_def pipeline_ok_def)

subsection \<open>The invariant\<close>

definition slotted :: "('d, 'o, 'u, 'p) mmc_pool_t \<Rightarrow> nat \<Rightarrow> bool" where
  "slotted w m \<longleftrightarrow>
     (\<forall>r. r \<in> set (reads (p_mmc w m)) \<and> r \<notin> set (fq_list (m_sendqueue (p_mmc w m))) \<longrightarrow>
        (\<exists>udp. r_io (p_req w r) = Some (m, udp)))"

definition polled :: "('d, 'o, 'u, 'p) mmc_pool_t \<Rightarrow> nat \<Rightarrow> bool" where
  "polled w m \<longleftrightarrow>
     (m \<in> set (fq_list (sending (p_first w) w)) \<longleftrightarrow> m_sendreq (p_mmc w m) \<noteq> None) \<and>
     (m \<in> set (fq_list (reading (p_first w) w)) \<longleftrightarrow> m_readreq (p_mmc w m) \<noteq> None)"

definition active :: "('d, 'o, 'u, 'p) mmc_pool_t \<Rightarrow> nat set" where
  "active w = (\<Union>m. set (owned (p_mmc w m)))"

definition known :: "('d, 'o, 'u, 'p) mmc_pool_t \<Rightarrow> nat set" where
  "known w = active w \<union> set (fq_list (p_free_requests w))"

definition server_inv :: "(nat \<Rightarrow> int) \<Rightarrow> ('d, 'o, 'u, 'p) mmc_pool_t \<Rightarrow> nat \<Rightarrow> bool" where
  "server_inv ret w m \<longleftrightarrow>
     pipeline_ok (p_mmc w m) \<and> slotted w m \<and> polled w m \<and> st_retry_interval (m_tcp (p_mmc w m)) = ret m"

definition pool_inv :: "(nat \<Rightarrow> int) \<Rightarrow> ('d, 'o, 'u, 'p) mmc_pool_t \<Rightarrow> bool" where
  "pool_inv ret w \<longleftrightarrow>
     (\<forall>m. server_inv ret w m) \<and>
     (\<forall>m m'. m \<noteq> m' \<longrightarrow> set (owned (p_mmc w m)) \<inter> set (owned (p_mmc w m')) = {}) \<and>
     active w \<inter> set (fq_list (p_free_requests w)) = {}"

text \<open>What the invariant looks at.\<close>

definition view where
  "view w = (\<lambda>m. pipeline (p_mmc w m), \<lambda>r. r_io (p_req w r), p_first w, sending (p_first w) w, reading (p_first w) w,
     p_free_requests w)"

lemma view_cong:
  fixes w w' :: "('d, 'o, 'u, 'p) mmc_pool_t"
  assumes "view w' = view w"
  shows "pool_inv ret w' = pool_inv ret w" and "known w' = known w" and "active w' = active w"
proof -
  have p: "pipeline (p_mmc w' m) = pipeline (p_mmc w m)" for m
    using assms by (simp add: view_def fun_eq_iff)
  note f = pipeline_fields [OF p]
  have v: "r_io (p_req w' r) = r_io (p_req w r)" "p_first w' = p_first w" "sending (p_first w) w' = sending (p_first w) w"
    "reading (p_first w) w' = reading (p_first w) w" "p_free_requests w' = p_free_requests w" for r
    using assms by (auto simp: view_def dest: fun_cong)
  show "active w' = active w" by (simp add: active_def f)
  then show "pool_inv ret w' = pool_inv ret w" "known w' = known w"
    by (simp_all add: pool_inv_def server_inv_def known_def slotted_def polled_def f v)
qed

lemma upd_simps [simp]:
  "p_mmc (upd_mmc m f w) = (p_mmc w)(m := f (p_mmc w m))" "p_req (upd_mmc m f w) = p_req w"
  "p_req (upd_req r g w) = (p_req w)(r := g (p_req w r))" "p_mmc (upd_req r g w) = p_mmc w"
  "p_first (upd_mmc m f w) = p_first w" "p_first (upd_req r g w) = p_first w"
  "sending ph (upd_mmc m f w) = sending ph w" "sending ph (upd_req r g w) = sending ph w"
  "reading ph (upd_mmc m f w) = reading ph w" "reading ph (upd_req r g w) = reading ph w"
  "p_free_requests (upd_mmc m f w) = p_free_requests w" "p_free_requests (upd_req r g w) = p_free_requests w"
  "p_servers (upd_mmc m f w) = p_servers w" "p_servers (upd_req r g w) = p_servers w"
  "p_calls (upd_mmc m f w) = p_calls w" "p_calls (upd_req r g w) = p_calls w"
  "p_hash_state (upd_mmc m f w) = p_hash_state w" "p_hash_state (upd_req r g w) = p_hash_state w"
  by (simp_all add: upd_mmc_def upd_req_def sending_def reading_def)

lemma tick_simps [simp]:
  "p_mmc (tick w) = p_mmc w" "p_req (tick w) = p_req w" "p_first (tick w) = p_first w"
  "sending ph (tick w) = sending ph w" "reading ph (tick w) = reading ph w"
  "p_free_requests (tick w) = p_free_requests w" "p_servers (tick w) = p_servers w" "p_hash_state (tick w) = p_hash_state w"
  by (simp_all add: tick_def sending_def reading_def)

lemma map_queue_simps [simp]:
  "p_mmc (map_sending ph f w) = p_mmc w" "p_req (map_sending ph f w) = p_req w" "p_first (map_sending ph f w) = p_first w"
  "p_mmc (map_reading ph f w) = p_mmc w" "p_req (map_reading ph f w) = p_req w" "p_first (map_reading ph f w) = p_first w"
  "sending ph (map_sending ph f w) = f (sending ph w)" "reading ph (map_sending ph' f w) = reading ph w"
  "reading ph (map_reading ph f w) = f (reading ph w)" "sending ph (map_reading ph' f w) = sending ph w"
  "p_free_requests (map_sending ph f w) = p_free_requests w" "p_free_requests (map_reading ph f w) = p_free_requests w"
  "p_servers (map_sending ph f w) = p_servers w" "p_servers (map_reading ph f w) = p_servers w"
  "p_calls (map_sending ph f w) = p_calls w" "p_calls (map_reading ph f w) = p_calls w"
  "p_hash_state (map_sending ph f w) = p_hash_state w" "p_hash_state (map_reading ph f w) = p_hash_state w"
  by (simp_all add: map_sending_def map_reading_def sending_def reading_def)

lemma release_simps [simp]:
  "p_mmc (mmc_pool_release r w) = p_mmc w" "p_req (mmc_pool_release r w) = p_req w" "p_first (mmc_pool_release r w) = p_first w"
  "sending ph (mmc_pool_release r w) = sending ph w" "reading ph (mmc_pool_release r w) = reading ph w"
  "p_free_requests (mmc_pool_release r w) = fq_push (p_free_requests w) r" "p_servers (mmc_pool_release r w) = p_servers w"
  "p_calls (mmc_pool_release r w) = p_calls w" "p_hash_state (mmc_pool_release r w) = p_hash_state w"
  by (simp_all add: mmc_pool_release_def sending_def reading_def)

subsection \<open>What an operation leaves alone\<close>

text \<open>
  A server that was taken down since \<open>t0\<close>, the time the operation began, stays as it is:
  it cannot be valid again while the operation takes less time than the retry interval of
  any server. Failover handlers are never replaced, and those of multi-gets are left out
  here (\<open>plain\<close>).
\<close>

definition down :: "int \<Rightarrow> mmc_t \<Rightarrow> bool" where
  "down t0 mmc \<longleftrightarrow> st_status (m_tcp mmc) = MMC_STATUS_FAILED \<and> t0 \<le> st_failed (m_tcp mmc)"

definition quick :: "'u mmc_env \<Rightarrow> int \<Rightarrow> (nat \<Rightarrow> int) \<Rightarrow> bool" where
  "quick env t0 ret \<longleftrightarrow> (\<forall>n m. t0 \<le> e_time env n \<and> (0 \<le> ret m \<longrightarrow> e_time env n < t0 + ret m))"

definition plain :: "('d, 'o, 'u, 'p) mmc_pool_t \<Rightarrow> bool" where
  "plain w \<longleftrightarrow> (\<forall>r keys cas. r_failover (p_req w r) \<noteq> mmc_failover_value keys cas)"

definition frame :: "int \<Rightarrow> nat set \<Rightarrow> ('d, 'o, 'u, 'p) mmc_pool_t \<Rightarrow> ('d, 'o, 'u, 'p) mmc_pool_t \<Rightarrow> bool" where
  "frame t0 M w w' \<longleftrightarrow>
     p_first w' = p_first w \<and> p_servers w' = p_servers w \<and>
     (\<forall>r. r_failover (p_req w' r) = r_failover (p_req w r)) \<and>
     (\<forall>m. m \<notin> M \<and> down t0 (p_mmc w m) \<longrightarrow> p_mmc w' m = p_mmc w m)"

lemma frame_refl: "frame t0 M w w"
  by (simp add: frame_def)

lemma frame_trans: "frame t0 M w w1 \<Longrightarrow> frame t0 M w1 w2 \<Longrightarrow> frame t0 M w w2"
  unfolding frame_def by metis

lemma frame_mono: "frame t0 M w w' \<Longrightarrow> M \<subseteq> M' \<Longrightarrow> frame t0 M' w w'"
  by (auto simp: frame_def)

lemma frame_plain: "frame t0 M w w' \<Longrightarrow> plain w \<Longrightarrow> plain w'"
  by (simp add: frame_def plain_def)

lemma down_not_valid:
  assumes "quick env t0 ret" and "pool_inv ret w" and "down t0 (p_mmc w m)"
  shows "\<not> server_valid env w m"
proof -
  have "st_retry_interval (m_tcp (p_mmc w m)) = ret m" using assms(2) by (simp add: pool_inv_def server_inv_def)
  moreover have "0 \<le> ret m \<longrightarrow> e_time env (p_calls w) < t0 + ret m" using assms(1) by (simp add: quick_def)
  ultimately show ?thesis
    using assms(3) by (auto simp: server_valid_def mmc_server_valid_def down_def mmc_consts)
qed

text \<open>What scheduling and failover promise about one request that no one owns.\<close>

definition request_spec ::
  "int \<Rightarrow> (nat \<Rightarrow> int) \<Rightarrow> (nat \<Rightarrow> ('d, 'o, 'u, 'p) mmc_pool_t \<Rightarrow> ('d, 'o, 'u, 'p) pool_result) \<Rightarrow> bool" where
  "request_spec t0 ret f \<longleftrightarrow>
     (\<forall>w r x w'. pool_inv ret w \<and> plain w \<and> r \<notin> known w \<and> f r w = Some (x, w') \<longrightarrow>
        pool_inv ret w' \<and> frame t0 {} w w' \<and> known w' = insert r (known w))"

lemma request_specI:
  "(\<And>w r x w'. pool_inv ret w \<Longrightarrow> plain w \<Longrightarrow> r \<notin> known w \<Longrightarrow> f r w = Some (x, w') \<Longrightarrow>
      pool_inv ret w' \<and> frame t0 {} w w' \<and> known w' = insert r (known w)) \<Longrightarrow> request_spec t0 ret f"
  unfolding request_spec_def by blast

lemma request_specD:
  "request_spec t0 ret f \<Longrightarrow> f r w = Some (x, w') \<Longrightarrow> pool_inv ret w \<Longrightarrow> plain w \<Longrightarrow> r \<notin> known w \<Longrightarrow>
   pool_inv ret w' \<and> frame t0 {} w w' \<and> known w' = insert r (known w)"
  unfolding request_spec_def by blast

subsection \<open>Releasing and failing over\<close>

lemma release_inv:
  assumes "pool_inv ret w" and "r \<notin> known w"
  shows "pool_inv ret (mmc_pool_release r w)" and "frame t0 M w (mmc_pool_release r w)"
    and "known (mmc_pool_release r w) = insert r (known w)"
proof -
  have a: "active (mmc_pool_release r w) = active w" by (simp add: active_def)
  have "server_inv ret (mmc_pool_release r w) m = server_inv ret w m" for m
    by (simp add: server_inv_def slotted_def polled_def)
  then show "pool_inv ret (mmc_pool_release r w)"
    using assms by (auto simp: pool_inv_def known_def a)
  show "frame t0 M w (mmc_pool_release r w)" by (simp add: frame_def)
  show "known (mmc_pool_release r w) = insert r (known w)" using assms(2) by (auto simp: known_def a)
qed

text \<open>The search for a server changes the cache of the hash strategy at most.\<close>

definition hash_only where
  "hash_only w w' \<longleftrightarrow> (\<exists>hs. w' = w\<lparr>p_hash_state := hs\<rparr>)"

lemma hash_only_refl [simp]: "hash_only w w"
  by (auto simp: hash_only_def intro: exI [of _ "p_hash_state w"])

lemma hash_only_trans: "hash_only w w1 \<Longrightarrow> hash_only w1 w2 \<Longrightarrow> hash_only w w2"
  by (auto simp: hash_only_def)

lemma hash_only_view: "hash_only w w' \<Longrightarrow> view w' = view w"
  by (auto simp: hash_only_def view_def sending_def reading_def)

lemma hash_only_frame: "hash_only w w' \<Longrightarrow> frame t0 M w w'"
  by (auto simp: hash_only_def frame_def)

lemma hash_only_simps:
  "hash_only w w' \<Longrightarrow> p_mmc w' = p_mmc w \<and> p_req w' = p_req w \<and> p_calls w' = p_calls w \<and> p_servers w' = p_servers w \<and>
     server_valid env w' = server_valid env w"
  by (auto simp: hash_only_def server_valid_def fun_eq_iff)

lemma find_server_hash_only: "find_server env key w = Some (m, w') \<Longrightarrow> hash_only w w'"
proof (cases "p_hash_state w")
  case (ConsistentState st)
  then show "find_server env key w = Some (m, w') \<Longrightarrow> hash_only w w'"
    by (auto simp: find_server_def hash_only_def)
qed (auto simp: find_server_def)

lemma find_next_hash_only: "mmc_pool_find_next env key skip i w = Some (m, j, w') \<Longrightarrow> hash_only w w'"
proof (induction env key skip i w rule: mmc_pool_find_next.induct)
  case (1 env key skip i w)
  from "1.prems" obtain m1 w1 where f: "find_server env (failover_key key i) w = Some (m1, w1)"
    by (subst (asm) mmc_pool_find_next.simps) (auto simp: bind_eq_Some_conv)
  show ?case
    using "1.IH" [OF f refl] "1.prems" find_server_hash_only [OF f]
    by (subst (asm) (2) mmc_pool_find_next.simps) (auto simp: f hash_only_trans split: if_splits)
qed

lemma failover_probe_hash_only:
  "failover_probe env key m fs i w = Some (m', fs', i', w') \<Longrightarrow> hash_only w w' \<and> i < i'"
proof (induction env key m fs i w rule: failover_probe.induct)
  case (1 env key m fs i w)
  from "1.prems" obtain m1 i1 w1 where f: "mmc_pool_find_next env key (Some (fq_push fs m)) i w = Some (m1, i1, w1)"
    by (subst (asm) failover_probe.simps) (auto simp: bind_eq_Some_conv Let_def)
  show ?case
    using "1.IH" [OF refl f refl refl] "1.prems" find_next_hash_only [OF f] find_next_index [OF f]
    by (subst (asm) (2) failover_probe.simps)
      (auto simp: f Let_def split: if_splits dest: hash_only_trans)
qed

text \<open>A change of fields of a request that the invariant does not look at.\<close>

lemma upd_req_view: "r_io (g (p_req w r)) = r_io (p_req w r) \<Longrightarrow> view (upd_req r g w) = view w"
  by (simp add: view_def fun_eq_iff)

lemma upd_req_frame: "r_failover (g (p_req w r)) = r_failover (p_req w r) \<Longrightarrow> frame t0 M w (upd_req r g w)"
  by (simp add: frame_def)

definition ops_ok :: "int \<Rightarrow> (nat \<Rightarrow> int) \<Rightarrow> ('d, 'o, 'u, 'p) pool_ops \<Rightarrow> bool" where
  "ops_ok t0 ret ops \<longleftrightarrow> (\<forall>m. request_spec t0 ret (\<lambda>r w. op_schedule ops m r w))"

lemma failover_handler_spec:
  assumes "ops_ok t0 ret ops"
  shows "request_spec t0 ret (mmc_pool_failover_handler ops env pr m)"
proof (rule request_specI)
  fix w :: "('a, 'b, 'c, 'd) mmc_pool_t" and r x w'
  assume w: "pool_inv ret w" "plain w" "r \<notin> known w" and f: "mmc_pool_failover_handler ops env pr m r w = Some (x, w')"
  show "pool_inv ret w' \<and> frame t0 {} w w' \<and> known w' = insert r (known w)"
  proof (cases "g_allow_failover env \<and> int (r_failed_index (p_req w r)) < g_max_failover_attempts env \<and>
         fq_len (r_failed_servers (p_req w r)) < length (p_servers w)")
    case True
    then obtain m1 fs i w1 where p: "failover_probe env (pr_key pr (r_proto (p_req w r))) m (r_failed_servers (p_req w r))
          (r_failed_index (p_req w r)) w = Some (m1, fs, i, w1)"
      and s: "op_schedule ops m1 r (upd_req r (\<lambda>req. req\<lparr>r_failed_servers := fs, r_failed_index := i\<rparr>) w1) = Some (x, w')"
      using f by (auto simp: mmc_pool_failover_handler_def Let_def bind_eq_Some_conv simp del: fq_len)
    let ?w = "upd_req r (\<lambda>req. req\<lparr>r_failed_servers := fs, r_failed_index := i\<rparr>) w1"
    have h: "hash_only w w1" using failover_probe_hash_only [OF p] by blast
    have "view ?w = view w" using upd_req_view [of "\<lambda>req. req\<lparr>r_failed_servers := fs, r_failed_index := i\<rparr>" w1 r]
      hash_only_view [OF h] by simp
    note v = view_cong [OF this]
    have fr: "frame t0 {} w ?w"
      by (rule frame_trans [OF hash_only_frame [OF h] upd_req_frame]) simp
    have "request_spec t0 ret (\<lambda>r w. op_schedule ops m1 r w)" using assms by (simp add: ops_ok_def)
    from request_specD [OF this s] w v frame_plain [OF fr w(2)] have
      "pool_inv ret w' \<and> frame t0 {} ?w w' \<and> known w' = insert r (known w)" by simp
    then show ?thesis using frame_trans [OF fr] by blast
  next
    case False
    then have "w' = mmc_pool_release r w" using f by (auto simp: mmc_pool_failover_handler_def Let_def)
    then show ?thesis using release_inv [OF w(1,3)] by simp
  qed
qed

lemma call_failover_spec:
  assumes "ops_ok t0 ret ops"
  shows "request_spec t0 ret (call_failover ops env pr m)"
proof (rule request_specI)
  fix w :: "('a, 'b, 'c, 'd) mmc_pool_t" and r x w'
  assume w: "pool_inv ret w" "plain w" "r \<notin> known w" and f: "call_failover ops env pr m r w = Some (x, w')"
  show "pool_inv ret w' \<and> frame t0 {} w w' \<and> known w' = insert r (known w)"
  proof (cases "r_failover (p_req w r)")
    case mmc_failover_null
    then have "w' = mmc_pool_release r w" using f by (auto simp: call_failover_def mmc_pool_failover_handler_null_def)
    then show ?thesis using release_inv [OF w(1,3)] by simp
  next
    case mmc_failover_key
    then have "mmc_pool_failover_handler ops env pr m r w = Some (x, w')" using f by (simp add: call_failover_def)
    from request_specD [OF failover_handler_spec [OF assms] this w] show ?thesis .
  next
    case (mmc_failover_value keys cas)
    then show ?thesis using w(2) by (simp add: plain_def)
  qed
qed

lemma failover_all_spec:
  assumes "ops_ok t0 ret ops"
  shows "failover_all ops env pr m rs w = Some w' \<Longrightarrow> pool_inv ret w \<Longrightarrow> plain w \<Longrightarrow> distinct rs \<Longrightarrow>
    set rs \<inter> known w = {} \<Longrightarrow> pool_inv ret w' \<and> frame t0 {} w w' \<and> known w' = set rs \<union> known w"
proof (induction rs arbitrary: w)
  case Nil
  then show ?case by (simp add: frame_refl)
next
  case (Cons r rs)
  obtain x w1 where f: "call_failover ops env pr m r w = Some (x, w1)" "failover_all ops env pr m rs w1 = Some w'"
    using Cons.prems(1) by (auto simp: bind_eq_Some_conv)
  have "r \<notin> known w" using Cons.prems(5) by auto
  from request_specD [OF call_failover_spec [OF assms] f(1) Cons.prems(2,3) this] have
    w1: "pool_inv ret w1" "frame t0 {} w w1" "known w1 = insert r (known w)" by simp_all
  have "set rs \<inter> known w1 = {}" using Cons.prems(4,5) w1(3) by auto
  from Cons.IH [OF f(2) w1(1) frame_plain [OF w1(2) Cons.prems(3)] _ this] Cons.prems(4) w1(3) show ?case
    using frame_trans [OF w1(2)] by auto
qed

subsection \<open>Deactivating and connecting\<close>

lemma pool_invD:
  assumes "pool_inv ret w"
  shows "pipeline_ok (p_mmc w m)" and "slotted w m" and "polled w m" and "st_retry_interval (m_tcp (p_mmc w m)) = ret m"
    and "m \<noteq> m' \<Longrightarrow> set (owned (p_mmc w m)) \<inter> set (owned (p_mmc w m')) = {}"
    and "active w \<inter> set (fq_list (p_free_requests w)) = {}"
  using assms by (auto simp: pool_inv_def server_inv_def)

lemma mark_failed_simps [simp]:
  "sends (mark_failed t mmc) = []" "reads (mark_failed t mmc) = []" "owned (mark_failed t mmc) = []"
  "m_sendreq (mark_failed t mmc) = None" "m_readreq (mark_failed t mmc) = None" "m_buildreq (mark_failed t mmc) = None"
  "fq_list (m_sendqueue (mark_failed t mmc)) = []" "fq_list (m_readqueue (mark_failed t mmc)) = []"
  "st_retry_interval (m_tcp (mark_failed t mmc)) = st_retry_interval (m_tcp mmc)"
  "st_status (m_tcp (mark_failed t mmc)) = MMC_STATUS_FAILED" "st_failed (m_tcp (mark_failed t mmc)) = t"
  by (simp_all add: mark_failed_def sends_def reads_def owned_def failed_stream_def disconnect_stream_def Let_def)

lemma down_mark_failed: "t0 \<le> t \<Longrightarrow> down t0 (mark_failed t mmc)"
  by (simp add: down_def)

lemma deactivated_owned:
  assumes "pipeline_ok mmc"
  shows "set (fq_list (deactivated_requests mmc)) = set (owned mmc)" and "distinct (fq_list (deactivated_requests mmc))"
proof -
  show "set (fq_list (deactivated_requests mmc)) = set (owned mmc)"
    by (auto simp: deactivated_requests_def owned_def reads_def slot_def Let_def split: option.splits)
qed simp

lemma take_down_inv:
  assumes "pool_inv ret w"
  shows "pool_inv ret (take_down env m w)" and "active (take_down env m w) = active w - set (owned (p_mmc w m))"
    and "known (take_down env m w) = known w - set (owned (p_mmc w m))"
    and "p_mmc (take_down env m w) m = mark_failed (e_time env (p_calls w)) (p_mmc w m)"
proof -
  note inv = pool_invD [OF assms]
  let ?w = "take_down env m w"
  have w: "p_mmc ?w = (p_mmc w)(m := mark_failed (e_time env (p_calls w)) (p_mmc w m))"
    "p_req ?w = p_req w" "p_free_requests ?w = p_free_requests w" "p_first ?w = p_first w"
    "fq_list (sending (p_first w) ?w) = filter (\<lambda>y. y \<noteq> m) (fq_list (sending (p_first w) w))"
    "fq_list (reading (p_first w) ?w) = filter (\<lambda>y. y \<noteq> m) (fq_list (reading (p_first w) w))"
    by (simp_all add: take_down_def)
  show act: "active ?w = active w - set (owned (p_mmc w m))"
    using inv(5) by (fastforce simp: active_def w split: if_splits)
  have "server_inv ret ?w m'" for m'
  proof (cases "m' = m")
    case True
    then show ?thesis using inv(4) by (simp add: server_inv_def pipeline_ok_def slotted_def polled_def w)
  next
    case False
    then show ?thesis
      using inv(1-4) [of m'] by (simp add: server_inv_def slotted_def polled_def w)
  qed
  moreover have "set (owned (p_mmc ?w a)) \<inter> set (owned (p_mmc ?w b)) = {}" if "a \<noteq> b" for a b
    using inv(5) [of a b] that by (simp add: w)
  ultimately show "pool_inv ret ?w"
    using inv(6) by (auto simp: pool_inv_def act w)
  have "set (owned (p_mmc w m)) \<subseteq> active w" by (auto simp: active_def)
  then show "known ?w = known w - set (owned (p_mmc w m))"
    using inv(6) by (auto simp: known_def act w)
  show "p_mmc ?w m = mark_failed (e_time env (p_calls w)) (p_mmc w m)" by (simp add: w)
qed

lemma take_down_frame: "frame t0 {m} w (take_down env m w)"
  by (simp add: frame_def take_down_def)

text \<open>The userspace callback and the clock are not looked at.\<close>

lemma user_view: "view (w\<lparr>p_user := u\<rparr>) = view w" "view (tick w) = view w"
  by (simp add: view_def sending_def reading_def) (simp add: view_def)

lemma user_frame: "frame t0 M w (w\<lparr>p_user := u\<rparr>)" "frame t0 M w (tick w)"
  by (simp_all add: frame_def)

lemma deactivate_spec:
  assumes ops: "ops_ok t0 ret ops" and quick: "quick env t0 ret" and w: "pool_inv ret w" "plain w"
    and f: "mmc_server_deactivate ops env pr m w = Some w'"
  shows "pool_inv ret w' \<and> frame t0 {m} w w' \<and> known w' = known w \<and> owned (p_mmc w' m) = [] \<and> m_sendreq (p_mmc w' m) = None \<and>
    down t0 (p_mmc w' m)"
proof -
  let ?rs = "fq_list (deactivated_requests (p_mmc w m))" and ?w1 = "take_down env m w"
  obtain w2 where a: "failover_all ops env pr m ?rs ?w1 = Some w2"
    and w': "w' = (case e_failure_callback env of None \<Rightarrow> w2 | Some callback \<Rightarrow> tick (w2\<lparr>p_user := callback m (p_user w2)\<rparr>))"
    using f by (auto simp: mmc_server_deactivate_def bind_eq_Some_conv)
  note d = deactivated_owned [OF pool_invD(1) [OF w(1), of m]]
  note td = take_down_inv [OF w(1), of env m]
  have pl: "plain ?w1" by (rule frame_plain [OF take_down_frame w(2)])
  have "set ?rs \<inter> known ?w1 = {}" unfolding d(1) td(3) by blast
  from failover_all_spec [OF ops a td(1) pl d(2) this] have
    w2: "pool_inv ret w2" "frame t0 {} ?w1 w2" "known w2 = set ?rs \<union> known ?w1" by simp_all
  have dn: "down t0 (p_mmc ?w1 m)"
    unfolding td(4) using quick by (intro down_mark_failed) (simp add: quick_def)
  then have m: "p_mmc w2 m = p_mmc ?w1 m" using w2(2) by (simp add: frame_def)
  have "set (owned (p_mmc w m)) \<subseteq> known w" by (auto simp: known_def active_def)
  then have kn: "known w2 = known w" unfolding w2(3) d(1) td(3) by blast
  have fr: "frame t0 {m} w w2"
    by (rule frame_trans [OF take_down_frame frame_mono [OF w2(2)]]) simp
  have v: "view w' = view w2" unfolding w' by (simp add: user_view split: option.split)
  have "frame t0 {m} w2 w'" unfolding w' using frame_trans [OF user_frame(1) user_frame(2)] frame_refl
    by (auto split: option.split)
  moreover have "p_mmc w' = p_mmc w2" unfolding w' by (simp split: option.split)
  ultimately show ?thesis
    using view_cong [OF v] w2(1) kn frame_trans [OF fr] m dn td(4) by simp
qed

text \<open>A change of a server that keeps its pipeline.\<close>

lemma upd_mmc_view: "pipeline (f (p_mmc w m)) = pipeline (p_mmc w m) \<Longrightarrow> view (upd_mmc m f w) = view w"
  by (simp add: view_def fun_eq_iff)

lemma upd_mmc_frame: "frame t0 {m} w (upd_mmc m f w)"
  by (simp add: frame_def)

lemma disconnect_pipeline: "pipeline (mmc_server_disconnect udp mmc) = pipeline mmc"
  by (simp add: mmc_server_disconnect_def pipeline_def map_stream_def disconnect_stream_def Let_def)

lemma connected_pipeline:
  "pipeline ((map_stream udp (connected_stream udp s fd) mmc)\<lparr>m_error := e\<rparr>) = pipeline mmc"
  by (simp add: pipeline_def map_stream_def connected_stream_def)

lemma connect_error_pipeline: "pipeline (connect_error mmc e n) = pipeline mmc"
  by (simp add: connect_error_def mmc_server_seterror_def pipeline_def split: option.split)

text \<open>
  What connecting promises: the invariant stays, nothing else that is down changes, no request
  is lost, and a free send slot stays free.
\<close>

definition connect_spec :: "int \<Rightarrow> (nat \<Rightarrow> int) \<Rightarrow> nat \<Rightarrow> ('d, 'o, 'u, 'p) mmc_pool_t \<Rightarrow> ('d, 'o, 'u, 'p) mmc_pool_t \<Rightarrow> bool" where
  "connect_spec t0 ret m w w' \<longleftrightarrow>
     pool_inv ret w' \<and> frame t0 {m} w w' \<and> known w' = known w \<and>
     (m_sendreq (p_mmc w m) = None \<longrightarrow> m_sendreq (p_mmc w' m) = None)"

lemma connect_spec_refl: "pool_inv ret w \<Longrightarrow> connect_spec t0 ret m w w"
  by (simp add: connect_spec_def frame_refl)

lemma connect_spec_trans: "connect_spec t0 ret m w w1 \<Longrightarrow> connect_spec t0 ret m w1 w2 \<Longrightarrow> connect_spec t0 ret m w w2"
  unfolding connect_spec_def using frame_trans by metis

lemma connect_spec_view:
  assumes "view w' = view w" and "frame t0 {m} w w'" and "pool_inv ret w"
  shows "connect_spec t0 ret m w w'"
proof -
  have "pipeline (p_mmc w' m) = pipeline (p_mmc w m)" using assms(1) by (simp add: view_def fun_eq_iff)
  from pipeline_fields [OF this] have "m_sendreq (p_mmc w' m) = m_sendreq (p_mmc w m)" by blast
  then show ?thesis using view_cong [OF assms(1)] assms(2,3) by (simp add: connect_spec_def)
qed

lemma connect_spec_plain: "connect_spec t0 ret m w w' \<Longrightarrow> plain w \<Longrightarrow> plain w'"
  using frame_plain by (auto simp: connect_spec_def)

lemma server_connect_spec:
  assumes ops: "ops_ok t0 ret ops" and quick: "quick env t0 ret" and w: "pool_inv ret w" "plain w"
    and f: "mmc_server_connect ops env pr m udp w = Some (x, w')"
  shows "connect_spec t0 ret m w w'"
proof -
  let ?w0 = "if st_stream (stream_of udp (p_mmc w m)) \<noteq> None then upd_mmc m (mmc_server_disconnect udp) w else w"
  have s0: "connect_spec t0 ret m w ?w0"
    using connect_spec_view [OF upd_mmc_view [where f = "mmc_server_disconnect udp", OF disconnect_pipeline] upd_mmc_frame w(1)]
      connect_spec_refl [OF w(1)] by simp
  then have w0: "pool_inv ret ?w0" "plain ?w0" using connect_spec_plain [OF s0 w(2)] by (simp_all add: connect_spec_def)
  have tk: "connect_spec t0 ret m ?w0 (upd_mmc m g (tick ?w0))" if "pipeline (g (p_mmc ?w0 m)) = pipeline (p_mmc ?w0 m)" for g
  proof (rule connect_spec_view [OF _ frame_trans [OF user_frame(2) upd_mmc_frame] w0(1)])
    show "view (upd_mmc m g (tick ?w0)) = view ?w0"
      using upd_mmc_view [of g "tick ?w0" m] that user_view(2) [of ?w0] by simp
  qed
  show ?thesis
  proof (cases "e_connect env (p_calls ?w0) m udp")
    case (Connected s fd)
    then have w': "w' = upd_mmc m (\<lambda>mmc. (map_stream udp (connected_stream udp s fd) mmc)\<lparr>m_error := None\<rparr>) (tick ?w0)"
      using f unfolding mmc_server_connect_def Let_def by (simp split: if_splits)
    show ?thesis unfolding w' by (rule connect_spec_trans [OF s0 tk]) (rule connected_pipeline)
  next
    case (NotConnected e n)
    let ?w1 = "upd_mmc m (\<lambda>mmc. connect_error mmc e n) (tick ?w0)"
    have d: "mmc_server_deactivate ops env pr m ?w1 = Some w'"
      using f NotConnected unfolding mmc_server_connect_def Let_def by (simp add: bind_eq_Some_conv)
    have s1: "connect_spec t0 ret m ?w0 ?w1" by (rule tk) (rule connect_error_pipeline)
    then have "pool_inv ret ?w1" by (simp add: connect_spec_def)
    from deactivate_spec [OF ops quick this connect_spec_plain [OF s1 w0(2)] d] have "connect_spec t0 ret m ?w1 w'"
      by (simp add: connect_spec_def)
    then show ?thesis using connect_spec_trans [OF connect_spec_trans [OF s0 s1]] by blast
  qed
qed

lemma pool_open_spec:
  assumes "ops_ok t0 ret ops" and "quick env t0 ret" and "pool_inv ret w" "plain w"
    and "mmc_pool_open ops env pr m udp w = Some (x, w')"
  shows "connect_spec t0 ret m w w'"
  using server_connect_spec [OF assms(1-4), of pr m udp x w'] connect_spec_refl [OF assms(3), of t0 m] assms(5)
  by (auto simp: mmc_pool_open_def Let_def split: if_splits)

subsection \<open>Scheduling\<close>

text \<open>The slot functions change the request only, so what they do to the invariant shows when it is committed.\<close>

lemma slot_fields:
  "p_mmc (slot_tcp m r w) = p_mmc w" "r_io (p_req (slot_tcp m r w) r) = Some (m, False)"
  "r' \<noteq> r \<Longrightarrow> p_req (slot_tcp m r w) r' = p_req w r'"
  "r_failover (p_req (slot_tcp m r w) r') = r_failover (p_req w r')"
  "pipeline (p_mmc (slot_udp pr m r w) m') = pipeline (p_mmc w m')"
  "m' \<noteq> m \<Longrightarrow> p_mmc (slot_udp pr m r w) m' = p_mmc w m'"
  "r_io (p_req (slot_udp pr m r w) r) = Some (m, True)"
  "r' \<noteq> r \<Longrightarrow> p_req (slot_udp pr m r w) r' = p_req w r'"
  "r_failover (p_req (slot_udp pr m r w) r') = r_failover (p_req w r')"
  by (auto simp: slot_tcp_def slot_udp_def pipeline_def Let_def)

text \<open>
  A pool \<open>w1\<close> to which only the stream of \<open>r\<close> was added: this is what both slot functions
  return. \<open>r\<close> is not yet owned by the server.
\<close>

definition slot_of :: "nat \<Rightarrow> nat \<Rightarrow> ('d, 'o, 'u, 'p) mmc_pool_t \<Rightarrow> ('d, 'o, 'u, 'p) mmc_pool_t \<Rightarrow> bool" where
  "slot_of m r w w1 \<longleftrightarrow>
     (\<forall>m'. pipeline (p_mmc w1 m') = pipeline (p_mmc w m')) \<and> (\<forall>m'. m' \<noteq> m \<longrightarrow> p_mmc w1 m' = p_mmc w m') \<and>
     (\<exists>udp. r_io (p_req w1 r) = Some (m, udp)) \<and> (\<forall>r'. r' \<noteq> r \<longrightarrow> p_req w1 r' = p_req w r') \<and>
     (\<forall>r'. r_failover (p_req w1 r') = r_failover (p_req w r')) \<and>
     p_first w1 = p_first w \<and> sending (p_first w) w1 = sending (p_first w) w \<and>
     reading (p_first w) w1 = reading (p_first w) w \<and> p_free_requests w1 = p_free_requests w \<and> p_servers w1 = p_servers w"

lemma slot_of_slots: "slot_of m r w (slot_tcp m r w)" "slot_of m r w (slot_udp pr m r w)"
  by (auto simp: slot_of_def slot_fields) (simp_all add: slot_tcp_def slot_udp_def Let_def)

lemma slot_of_inv:
  assumes "slot_of m r w w1" and "pool_inv ret w" and "r \<notin> known w"
  shows "pool_inv ret w1" and "known w1 = known w" and "frame t0 {m} w w1"
proof -
  note s = assms(1) [unfolded slot_of_def]
  have f: "owned (p_mmc w1 m') = owned (p_mmc w m')" "reads (p_mmc w1 m') = reads (p_mmc w m')"
    "pipeline_ok (p_mmc w1 m') = pipeline_ok (p_mmc w m')" "m_sendqueue (p_mmc w1 m') = m_sendqueue (p_mmc w m')"
    "m_sendreq (p_mmc w1 m') = m_sendreq (p_mmc w m')" "m_readreq (p_mmc w1 m') = m_readreq (p_mmc w m')"
    "st_retry_interval (m_tcp (p_mmc w1 m')) = st_retry_interval (m_tcp (p_mmc w m'))" for m'
    using pipeline_fields [of "p_mmc w1 m'" "p_mmc w m'"] s by blast+
  have act: "active w1 = active w" by (simp add: active_def f)
  then show kn: "known w1 = known w" using s by (simp add: known_def)
  have "r \<notin> set (reads (p_mmc w m'))" for m' using assms(3) by (auto simp: known_def active_def owned_def)
  then have "slotted w1 m' = slotted w m'" for m'
    using s by (fastforce simp: slotted_def f)
  then show "pool_inv ret w1"
    using assms(2) s by (simp add: pool_inv_def server_inv_def polled_def f act)
  show "frame t0 {m} w w1" using s by (simp add: frame_def)
qed

lemma slot_send_spec:
  assumes ops: "ops_ok t0 ret ops" and quick: "quick env t0 ret" and w: "pool_inv ret w" "plain w" "r \<notin> known w"
    and f: "mmc_pool_slot_send ops env pr m (Some r) False w = Some (x, w')" and free: "m_sendreq (p_mmc w m) = None"
  shows "(x = MMC_OK \<and> (\<exists>w1 w2. connect_spec t0 ret m w w1 \<and> slot_of m r w1 w2 \<and> w' = set_sendreq m (Some r) w2)) \<or>
         (x \<noteq> MMC_OK \<and> connect_spec t0 ret m w w')"
proof -
  obtain u w1 where u: "(if r_protocol_udp (p_req w r) \<and> st_port (m_udp (p_mmc w m)) \<noteq> 0 \<and>
                  int (length (pr_sendbuf pr (r_proto (p_req w r)))) \<le> st_chunk_size (m_udp (p_mmc w m))
               then mmc_pool_open ops env pr m True w else Some (MMC_REQUEST_FAILURE, w)) = Some (u, w1)"
    and rest: "(if u = MMC_OK then Some (MMC_OK, set_sendreq m (Some r) (slot_udp pr m r w1))
       else do {
              (tcp, w) \<leftarrow> mmc_pool_open ops env pr m False w1;
              if tcp = MMC_OK then Some (MMC_OK, set_sendreq m (Some r) (slot_tcp m r w))
              else Some (MMC_REQUEST_FAILURE, set_sendreq m None w)
            }) = Some (x, w')"
    using f unfolding mmc_pool_slot_send_def Let_def option.case if_False
    by (simp only: bind_eq_Some_conv split_paired_Ex prod.case) blast
  have c1: "connect_spec t0 ret m w w1"
    using u pool_open_spec [OF ops quick w(1,2)] connect_spec_refl [OF w(1)] by (auto split: if_splits)
  show ?thesis
  proof (cases "u = MMC_OK")
    case True
    then have "x = MMC_OK" "w' = set_sendreq m (Some r) (slot_udp pr m r w1)" using rest by simp_all
    then show ?thesis using c1 slot_of_slots(2) [of m r w1 pr] by blast
  next
    case False
    then obtain v w2 where v: "mmc_pool_open ops env pr m False w1 = Some (v, w2)"
      and r2: "(if v = MMC_OK then Some (MMC_OK, set_sendreq m (Some r) (slot_tcp m r w2))
              else Some (MMC_REQUEST_FAILURE, set_sendreq m None w2)) = Some (x, w')"
      using rest by (auto simp: bind_eq_Some_conv)
    have "pool_inv ret w1" using c1 by (simp add: connect_spec_def)
    from connect_spec_trans [OF c1 pool_open_spec [OF ops quick this connect_spec_plain [OF c1 w(2)] v]]
    have c2: "connect_spec t0 ret m w w2" .
    have none: "m_sendreq (p_mmc w2 m) = None" using c2 free by (simp add: connect_spec_def)
    have "upd_mmc m (\<lambda>mmc. mmc\<lparr>m_sendreq := None\<rparr>) w2 = w2"
      using none by (simp add: upd_mmc_def fun_upd_idem)
    then have "x = MMC_OK \<and> w' = set_sendreq m (Some r) (slot_tcp m r w2) \<or> x \<noteq> MMC_OK \<and> w' = w2"
      using r2 by (auto simp: set_sendreq_def mmc_consts split: if_splits)
    then show ?thesis using c2 slot_of_slots(1) [of m r w2] by blast
  qed
qed

text \<open>A request joins the end of both sequences of a server.\<close>

lemma append_request:
  assumes w: "pool_inv ret w" "r \<notin> known w"
    and M: "p_mmc W = (p_mmc w)(m := M)" "sends M = sends (p_mmc w m) @ [r]" "reads M = reads (p_mmc w m) @ [r]"
      "m_buildreq M = m_buildreq (p_mmc w m)" "m_sendreq M \<noteq> None" "m_readreq M \<noteq> None"
      "set (fq_list (m_sendqueue (p_mmc w m))) \<subseteq> set (fq_list (m_sendqueue M))"
      "st_retry_interval (m_tcp M) = st_retry_interval (m_tcp (p_mmc w m))"
    and io: "r \<in> set (fq_list (m_sendqueue M)) \<or> (\<exists>udp. r_io (p_req W r) = Some (m, udp))"
      "\<And>r'. r' \<noteq> r \<Longrightarrow> r_io (p_req W r') = r_io (p_req w r')"
    and q: "p_first W = p_first w" "p_free_requests W = p_free_requests w"
      "set (fq_list (sending (p_first w) W)) = insert m (set (fq_list (sending (p_first w) w)))"
      "set (fq_list (reading (p_first w) W)) = insert m (set (fq_list (reading (p_first w) w)))"
  shows "pool_inv ret W" and "known W = insert r (known w)"
proof -
  note inv = pool_invD [OF w(1)]
  have r: "r \<notin> set (owned (p_mmc w m'))" for m' using w(2) by (auto simp: known_def active_def)
  have own: "set (owned (p_mmc W m')) = (if m' = m then insert r (set (owned (p_mmc w m'))) else set (owned (p_mmc w m')))" for m'
    by (auto simp: M(1,3,4) owned_def)
  have act: "active W = insert r (active w)" by (auto simp: active_def own split: if_splits)
  then show "known W = insert r (known w)" by (simp add: known_def q)
  have "server_inv ret W m'" for m'
  proof (cases "m' = m")
    case True
    have "pipeline_ok M"
      using inv(1) [of m] r [of m] M(2-6) by (auto simp: pipeline_ok_def owned_def)
    moreover have "slotted W m"
      using inv(2) [of m] io M(1,3,7) by (fastforce simp: slotted_def)
    moreover have "polled W m" using M(1,5,6) q(3,4) by (simp add: polled_def q(1))
    ultimately show ?thesis using True M(1,8) inv(4) [of m] by (simp add: server_inv_def)
  next
    case False
    have "slotted W m'"
      using inv(2) [of m'] io(2) r [of m'] False M(1) by (auto simp: slotted_def owned_def) metis+
    moreover have "polled W m'" using inv(3) [of m'] False M(1) q(1,3,4) by (simp add: polled_def)
    ultimately show ?thesis using False M(1) inv(1,4) [of m'] by (simp add: server_inv_def)
  qed
  moreover have "set (owned (p_mmc W a)) \<inter> set (owned (p_mmc W b)) = {}" if "a \<noteq> b" for a b
    using inv(5) [OF that] r that by (auto simp: own)
  moreover have "r \<notin> set (fq_list (p_free_requests w))" using w(2) by (simp add: known_def)
  then have "active W \<inter> set (fq_list (p_free_requests W)) = {}" using inv(6) by (auto simp: act q)
  ultimately show "pool_inv ret W" by (simp add: pool_inv_def)
qed

lemma schedule_read_fields:
  assumes "m_readreq (p_mmc w m) = None \<longrightarrow> fq_list (m_readqueue (p_mmc w m)) = []" and "r \<notin> set (reads (p_mmc w m))"
  shows "\<exists>M. p_mmc (schedule_read m r w) = (p_mmc w)(m := M) \<and> reads M = reads (p_mmc w m) @ [r] \<and> m_readreq M \<noteq> None \<and>
    m_buildreq M = m_buildreq (p_mmc w m) \<and> m_sendreq M = m_sendreq (p_mmc w m) \<and> m_sendqueue M = m_sendqueue (p_mmc w m) \<and>
    m_tcp M = m_tcp (p_mmc w m)"
    and "p_req (schedule_read m r w) = p_req w" and "p_first (schedule_read m r w) = p_first w"
    and "p_free_requests (schedule_read m r w) = p_free_requests w"
    and "sending ph (schedule_read m r w) = sending ph w" and "p_servers (schedule_read m r w) = p_servers w"
    and "set (fq_list (reading (p_first w) (schedule_read m r w))) =
      (if m_readreq (p_mmc w m) = None then insert m (set (fq_list (reading (p_first w) w))) else set (fq_list (reading (p_first w) w)))"
  using assms
  by (auto simp: schedule_read_def set_readreq_def reads_def intro!: exI)

lemma set_push [simp]: "set (if x \<in> set xs then xs else xs @ [x]) = insert x (set xs)"
  by auto

lemma commit_slot:
  assumes w: "pool_inv ret w" "r \<notin> known w" "m_sendreq (p_mmc w m) = None" and io: "\<exists>udp. r_io (p_req w r) = Some (m, udp)"
  defines "W \<equiv> schedule_read m r (map_sending (p_first w) (\<lambda>q. fq_push q m) (set_sendreq m (Some r) w))"
  shows "pool_inv ret W" and "known W = insert r (known w)" and "frame t0 {m} w W"
proof -
  let ?v = "map_sending (p_first w) (\<lambda>q. fq_push q m) (set_sendreq m (Some r) w)"
  note inv = pool_invD [OF w(1)]
  have e: "fq_list (m_sendqueue (p_mmc w m)) = []" "m_readreq (p_mmc w m) = None \<longrightarrow> fq_list (m_readqueue (p_mmc w m)) = []"
    using inv(1) [of m] w(3) by (simp_all add: pipeline_ok_def)
  have r: "r \<notin> set (reads (p_mmc w m))" using w(2) by (auto simp: known_def active_def owned_def)
  have pm: "p_mmc ?v = (p_mmc w)(m := (p_mmc w m)\<lparr>m_sendreq := Some r\<rparr>)" by (simp add: set_sendreq_def)
  have v: "m_readreq (p_mmc ?v m) = None \<longrightarrow> fq_list (m_readqueue (p_mmc ?v m)) = []" "reads (p_mmc ?v m) = reads (p_mmc w m)"
    using e(2) unfolding pm by (simp_all add: reads_def)
  note f = schedule_read_fields [OF v(1) r [folded v(2)], folded W_def]
  obtain M where M: "p_mmc W = (p_mmc w)(m := M)" "reads M = reads (p_mmc w m) @ [r]" "m_readreq M \<noteq> None"
    "m_buildreq M = m_buildreq (p_mmc w m)" "m_sendreq M = Some r" "m_sendqueue M = m_sendqueue (p_mmc w m)"
    "m_tcp M = m_tcp (p_mmc w m)"
    using f(1) v(2) unfolding pm by auto
  note pW = M(1)
  have q: "p_req W = p_req w" "p_first W = p_first w" "p_free_requests W = p_free_requests w" "p_servers W = p_servers w"
    "set (fq_list (sending (p_first w) W)) = insert m (set (fq_list (sending (p_first w) w)))"
    using f(2-6) by (simp_all add: set_sendreq_def)
  have "m_readreq (p_mmc w m) \<noteq> None \<longrightarrow> m \<in> set (fq_list (reading (p_first w) w))"
    using inv(3) [of m] by (simp add: polled_def)
  then have rq: "set (fq_list (reading (p_first w) W)) = insert m (set (fq_list (reading (p_first w) w)))"
    using f(7) by (auto simp: set_sendreq_def)
  have "sends M = sends (p_mmc w m) @ [r]" using e(1) w(3) M(5,6) by (simp add: sends_def)
  note a = append_request [OF w(1,2) pW this M(2,4) _ M(3)]
  show "pool_inv ret W" using M(5-7) q rq io by (intro a(1)) auto
  show "known W = insert r (known w)" using M(5-7) q rq io by (intro a(2)) auto
  show "frame t0 {m} w W" using q pW by (simp add: frame_def)
qed

lemma commit_queue:
  assumes w: "pool_inv ret w" "r \<notin> known w" "m_sendreq (p_mmc w m) \<noteq> None"
  defines "W \<equiv> schedule_read m r (upd_mmc m (\<lambda>mmc. mmc\<lparr>m_sendqueue := fq_push (m_sendqueue mmc) r\<rparr>) w)"
  shows "pool_inv ret W" and "known W = insert r (known w)" and "frame t0 {m} w W"
proof -
  let ?v = "upd_mmc m (\<lambda>mmc. mmc\<lparr>m_sendqueue := fq_push (m_sendqueue mmc) r\<rparr>) w"
  note inv = pool_invD [OF w(1)]
  have e: "m_readreq (p_mmc w m) = None \<longrightarrow> fq_list (m_readqueue (p_mmc w m)) = []"
    using inv(1) [of m] by (simp_all add: pipeline_ok_def)
  have r: "r \<notin> set (reads (p_mmc w m))" using w(2) by (auto simp: known_def active_def owned_def)
  then have rs: "r \<notin> set (sends (p_mmc w m))"
    using inv(1) [of m] by (auto simp: pipeline_ok_def suffix_def)
  have v: "m_readreq (p_mmc ?v m) = None \<longrightarrow> fq_list (m_readqueue (p_mmc ?v m)) = []" "reads (p_mmc ?v m) = reads (p_mmc w m)"
    using e by (simp_all add: reads_def)
  note f = schedule_read_fields [OF v(1) r [folded v(2)], folded W_def]
  obtain M where M: "p_mmc W = (p_mmc ?v)(m := M)" "reads M = reads (p_mmc w m) @ [r]" "m_readreq M \<noteq> None"
    "m_buildreq M = m_buildreq (p_mmc w m)" "m_sendreq M = m_sendreq (p_mmc w m)"
    "m_sendqueue M = fq_push (m_sendqueue (p_mmc w m)) r" "m_tcp M = m_tcp (p_mmc w m)"
    using f(1) v(2) by auto
  have pW: "p_mmc W = (p_mmc w)(m := M)" unfolding M(1) by simp
  have q: "p_req W = p_req w" "p_first W = p_first w" "p_free_requests W = p_free_requests w" "p_servers W = p_servers w"
    "fq_list (sending (p_first w) W) = fq_list (sending (p_first w) w)"
    using f(2-6) by simp_all
  have pl: "m_readreq (p_mmc w m) \<noteq> None \<longrightarrow> m \<in> set (fq_list (reading (p_first w) w))" "m \<in> set (fq_list (sending (p_first w) w))"
    using inv(3) [of m] w(3) by (simp_all add: polled_def)
  then have rq: "set (fq_list (reading (p_first w) W)) = insert m (set (fq_list (reading (p_first w) w)))"
    using f(7) by auto
  have "sends M = sends (p_mmc w m) @ [r]" using rs M(5,6) by (auto simp: sends_def)
  note a = append_request [OF w(1,2) pW this M(2,4) _ M(3)]
  show "pool_inv ret W" using M(5-7) q rq w(3) pl(2) by (intro a(1)) auto
  show "known W = insert r (known w)" using M(5-7) q rq w(3) pl(2) by (intro a(2)) auto
  show "frame t0 {m} w W" using q pW by (simp add: frame_def)
qed

text \<open>
  \<^verbatim>\<open>mmc_pool_schedule\<close>: a request that no one owned is, whatever the network does, owned by
  exactly one server or released afterwards, and the invariant holds again.
\<close>

lemma schedule_spec:
  assumes ops: "ops_ok t0 ret ops" and quick: "quick env t0 ret"
  shows "request_spec t0 ret (mmc_pool_schedule ops env pr m)"
proof (rule request_specI)
  fix w :: "('a, 'b, 'c, 'd) mmc_pool_t" and r x w'
  assume w: "pool_inv ret w" "plain w" "r \<notin> known w" and f: "mmc_pool_schedule ops env pr m r w = Some (x, w')"
  let ?g = "\<lambda>req. req\<lparr>r_send_idx := 0, r_proto := pr_reset_readbuf pr (r_proto req)\<rparr>"
  let ?w = "upd_req r ?g w"
  note v = view_cong [OF upd_req_view [of ?g w r], simplified]
  have fr: "frame t0 M w ?w" for M by (rule upd_req_frame) simp
  have w1: "pool_inv ret ?w" "plain ?w" "r \<notin> known ?w" using w v frame_plain [OF fr w(2)] by simp_all
  show "pool_inv ret w' \<and> frame t0 {} w w' \<and> known w' = insert r (known w)"
  proof (cases "server_valid env w m")
    case False
    then show ?thesis
      using f request_specD [OF call_failover_spec [OF ops] _ w] by (simp add: mmc_pool_schedule_def)
  next
    case True
    then have nd: "\<not> down t0 (p_mmc w m)" using down_not_valid [OF quick w(1)] by blast
    have fin: "frame t0 {m} w w2 \<Longrightarrow> frame t0 {} w w2" for w2 :: "('a, 'b, 'c, 'd) mmc_pool_t"
      using nd unfolding frame_def by (metis empty_iff singletonD)
    show ?thesis
    proof (cases "m_sendreq (p_mmc w m) = None")
      case free: True
      then obtain y w2 where s: "mmc_pool_slot_send ops env pr m (Some r) False ?w = Some (y, w2)"
        and rest: "(if y \<noteq> MMC_OK then call_failover ops env pr m r w2
            else Some (MMC_OK, schedule_read m r (map_sending (p_first w2) (\<lambda>q. fq_push q m) w2))) = Some (x, w')"
        using f True by (auto simp: mmc_pool_schedule_def Let_def bind_eq_Some_conv)
      have "m_sendreq (p_mmc ?w m) = None" using free by simp
      from slot_send_spec [OF ops quick w1 s this] show ?thesis
      proof (elim disjE conjE exE)
        fix w3 w4 assume y: "y = MMC_OK" and c: "connect_spec t0 ret m ?w w3" and so: "slot_of m r w3 w4"
          and w2: "w2 = set_sendreq m (Some r) w4"
        have c': "pool_inv ret w3" "frame t0 {m} ?w w3" "known w3 = known w" "m_sendreq (p_mmc w3 m) = None"
          using c free v(2) by (simp_all add: connect_spec_def)
        have r3: "r \<notin> known w3" using c'(3) w(3) by simp
        note so' = slot_of_inv [OF so c'(1) r3]
        have "m_sendreq (p_mmc w4 m) = None" "\<exists>udp. r_io (p_req w4 r) = Some (m, udp)"
          using so c'(4) pipeline_fields [of "p_mmc w4 m" "p_mmc w3 m"] by (auto simp: slot_of_def)
        note cs = commit_slot [OF so'(1) _ this]
        have "w' = schedule_read m r (map_sending (p_first w4) (\<lambda>q. fq_push q m) (set_sendreq m (Some r) w4))"
          using rest y w2 by (simp add: set_sendreq_def)
        then show ?thesis
          using cs r3 so'(2) c'(3) fin [OF frame_trans [OF fr frame_trans [OF c'(2) frame_trans [OF so'(3) cs(3)]]]] by simp
      next
        assume y: "y \<noteq> MMC_OK" and c: "connect_spec t0 ret m ?w w2"
        have c': "pool_inv ret w2" "frame t0 {m} ?w w2" "known w2 = known w" using c v(2) by (simp_all add: connect_spec_def)
        have "call_failover ops env pr m r w2 = Some (x, w')" using rest y by simp
        from request_specD [OF call_failover_spec [OF ops] this c'(1) connect_spec_plain [OF c w1(2)]] c'(3) w(3)
        have "pool_inv ret w'" "frame t0 {} w2 w'" "known w' = insert r (known w)" by simp_all
        then show ?thesis
          using fin [OF frame_trans [OF fr frame_trans [OF c'(2) frame_mono]]] by blast
      qed
    next
      case busy: False
      then have "m_sendreq (p_mmc ?w m) \<noteq> None" by simp
      note cq = commit_queue [OF w1(1,3) this]
      have "w' = schedule_read m r (upd_mmc m (\<lambda>mmc. mmc\<lparr>m_sendqueue := fq_push (m_sendqueue mmc) r\<rparr>) ?w)"
        using f True busy by (simp add: mmc_pool_schedule_def Let_def)
      then show ?thesis using cq v(2) fin [OF frame_trans [OF fr cq(3)]] by simp
    qed
  qed
qed

end
