(* ===== verification/Mmc_Select.thy ===== *)
theory Mmc_Select
  imports Mmc_Pool_Inv
begin

text \<open>
  The round of \<^verbatim>\<open>mmc_pool_select\<close> over all scheduled requests, with \<^verbatim>\<open>select\<close> and with
  \<^verbatim>\<open>poll\<close>, and \<^verbatim>\<open>mmc_pool_run\<close>, of \<^verbatim>\<open>src/memcache_pool.c\<close>.

  The two variants of the code differ in how they ask for readiness and in their timeout
  loops; the loops that send and read are the same text with another test, and the flag
  \<open>poll\<close> selects the test here. The local pointers \<^verbatim>\<open>sending\<close> and \<^verbatim>\<open>reading\<close> are the pair
  of queues \<open>ph\<close> names; the loops go over the live queues by index.

  A round that is entered again from a failover handler completes the outer one, which
  notices and returns: the operations of the loops therefore say whether to return. A value
  that is unserialized is assumed not to enter the pool again.

  The loops are partial functions: \<open>None\<close> is a loop that does not end or one of the faults
  named in \<open>Mmc_Pool\<close>. Faults of this file: a NULL pointer that is followed, a descriptor
  outside of the set, a request whose stream belongs to another server, an unexpected
  return value (\<^verbatim>\<open>E_ERROR\<close>), the release of NULL (which the code puts on its free list), and
  the read of the uninitialised \<^verbatim>\<open>should_free_fds\<close>.
\<close>

subsection \<open>Failures and retries\<close>

definition mmc_pool_switch :: "('d, 'o, 'u, 'p) mmc_pool_t \<Rightarrow> ('d, 'o, 'u, 'p) mmc_pool_t" where
  "mmc_pool_switch w =
     (let w = w\<lparr>p_first := \<not> p_first w\<rparr>
      in map_reading (p_first w) fq_reset (map_sending (p_first w) fq_reset w))"

definition mmc_select_failure ::
  "('d, 'o, 'u, 'p) pool_ops \<Rightarrow> 'u mmc_env \<Rightarrow> ('d, 'o, 'u, 'p) mmc_protocol_t \<Rightarrow> nat \<Rightarrow> nat \<Rightarrow> int \<Rightarrow>
   ('d, 'o, 'u, 'p) mmc_pool_t \<Rightarrow> ('d, 'o, 'u, 'p) pool_result" where
  "mmc_select_failure ops env pr mmc r result w =
     do {
       (io_mmc, udp) \<leftarrow> r_io (p_req w r);
       if io_mmc \<noteq> mmc then None
       else if result = 0 \<and> fst (mmc_server_failure udp (p_mmc w mmc) (bytes ''Network timeout'') 0) = MMC_REQUEST_RETRY
       then Some (MMC_REQUEST_RETRY,
         upd_mmc mmc (\<lambda>m. snd (mmc_server_failure udp m (bytes ''Network timeout'') 0)) w)
       else do {
         w \<leftarrow> mmc_server_deactivate ops env pr mmc
               (if result = 0 then upd_mmc mmc (\<lambda>m. snd (mmc_server_failure udp m (bytes ''Network timeout'') 0)) w
                else upd_mmc mmc (\<lambda>m. mmc_server_seterror m (Some (fst (e_select_error env (p_calls w))))
                                       (snd (e_select_error env (p_calls w)))) (tick w));
         Some (MMC_REQUEST_FAILURE, w)
       }
     }"

text \<open>\<^verbatim>\<open>mmc_pool_slot_send(pool, mmc, mmc_queue_pop(&(mmc->sendqueue)), 1)\<close>\<close>

definition slot_next ::
  "('d, 'o, 'u, 'p) pool_ops \<Rightarrow> 'u mmc_env \<Rightarrow> ('d, 'o, 'u, 'p) mmc_protocol_t \<Rightarrow> nat \<Rightarrow>
   ('d, 'o, 'u, 'p) mmc_pool_t \<Rightarrow> ('d, 'o, 'u, 'p) mmc_pool_t option" where
  "slot_next ops env pr mmc w =
     map_option snd (mmc_pool_slot_send ops env pr mmc (fq_next (m_sendqueue (p_mmc w mmc))) True
       (upd_mmc mmc (\<lambda>m. m\<lparr>m_sendqueue := fq_rest (m_sendqueue m)\<rparr>) w))"

text \<open>A server without a request to send leaves the queue of the servers that send.\<close>

definition drop_sender :: "nat \<Rightarrow> ('d, 'o, 'u, 'p) mmc_pool_t \<Rightarrow> ('d, 'o, 'u, 'p) mmc_pool_t" where
  "drop_sender mmc w =
     (if m_sendreq (p_mmc w mmc) = None then map_sending (p_first w) (\<lambda>q. fq_remove q mmc) w else w)"

definition next_read :: "nat \<Rightarrow> ('d, 'o, 'u, 'p) mmc_pool_t \<Rightarrow> ('d, 'o, 'u, 'p) mmc_pool_t" where
  "next_read mmc w =
     upd_mmc mmc (\<lambda>m. m\<lparr>m_readreq := fq_next (m_readqueue m), m_readqueue := fq_rest (m_readqueue m)\<rparr>) w"

definition mmc_select_retry ::
  "('d, 'o, 'u, 'p) pool_ops \<Rightarrow> 'u mmc_env \<Rightarrow> ('d, 'o, 'u, 'p) mmc_protocol_t \<Rightarrow> nat \<Rightarrow> nat \<Rightarrow>
   ('d, 'o, 'u, 'p) mmc_pool_t \<Rightarrow> ('d, 'o, 'u, 'p) mmc_pool_t option" where
  "mmc_select_retry ops env pr mmc r w =
     do {
       let w = upd_mmc mmc (\<lambda>m. m\<lparr>m_sendqueue := fq_remove (m_sendqueue m) r, m_readqueue := fq_remove (m_readqueue m) r\<rparr>) w;
       w \<leftarrow> (if m_sendreq (p_mmc w mmc) = Some r then map_option (drop_sender mmc) (slot_next ops env pr mmc w) else Some w);
       let w = (if m_readreq (p_mmc w mmc) = Some r then
                  let w = next_read mmc w in
                  if m_readreq (p_mmc w mmc) = None then map_reading (p_first w) (\<lambda>q. fq_remove q mmc) w else w
                else w);
       (_, w) \<leftarrow> call_failover ops env pr mmc r w;
       Some w
     }"

subsection \<open>Asking for readiness\<close>

text \<open>The slot of a server and the queue of a direction; the direction is reading or sending.\<close>

definition req_of :: "bool \<Rightarrow> mmc_t \<Rightarrow> nat option" where
  "req_of rd mmc = (if rd then m_readreq mmc else m_sendreq mmc)"

definition queue_of :: "bool \<Rightarrow> bool \<Rightarrow> ('d, 'o, 'u, 'p) mmc_pool_t \<Rightarrow> nat fifo" where
  "queue_of rd ph w = (if rd then reading ph w else sending ph w)"

definition set_queue :: "bool \<Rightarrow> bool \<Rightarrow> (nat fifo \<Rightarrow> nat fifo) \<Rightarrow> ('d, 'o, 'u, 'p) mmc_pool_t \<Rightarrow> ('d, 'o, 'u, 'p) mmc_pool_t" where
  "set_queue rd ph f w = (if rd then map_reading ph f w else map_sending ph f w)"

text \<open>\<^verbatim>\<open>request->io->fd\<close>\<close>

definition req_fd :: "('d, 'o, 'u, 'p) mmc_pool_t \<Rightarrow> nat option \<Rightarrow> int option" where
  "req_fd w request =
     do {
       r \<leftarrow> request;
       (m, udp) \<leftarrow> r_io (p_req w r);
       Some (st_fd (stream_of udp (p_mmc w m)))
     }"

fun collect_fds :: "bool \<Rightarrow> nat list \<Rightarrow> ('d, 'o, 'u, 'p) mmc_pool_t \<Rightarrow> int set option" where
  "collect_fds rd [] w = Some {}"
| "collect_fds rd (m # ms) w =
     do {
       fd \<leftarrow> req_fd w (req_of rd (p_mmc w m));
       fds \<leftarrow> collect_fds rd ms w;
       if 0 \<le> fd \<and> fd < FD_SETSIZE then Some (insert fd fds) else None
     }"

definition POLLIN :: u16 where [mmc_consts]: "POLLIN = 1"
definition POLLOUT :: u16 where [mmc_consts]: "POLLOUT = 4"

definition poll_bit :: "bool \<Rightarrow> u16" where
  "poll_bit rd = (if rd then POLLIN else POLLOUT)"

fun poll_event :: "pollfd list \<Rightarrow> int \<Rightarrow> u16 \<Rightarrow> pollfd list" where
  "poll_event [] fd event = [\<lparr>pf_fd = fd, pf_events = event, pf_revents = 0\<rparr>]"
| "poll_event (p # ps) fd event =
     (if pf_fd p = fd then p\<lparr>pf_events := or (pf_events p) event\<rparr> # ps else p # poll_event ps fd event)"

definition mmc_pool_add_poll_event :: "int \<Rightarrow> u16 \<Rightarrow> ('d, 'o, 'u, 'p) mmc_pool_t \<Rightarrow> ('d, 'o, 'u, 'p) mmc_pool_t" where
  "mmc_pool_add_poll_event fd event w = w\<lparr>p_pollfds := poll_event (p_pollfds w) fd event\<rparr>"

fun poll_idx :: "pollfd list \<Rightarrow> int \<Rightarrow> u16 \<Rightarrow> nat option" where
  "poll_idx [] fd event = None"
| "poll_idx (p # ps) fd event =
     (if pf_fd p = fd \<and> and (pf_revents p) event \<noteq> 0 then Some 0 else map_option Suc (poll_idx ps fd event))"

definition mmc_pool_poll_event_idx :: "int \<Rightarrow> u16 \<Rightarrow> ('d, 'o, 'u, 'p) mmc_pool_t \<Rightarrow> nat option" where
  "mmc_pool_poll_event_idx fd event w = poll_idx (p_pollfds w) fd event"

fun add_poll_events :: "bool \<Rightarrow> nat list \<Rightarrow> ('d, 'o, 'u, 'p) mmc_pool_t \<Rightarrow> ('d, 'o, 'u, 'p) mmc_pool_t option" where
  "add_poll_events rd [] w = Some w"
| "add_poll_events rd (m # ms) w =
     do {
       fd \<leftarrow> req_fd w (req_of rd (p_mmc w m));
       add_poll_events rd ms (mmc_pool_add_poll_event fd (poll_bit rd) w)
     }"

text \<open>
  Whether a descriptor is ready, and the reset of its bit: \<^verbatim>\<open>FD_ISSET\<close> and \<^verbatim>\<open>FD_CLR\<close>, or the
  search in the array of \<^verbatim>\<open>poll\<close> and the masking of its entry.
\<close>

definition is_ready :: "bool \<Rightarrow> bool \<Rightarrow> int \<Rightarrow> ('d, 'o, 'u, 'p) mmc_pool_t \<Rightarrow> bool" where
  "is_ready poll rd fd w =
     (if poll then mmc_pool_poll_event_idx fd (poll_bit rd) w \<noteq> None
      else fd \<in> (if rd then p_rfds w else p_wfds w))"

definition clear_ready :: "bool \<Rightarrow> bool \<Rightarrow> int \<Rightarrow> ('d, 'o, 'u, 'p) mmc_pool_t \<Rightarrow> ('d, 'o, 'u, 'p) mmc_pool_t" where
  "clear_ready poll rd fd w =
     (if poll then
        case mmc_pool_poll_event_idx fd (poll_bit rd) w of
          None \<Rightarrow> w
        | Some i \<Rightarrow> w\<lparr>p_pollfds := (p_pollfds w)[i := (p_pollfds w ! i)
             \<lparr>pf_revents := and (pf_revents (p_pollfds w ! i)) (NOT (poll_bit rd))\<rparr>]\<rparr>
      else if rd then w\<lparr>p_rfds := p_rfds w - {fd}\<rparr>
      else w\<lparr>p_wfds := p_wfds w - {fd}\<rparr>)"

subsection \<open>Timeouts\<close>

text \<open>
  The loops after a \<^verbatim>\<open>select\<close> or \<^verbatim>\<open>poll\<close> that found nothing: each server that is not ready
  (each server at all, for \<^verbatim>\<open>poll\<close>) is taken out of the two queues of this round and fails.
\<close>

definition timed_out ::
  "('d, 'o, 'u, 'p) pool_ops \<Rightarrow> 'u mmc_env \<Rightarrow> ('d, 'o, 'u, 'p) mmc_protocol_t \<Rightarrow> bool \<Rightarrow> nat \<Rightarrow> int \<Rightarrow>
   ('d, 'o, 'u, 'p) mmc_pool_t \<Rightarrow> ('d, 'o, 'u, 'p) mmc_pool_t option" where
  "timed_out ops env pr rd mmc result w =
     do {
       r \<leftarrow> req_of rd (p_mmc w mmc);
       (x, w) \<leftarrow> mmc_select_failure ops env pr mmc r result w;
       if x = MMC_REQUEST_RETRY
       then do { r \<leftarrow> req_of rd (p_mmc w mmc); mmc_select_retry ops env pr mmc r w }
       else Some w
     }"

partial_function (option) timeout_loop ::
  "('d, 'o, 'u, 'p) pool_ops \<Rightarrow> 'u mmc_env \<Rightarrow> ('d, 'o, 'u, 'p) mmc_protocol_t \<Rightarrow> bool \<Rightarrow> bool \<Rightarrow> bool \<Rightarrow> int \<Rightarrow> nat \<Rightarrow>
   ('d, 'o, 'u, 'p) mmc_pool_t \<Rightarrow> ('d, 'o, 'u, 'p) mmc_pool_t option" where
  "timeout_loop ops env pr poll rd ph result i w =
     (if i \<ge> fq_len (queue_of rd ph w) then Some w
      else
        let mmc = fq_list (queue_of rd ph w) ! i in
        Option.bind (if poll then Some False else map_option (\<lambda>fd. is_ready False rd fd w) (req_fd w (req_of rd (p_mmc w mmc))))
          (\<lambda>ready. if ready then timeout_loop ops env pr poll rd ph result (i + 1) w
            else Option.bind
              (timed_out ops env pr rd mmc result (map_reading ph (\<lambda>q. fq_remove q mmc) (map_sending ph (\<lambda>q. fq_remove q mmc) w)))
              (\<lambda>w. timeout_loop ops env pr poll rd ph result i w)))"

subsection \<open>Sending\<close>

text \<open>
  One turn of the loop over the send slot of a server: whether the round is over, the result
  and the pool. \<^verbatim>\<open>send\<close> takes at most the bytes it was given.
\<close>

definition clip_send :: "int \<Rightarrow> send_result \<Rightarrow> send_result" where
  "clip_send limit out = (case out of Sent n \<Rightarrow> Sent (min n (nat limit)) | _ \<Rightarrow> out)"

definition send_request ::
  "'u mmc_env \<Rightarrow> ('d, 'o, 'u, 'p) mmc_protocol_t \<Rightarrow> nat \<Rightarrow> nat \<Rightarrow> ('d, 'o, 'u, 'p) mmc_pool_t \<Rightarrow> ('d, 'o, 'u, 'p) pool_result" where
  "send_request env pr mmc r w =
     do {
       (io_mmc, udp) \<leftarrow> r_io (p_req w r);
       if io_mmc \<noteq> mmc \<or> st_stream (stream_of udp (p_mmc w mmc)) = None then None
       else
         let req = p_req w r; sendbuf = pr_sendbuf pr (r_proto req); idx = r_send_idx req;
             out = clip_send (send_count (st_chunk_size (stream_of udp (p_mmc w mmc))) (length sendbuf) idx)
                     (e_send env (p_calls w));
             (result, idx, server) = mmc_request_send udp (p_mmc w mmc) sendbuf idx out
         in Some (result, upd_req r (\<lambda>req. req\<lparr>r_send_idx := idx\<rparr>) (upd_mmc mmc (\<lambda>_. server) (tick w)))
     }"

definition send_turn ::
  "('d, 'o, 'u, 'p) pool_ops \<Rightarrow> 'u mmc_env \<Rightarrow> ('d, 'o, 'u, 'p) mmc_protocol_t \<Rightarrow> bool \<Rightarrow> nat \<Rightarrow>
   ('d, 'o, 'u, 'p) mmc_pool_t \<Rightarrow> (bool \<times> int \<times> ('d, 'o, 'u, 'p) mmc_pool_t) option" where
  "send_turn ops env pr ph mmc w =
     do {
       r \<leftarrow> m_sendreq (p_mmc w mmc);
       (result, w) \<leftarrow> send_request env pr mmc r w;
       if \<not> p_in_select w then Some (True, result, w)
       else do {
         w \<leftarrow> (if result = MMC_REQUEST_FAILURE then
                 map_option (map_reading ph (\<lambda>q. fq_remove q mmc)) (mmc_server_deactivate ops env pr mmc w)
               else if result = MMC_REQUEST_RETRY then mmc_select_retry ops env pr mmc r w
               else if result = MMC_REQUEST_DONE then slot_next ops env pr mmc w
               else if result = MMC_REQUEST_MORE then Some w
               else None);
         Some (False, result, w)
       }
     }"

partial_function (option) send_loop ::
  "('d, 'o, 'u, 'p) pool_ops \<Rightarrow> 'u mmc_env \<Rightarrow> ('d, 'o, 'u, 'p) mmc_protocol_t \<Rightarrow> bool \<Rightarrow> nat \<Rightarrow>
   ('d, 'o, 'u, 'p) mmc_pool_t \<Rightarrow> (bool \<times> int \<times> ('d, 'o, 'u, 'p) mmc_pool_t) option" where
  "send_loop ops env pr ph mmc w =
     Option.bind (send_turn ops env pr ph mmc w) (\<lambda>(over, result, w).
       if over then Some (True, result, w)
       else if m_sendreq (p_mmc w mmc) \<noteq> None \<and> (result = MMC_REQUEST_DONE \<or> result = MMC_REQUEST_AGAIN)
       then send_loop ops env pr ph mmc w
       else Some (False, result, w))"

text \<open>The body of the loop over the servers that send; the boolean says that the round is over.\<close>

definition send_server ::
  "('d, 'o, 'u, 'p) pool_ops \<Rightarrow> 'u mmc_env \<Rightarrow> ('d, 'o, 'u, 'p) mmc_protocol_t \<Rightarrow> bool \<Rightarrow> bool \<Rightarrow> nat \<Rightarrow>
   ('d, 'o, 'u, 'p) mmc_pool_t \<Rightarrow> (bool \<times> ('d, 'o, 'u, 'p) mmc_pool_t) option" where
  "send_server ops env pr poll ph mmc w =
     (if m_sendreq (p_mmc w mmc) = None then Some (False, w)
      else do {
        fd \<leftarrow> req_fd w (m_sendreq (p_mmc w mmc));
        if is_ready poll False fd w then do {
          (over, result, w) \<leftarrow> send_loop ops env pr ph mmc (clear_ready poll False fd w);
          Some (over, if \<not> over \<and> result = MMC_REQUEST_MORE then map_sending (p_first w) (\<lambda>q. fq_push q mmc) w else w)
        }
        else Some (False, map_sending (p_first w) (\<lambda>q. fq_push q mmc) w)
      })"

subsection \<open>Reading\<close>

text \<open>The callbacks of a request, over the server and the userspace state.\<close>

definition handlers_of :: "bool \<Rightarrow> ('d, 'o, 'u, 'p) mmc_request_t \<Rightarrow> ('d, 'o, mmc_t \<times> 'u) mmc_handlers" where
  "handlers_of udp req =
     \<lparr>response_handler = r_response req udp,
      value_handler = (\<lambda>k v f c (mmc, u). let (x, u) = r_value req k v f c u in (x, mmc, u)),
      server_failure = (\<lambda>message (mmc, u). let (x, mmc) = mmc_server_failure udp mmc (bytes message) 0 in (x, mmc, u))\<rparr>"

text \<open>
  The buffers of a stream before a read: without the buffer of the extension, what has
  arrived by now and was not taken before is there too.
\<close>

definition arrived_io :: "'u mmc_env \<Rightarrow> nat \<Rightarrow> mmc_stream_t \<Rightarrow> mmc_io" where
  "arrived_io env n s =
     (if st_buffered s then st_io s
      else receive (st_io s) (drop (st_taken s) (case st_stream s of None \<Rightarrow> [] | Some stream \<Rightarrow> e_arrived env n stream)))"

definition taken :: "'u mmc_env \<Rightarrow> nat \<Rightarrow> mmc_stream_t \<Rightarrow> nat" where
  "taken env n s =
     (if st_buffered s then st_taken s
      else max (st_taken s) (length (case st_stream s of None \<Rightarrow> [] | Some stream \<Rightarrow> e_arrived env n stream)))"

text \<open>
  \<^verbatim>\<open>request->parse\<close>. While the parser runs, the buffers of the stream are its argument, and the
  callbacks see the server without them and without its position in the stream.
\<close>

definition without_io :: "bool \<Rightarrow> mmc_t \<Rightarrow> mmc_t" where
  "without_io udp = map_stream udp (\<lambda>s. s\<lparr>st_io := empty_io, st_taken := 0\<rparr>)"

definition parse_request ::
  "'u mmc_env \<Rightarrow> ('d, 'o, 'u, 'p) mmc_protocol_t \<Rightarrow> nat \<Rightarrow> nat \<Rightarrow> ('d, 'o, 'u, 'p) mmc_pool_t \<Rightarrow> ('d, 'o, 'u, 'p) pool_result" where
  "parse_request env pr mmc r w =
     do {
       (io_mmc, udp) \<leftarrow> r_io (p_req w r);
       let s = stream_of udp (p_mmc w mmc);
       if io_mmc \<noteq> mmc \<or> st_stream s = None then None
       else do {
         (result, proto, io, server, user) \<leftarrow>
           pr_parse pr (handlers_of udp (p_req w r)) (r_proto (p_req w r))
             (arrived_io env (p_calls w) s)
             (without_io udp (p_mmc w mmc), p_user w);
         Some (result,
           upd_req r (\<lambda>req. req\<lparr>r_proto := proto\<rparr>)
             (upd_mmc mmc (\<lambda>_. map_stream udp (\<lambda>s. s\<lparr>st_io := io, st_taken := taken env (p_calls w) (stream_of udp (p_mmc w mmc))\<rparr>) server) ((tick w)\<lparr>p_user := user\<rparr>)))
       }
     }"

text \<open>A request is done: it may have been answered before all of it was sent.\<close>

definition request_done ::
  "('d, 'o, 'u, 'p) pool_ops \<Rightarrow> 'u mmc_env \<Rightarrow> ('d, 'o, 'u, 'p) mmc_protocol_t \<Rightarrow> nat \<Rightarrow>
   ('d, 'o, 'u, 'p) mmc_pool_t \<Rightarrow> ('d, 'o, 'u, 'p) mmc_pool_t option" where
  "request_done ops env pr mmc w =
     do {
       r \<leftarrow> m_readreq (p_mmc w mmc);
       w \<leftarrow> (if m_sendreq (p_mmc w mmc) = Some r then do {
               (io_mmc, udp) \<leftarrow> r_io (p_req w r);
               if io_mmc \<noteq> mmc then None
               else map_option (drop_sender mmc) (slot_next ops env pr mmc (upd_mmc mmc (mmc_server_disconnect udp) w))
             }
             else Some w);
       r \<leftarrow> m_readreq (p_mmc w mmc);
       Some (next_read mmc (mmc_pool_release r w))
     }"

text \<open>The parser wants more bytes: at the end of the stream the connection has failed.\<close>

definition request_more ::
  "('d, 'o, 'u, 'p) pool_ops \<Rightarrow> 'u mmc_env \<Rightarrow> ('d, 'o, 'u, 'p) mmc_protocol_t \<Rightarrow> nat \<Rightarrow> nat \<Rightarrow>
   ('d, 'o, 'u, 'p) mmc_pool_t \<Rightarrow> ('d, 'o, 'u, 'p) pool_result" where
  "request_more ops env pr mmc r w =
     do {
       (io_mmc, udp) \<leftarrow> r_io (p_req w r);
       if io_mmc \<noteq> mmc \<or> st_stream (stream_of udp (p_mmc w mmc)) = None then None
       else if \<not> e_eof env (p_calls w) then Some (MMC_REQUEST_MORE, tick w)
       else
         let (result, server) = mmc_server_failure udp (p_mmc w mmc)
                                  (bytes ''Read failed (socket was unexpectedly closed)'') 0;
             w = upd_mmc mmc (\<lambda>_. server) (tick w)
         in map_option (\<lambda>w. (result, w))
              (if result = MMC_REQUEST_FAILURE then mmc_server_deactivate ops env pr mmc w
               else mmc_select_retry ops env pr mmc r w)
     }"

definition read_turn ::
  "('d, 'o, 'u, 'p) pool_ops \<Rightarrow> 'u mmc_env \<Rightarrow> ('d, 'o, 'u, 'p) mmc_protocol_t \<Rightarrow> nat \<Rightarrow>
   ('d, 'o, 'u, 'p) mmc_pool_t \<Rightarrow> (bool \<times> int \<times> ('d, 'o, 'u, 'p) mmc_pool_t) option" where
  "read_turn ops env pr mmc w =
     do {
       r \<leftarrow> m_readreq (p_mmc w mmc);
       (result, w) \<leftarrow> parse_request env pr mmc r w;
       if \<not> p_in_select w then Some (True, result, w)
       else do {
         (result, w) \<leftarrow>
           (if result = MMC_REQUEST_FAILURE then map_option (\<lambda>w. (result, w)) (mmc_server_deactivate ops env pr mmc w)
            else if result = MMC_REQUEST_RETRY then map_option (\<lambda>w. (result, w)) (mmc_select_retry ops env pr mmc r w)
            else if result = MMC_REQUEST_DONE then map_option (\<lambda>w. (result, w)) (request_done ops env pr mmc w)
            else if result = MMC_REQUEST_MORE then request_more ops env pr mmc r w
            else if result = MMC_REQUEST_AGAIN then Some (result, w)
            else None);
         Some (False, result, w)
       }
     }"

partial_function (option) read_loop ::
  "('d, 'o, 'u, 'p) pool_ops \<Rightarrow> 'u mmc_env \<Rightarrow> ('d, 'o, 'u, 'p) mmc_protocol_t \<Rightarrow> nat \<Rightarrow>
   ('d, 'o, 'u, 'p) mmc_pool_t \<Rightarrow> (bool \<times> int \<times> ('d, 'o, 'u, 'p) mmc_pool_t) option" where
  "read_loop ops env pr mmc w =
     Option.bind (read_turn ops env pr mmc w) (\<lambda>(over, result, w).
       if over then Some (True, result, w)
       else if m_readreq (p_mmc w mmc) \<noteq> None \<and> (result = MMC_REQUEST_DONE \<or> result = MMC_REQUEST_AGAIN)
       then read_loop ops env pr mmc w
       else Some (False, result, w))"

text \<open>\<^verbatim>\<open>request->read\<close>, which only requests on a udp stream have.\<close>

definition read_datagram ::
  "'u mmc_env \<Rightarrow> nat \<Rightarrow> nat \<Rightarrow> ('d, 'o, 'u, 'p) mmc_pool_t \<Rightarrow> ('d, 'o, 'u, 'p) pool_result" where
  "read_datagram env mmc r w =
     do {
       (io_mmc, udp) \<leftarrow> r_io (p_req w r);
       if io_mmc \<noteq> mmc \<or> \<not> udp \<or> st_stream (m_udp (p_mmc w mmc)) = None then None
       else
         let (result, server, fields) =
               mmc_request_read_udp (e_time env (p_calls w)) (e_datagram env (p_calls w)) (p_mmc w mmc) (r_udp (p_req w r))
         in Some (result, upd_req r (\<lambda>req. req\<lparr>r_udp := fields\<rparr>) (upd_mmc mmc (\<lambda>_. server) (tick w)))
     }"

text \<open>The body of the loop over the servers that read.\<close>

definition read_server ::
  "('d, 'o, 'u, 'p) pool_ops \<Rightarrow> 'u mmc_env \<Rightarrow> ('d, 'o, 'u, 'p) mmc_protocol_t \<Rightarrow> bool \<Rightarrow> nat \<Rightarrow>
   ('d, 'o, 'u, 'p) mmc_pool_t \<Rightarrow> (bool \<times> ('d, 'o, 'u, 'p) mmc_pool_t) option" where
  "read_server ops env pr poll mmc w =
     (case m_readreq (p_mmc w mmc) of
        None \<Rightarrow> Some (False, w)
      | Some r \<Rightarrow>
          do {
            fd \<leftarrow> req_fd w (Some r);
            if \<not> is_ready poll True fd w then Some (False, map_reading (p_first w) (\<lambda>q. fq_push q mmc) w)
            else do {
              let w = clear_ready poll True fd w;
              (result, w) \<leftarrow> (if r_read_udp (p_req w r) then read_datagram env mmc r w else Some (MMC_OK, w));
              if result = MMC_OK then
                do {
                  (over, result, w) \<leftarrow> read_loop ops env pr mmc w;
                  Some (over, if \<not> over \<and> result = MMC_REQUEST_MORE then map_reading (p_first w) (\<lambda>q. fq_push q mmc) w else w)
                }
              else map_option (\<lambda>w. (False, w))
                (if result = MMC_REQUEST_FAILURE then mmc_server_deactivate ops env pr mmc w
                 else if result = MMC_REQUEST_RETRY then mmc_select_retry ops env pr mmc r w
                 else if result = MMC_REQUEST_MORE then Some (map_reading (p_first w) (\<lambda>q. fq_push q mmc) w)
                 else None)
            }
          })"

subsection \<open>A round\<close>

text \<open>\<^verbatim>\<open>for (i=0; i < queue->len; i++)\<close> over the live queue, left when the body says so.\<close>

partial_function (option) server_loop ::
  "(nat \<Rightarrow> ('d, 'o, 'u, 'p) mmc_pool_t \<Rightarrow> (bool \<times> ('d, 'o, 'u, 'p) mmc_pool_t) option) \<Rightarrow> bool \<Rightarrow> bool \<Rightarrow> nat \<Rightarrow>
   ('d, 'o, 'u, 'p) mmc_pool_t \<Rightarrow> (bool \<times> ('d, 'o, 'u, 'p) mmc_pool_t) option" where
  "server_loop body rd ph i w =
     (if i \<ge> fq_len (queue_of rd ph w) then Some (False, w)
      else Option.bind (body (fq_list (queue_of rd ph w) ! i) w) (\<lambda>(over, w).
        if over then Some (True, w) else server_loop body rd ph (i + 1) w))"

text \<open>The second half of a round, which a nested call runs for the round it was called in.\<close>

definition complete_round ::
  "('d, 'o, 'u, 'p) pool_ops \<Rightarrow> 'u mmc_env \<Rightarrow> ('d, 'o, 'u, 'p) mmc_protocol_t \<Rightarrow> bool \<Rightarrow> bool \<Rightarrow>
   ('d, 'o, 'u, 'p) mmc_pool_t \<Rightarrow> ('d, 'o, 'u, 'p) mmc_pool_t option" where
  "complete_round ops env pr poll ph w =
     do {
       (over, w) \<leftarrow> server_loop (send_server ops env pr poll ph) False ph 0 w;
       if over then Some w
       else do {
         (over, w) \<leftarrow> server_loop (read_server ops env pr poll) True ph 0 w;
         if over then Some w else Some (w\<lparr>p_in_select := False\<rparr>)
       }
     }"

definition timeouts ::
  "('d, 'o, 'u, 'p) pool_ops \<Rightarrow> 'u mmc_env \<Rightarrow> ('d, 'o, 'u, 'p) mmc_protocol_t \<Rightarrow> bool \<Rightarrow> bool \<Rightarrow> int \<Rightarrow>
   ('d, 'o, 'u, 'p) mmc_pool_t \<Rightarrow> ('d, 'o, 'u, 'p) mmc_pool_t option" where
  "timeouts ops env pr poll ph result w =
     (if result \<le> 0 then do {
        w \<leftarrow> timeout_loop ops env pr poll False ph result 0 w;
        timeout_loop ops env pr poll True ph result 0 w
      }
      else Some w)"

text \<open>
  \<^verbatim>\<open>select\<close> gets a bound above every descriptor of the two sets and leaves subsets of them.
\<close>

definition mmc_pool_select_impl ::
  "('d, 'o, 'u, 'p) pool_ops \<Rightarrow> 'u mmc_env \<Rightarrow> ('d, 'o, 'u, 'p) mmc_protocol_t \<Rightarrow>
   ('d, 'o, 'u, 'p) mmc_pool_t \<Rightarrow> ('d, 'o, 'u, 'p) mmc_pool_t option" where
  "mmc_pool_select_impl ops env pr w =
     (if p_in_select w then complete_round ops env pr False (\<not> p_first w) w
      else do {
        let ph = p_first w;
        let w = mmc_pool_switch w;
        wfds \<leftarrow> collect_fds False (fq_list (sending ph w)) w;
        rfds \<leftarrow> collect_fds True (fq_list (reading ph w)) w;
        let (result, wready, rready) = e_select env (p_calls w);
        w \<leftarrow> timeouts ops env pr False ph result ((tick w)\<lparr>p_wfds := wfds \<inter> wready, p_rfds := rfds \<inter> rready\<rparr>);
        complete_round ops env pr False ph (w\<lparr>p_in_select := True\<rparr>)
      })"

text \<open>\<^verbatim>\<open>poll\<close> reports the events that were asked for, errors, hangups and bad descriptors.\<close>

definition poll_result :: "(nat \<Rightarrow> u16) \<Rightarrow> pollfd list \<Rightarrow> pollfd list" where
  "poll_result out ps =
     map (\<lambda>(i, p). p\<lparr>pf_revents := and (out i) (or (pf_events p) 0x38)\<rparr>) (enumerate 0 ps)"

text \<open>
  The loops of \<^verbatim>\<open>mmc_pool_poll\<close> that follow, a copy of those of \<^verbatim>\<open>select\<close> with its own test of a descriptor.
\<close>

definition poll_send_half ::
  "('d, 'o, 'u, 'p) pool_ops \<Rightarrow> 'u mmc_env \<Rightarrow> ('d, 'o, 'u, 'p) mmc_protocol_t \<Rightarrow> bool \<Rightarrow>
   ('d, 'o, 'u, 'p) mmc_pool_t \<Rightarrow> (bool \<times> ('d, 'o, 'u, 'p) mmc_pool_t) option" where
  "poll_send_half ops env pr ph w = server_loop (send_server ops env pr True ph) False ph 0 w"

definition poll_read_half ::
  "('d, 'o, 'u, 'p) pool_ops \<Rightarrow> 'u mmc_env \<Rightarrow> ('d, 'o, 'u, 'p) mmc_protocol_t \<Rightarrow> bool \<Rightarrow>
   ('d, 'o, 'u, 'p) mmc_pool_t \<Rightarrow> (bool \<times> ('d, 'o, 'u, 'p) mmc_pool_t) option" where
  "poll_read_half ops env pr ph w = server_loop (read_server ops env pr True) True ph 0 w"

definition poll_complete ::
  "('d, 'o, 'u, 'p) pool_ops \<Rightarrow> 'u mmc_env \<Rightarrow> ('d, 'o, 'u, 'p) mmc_protocol_t \<Rightarrow> bool \<Rightarrow>
   ('d, 'o, 'u, 'p) mmc_pool_t \<Rightarrow> ('d, 'o, 'u, 'p) mmc_pool_t option" where
  "poll_complete ops env pr ph w =
     do {
       (over, w) \<leftarrow> poll_send_half ops env pr ph w;
       if over then Some w
       else do {
         (over, w) \<leftarrow> poll_read_half ops env pr ph w;
         if over then Some w else Some (w\<lparr>p_in_select := False\<rparr>)
       }
     }"

lemma poll_complete_round [simp]: "poll_complete ops env pr ph w = complete_round ops env pr True ph w"
  unfolding poll_complete_def poll_send_half_def poll_read_half_def complete_round_def ..

text \<open>A nested call decides with an uninitialised variable whether it frees the array of the outer one: a fault.\<close>

definition mmc_pool_poll ::
  "('d, 'o, 'u, 'p) pool_ops \<Rightarrow> 'u mmc_env \<Rightarrow> ('d, 'o, 'u, 'p) mmc_protocol_t \<Rightarrow>
   ('d, 'o, 'u, 'p) mmc_pool_t \<Rightarrow> ('d, 'o, 'u, 'p) mmc_pool_t option" where
  "mmc_pool_poll ops env pr w =
     (if p_in_select w
      then do { w \<leftarrow> poll_complete ops env pr (\<not> p_first w) w; None }
      else do {
        let ph = p_first w;
        let w = (mmc_pool_switch w)\<lparr>p_pollfds := []\<rparr>;
        w \<leftarrow> add_poll_events False (fq_list (sending ph w)) w;
        w \<leftarrow> add_poll_events True (fq_list (reading ph w)) w;
        let (result, out) = e_poll env (p_calls w);
        w \<leftarrow> timeouts ops env pr True ph result ((tick w)\<lparr>p_pollfds := poll_result out (p_pollfds w)\<rparr>);
        poll_complete ops env pr ph (w\<lparr>p_in_select := True\<rparr>)
      })"

definition mmc_pool_select ::
  "('d, 'o, 'u, 'p) pool_ops \<Rightarrow> 'u mmc_env \<Rightarrow> ('d, 'o, 'u, 'p) mmc_protocol_t \<Rightarrow>
   ('d, 'o, 'u, 'p) mmc_pool_t \<Rightarrow> ('d, 'o, 'u, 'p) mmc_pool_t option" where
  "mmc_pool_select ops env pr w =
     (if p_select_api w = MMC_API_POLL then mmc_pool_poll ops env pr w else mmc_pool_select_impl ops env pr w)"

subsection \<open>Closing the cycle\<close>

text \<open>The operations with calls into each other up to depth \<open>n\<close>.\<close>

primrec pool_ops ::
  "'u mmc_env \<Rightarrow> ('d, 'o, 'u, 'p) mmc_protocol_t \<Rightarrow> nat \<Rightarrow> ('d, 'o, 'u, 'p) pool_ops" where
  "pool_ops env pr 0 = \<lparr>op_schedule = (\<lambda>m r w. None), op_select = (\<lambda>w. None)\<rparr>"
| "pool_ops env pr (Suc n) =
     \<lparr>op_schedule = mmc_pool_schedule (pool_ops env pr n) env pr, op_select = mmc_pool_select (pool_ops env pr n) env pr\<rparr>"

text \<open>\<^verbatim>\<open>mmc_queue_pop(&(pool->pending))\<close> until it is empty; the request is scheduled and leaves its slot.\<close>

partial_function (option) mmc_pool_schedule_pending ::
  "('d, 'o, 'u, 'p) pool_ops \<Rightarrow> ('d, 'o, 'u, 'p) mmc_protocol_t \<Rightarrow>
   ('d, 'o, 'u, 'p) mmc_pool_t \<Rightarrow> ('d, 'o, 'u, 'p) mmc_pool_t option" where
  "mmc_pool_schedule_pending ops pr w =
     (case fq_next (p_pending w) of
        None \<Rightarrow> Some w
      | Some mmc \<Rightarrow>
          Option.bind (m_buildreq (p_mmc w mmc)) (\<lambda>b.
            Option.bind (op_schedule ops mmc b (upd_req b (\<lambda>req. req\<lparr>r_proto := pr_end_get pr (r_proto req)\<rparr>)
                          (w\<lparr>p_pending := fq_rest (p_pending w)\<rparr>)))
              (\<lambda>(_, w). mmc_pool_schedule_pending ops pr (upd_mmc mmc (\<lambda>m. m\<lparr>m_buildreq := None\<rparr>) w))))"

partial_function (option) run_loop ::
  "('d, 'o, 'u, 'p) pool_ops \<Rightarrow> ('d, 'o, 'u, 'p) mmc_protocol_t \<Rightarrow> ('d, 'o, 'u, 'p) mmc_pool_t \<Rightarrow>
   ('d, 'o, 'u, 'p) mmc_pool_t option" where
  "run_loop ops pr w =
     (if fq_len (reading (p_first w) w) > 0 \<or> fq_len (sending (p_first w) w) > 0
      then Option.bind (op_select ops w) (\<lambda>w. Option.bind (mmc_pool_schedule_pending ops pr w) (\<lambda>w. run_loop ops pr w))
      else Some w)"

definition mmc_pool_run ::
  "('d, 'o, 'u, 'p) pool_ops \<Rightarrow> ('d, 'o, 'u, 'p) mmc_protocol_t \<Rightarrow> ('d, 'o, 'u, 'p) mmc_pool_t \<Rightarrow>
   ('d, 'o, 'u, 'p) mmc_pool_t option" where
  "mmc_pool_run ops pr w = do { w \<leftarrow> mmc_pool_schedule_pending ops pr w; run_loop ops pr w }"

end
