(* ===== verification/Mmc_Pool_Total.thy ===== *)
theory Mmc_Pool_Total
  imports Mmc_Select
begin

text \<open>
  Scheduling returns. Each time a request is handed to another server its position in the
  failover sequence has grown, so the number of positions that all requests together have
  left (\<open>potential\<close>) bounds the depth of the calls of \<^verbatim>\<open>mmc_pool_schedule\<close> into itself:
  the bound \<open>n\<close> of \<open>pool_ops\<close> is enough when it is larger.
\<close>

definition left :: "'u mmc_env \<Rightarrow> ('d, 'o, 'u, 'p) mmc_pool_t \<Rightarrow> nat \<Rightarrow> nat" where
  "left env w r = nat (g_max_failover_attempts env - int (r_failed_index (p_req w r)))"

definition potential :: "'u mmc_env \<Rightarrow> nat set \<Rightarrow> ('d, 'o, 'u, 'p) mmc_pool_t \<Rightarrow> nat" where
  "potential env S w = (\<Sum>r\<in>S. left env w r)"

definition steady :: "'u mmc_env \<Rightarrow> ('d, 'o, 'u, 'p) mmc_pool_t \<Rightarrow> ('d, 'o, 'u, 'p) mmc_pool_t \<Rightarrow> bool" where
  "steady env w w' \<longleftrightarrow> (\<forall>r. r_failed_index (p_req w r) \<le> r_failed_index (p_req w' r)) \<and> (pool_usable env w \<longrightarrow> pool_usable env w')"

lemma steady_refl: "steady env w w"
  by (simp add: steady_def)

lemma steady_trans: "steady env w w1 \<Longrightarrow> steady env w1 w2 \<Longrightarrow> steady env w w2"
  unfolding steady_def by (meson le_trans)

lemma steadyI: "(\<And>r. r_failed_index (p_req w r) \<le> r_failed_index (p_req w' r)) \<Longrightarrow> p_hash_state w' = p_hash_state w \<Longrightarrow> steady env w w'"
  by (simp add: steady_def pool_usable_def)

lemma potential_mono: "steady env w w' \<Longrightarrow> potential env S w' \<le> potential env S w"
  unfolding potential_def left_def steady_def by (intro sum_mono) (auto intro: nat_mono)

lemma potential_drop:
  assumes "finite S" "r \<in> S" "steady env w w'" "r_failed_index (p_req w r) < r_failed_index (p_req w' r)"
    "int (r_failed_index (p_req w r)) < g_max_failover_attempts env"
  shows "potential env S w' < potential env S w"
  unfolding potential_def
proof (rule sum_strict_mono_ex1 [OF assms(1)])
  show "\<forall>x\<in>S. left env w' x \<le> left env w x" using assms(3) by (auto simp: left_def steady_def intro: nat_mono)
  show "\<exists>a\<in>S. left env w' a < left env w a" using assms(2,4,5) by (intro bexI [of _ r]) (auto simp: left_def)
qed

text \<open>The pools scheduling is entered with: \<open>S\<close> holds every request there is.\<close>

definition good :: "'u mmc_env \<Rightarrow> (nat \<Rightarrow> int) \<Rightarrow> nat set \<Rightarrow> nat \<Rightarrow> ('d, 'o, 'u, 'p) mmc_pool_t \<Rightarrow> bool" where
  "good env ret S k w \<longleftrightarrow> pool_inv ret w \<and> plain w \<and> pool_usable env w \<and> known w \<subseteq> S \<and> potential env S w \<le> k"

lemma good_step:
  assumes "good env ret S k w" "steady env w w'" "pool_inv ret w'" "plain w'" "known w' \<subseteq> S"
  shows "good env ret S k w'"
  using assms potential_mono [OF assms(2), of S] by (auto simp: good_def steady_def)

definition returns ::
  "'u mmc_env \<Rightarrow> (nat \<Rightarrow> int) \<Rightarrow> nat set \<Rightarrow> nat \<Rightarrow> (nat \<Rightarrow> ('d, 'o, 'u, 'p) mmc_pool_t \<Rightarrow> ('d, 'o, 'u, 'p) pool_result) \<Rightarrow> bool" where
  "returns env ret S k f \<longleftrightarrow>
     (\<forall>w r. good env ret S k w \<and> r \<in> S \<and> r \<notin> known w \<longrightarrow> (\<exists>x w'. f r w = Some (x, w') \<and> steady env w w'))"

lemma returnsI:
  "(\<And>w r. good env ret S k w \<Longrightarrow> r \<in> S \<Longrightarrow> r \<notin> known w \<Longrightarrow> \<exists>x w'. f r w = Some (x, w') \<and> steady env w w') \<Longrightarrow>
   returns env ret S k f"
  unfolding returns_def by blast

lemma returnsD:
  "returns env ret S k f \<Longrightarrow> good env ret S k w \<Longrightarrow> r \<in> S \<Longrightarrow> r \<notin> known w \<Longrightarrow> \<exists>x w'. f r w = Some (x, w') \<and> steady env w w'"
  unfolding returns_def by blast

text \<open>The callbacks return on every smaller potential.\<close>

definition callbacks_return ::
  "'u mmc_env \<Rightarrow> (nat \<Rightarrow> int) \<Rightarrow> nat set \<Rightarrow> nat \<Rightarrow> ('d, 'o, 'u, 'p) pool_ops \<Rightarrow> bool" where
  "callbacks_return env ret S k ops \<longleftrightarrow> (\<forall>j<k. \<forall>m. returns env ret S j (op_schedule ops m))"

text \<open>No connection gets a descriptor beyond the sets of \<^verbatim>\<open>select\<close>.\<close>

definition small_fds :: "'u mmc_env \<Rightarrow> bool" where
  "small_fds env \<longleftrightarrow> (\<forall>n m udp s fd. e_connect env n m udp = Connected s fd \<longrightarrow> fd < FD_SETSIZE)"

lemma failover_probe_returns:
  assumes "pool_usable env w"
  shows "\<exists>m' fs' i' w'. failover_probe env key m fs i w = Some (m', fs', i', w') \<and> pool_usable env w'"
  using assms
proof (induction "nat (g_max_failover_attempts env - int i)" arbitrary: m fs i w rule: less_induct)
  case less
  from find_next_candidate [OF less.prems, of key "Some (fq_push fs m)" i] obtain m1 k w1 where
    f: "mmc_pool_find_next env key (Some (fq_push fs m)) i w = Some (m1, k + 1, w1)" "pool_usable env w1" "i \<le> k"
    using same_pool_simps(6) by blast
  show ?case
  proof (cases "\<not> server_valid env w1 m1 \<and> int (k + 1) < g_max_failover_attempts env \<and>
      fq_len (fq_push fs m) < length (p_servers w1)")
    case True
    then have "nat (g_max_failover_attempts env - int (k + 1)) < nat (g_max_failover_attempts env - int i)" using f(3) by linarith
    from less.hyps [OF this f(2)] show ?thesis
      using f(1) True by (subst failover_probe.simps) (simp add: Let_def del: fq_len)
  next
    case False
    then have "failover_probe env key m fs i w = Some (m1, fq_push fs m, k + 1, w1)"
      using f(1) by (subst failover_probe.simps) (auto simp: Let_def simp del: fq_len)
    then show ?thesis using f(2) by blast
  qed
qed

lemma failover_handler_returns:
  fixes ops :: "('d, 'o, 'u, 'p) pool_ops"
  assumes S: "finite S" and cb: "callbacks_return env ret S k ops"
  shows "returns env ret S k (mmc_pool_failover_handler ops env pr m)"
proof (rule returnsI)
  fix w :: "('d, 'o, 'u, 'p) mmc_pool_t" and r
  assume g: "good env ret S k w" and r: "r \<in> S" "r \<notin> known w"
  let ?req = "p_req w r"
  show "\<exists>x w'. mmc_pool_failover_handler ops env pr m r w = Some (x, w') \<and> steady env w w'"
  proof (cases "g_allow_failover env \<and> int (r_failed_index ?req) < g_max_failover_attempts env \<and>
         fq_len (r_failed_servers ?req) < length (p_servers w)")
    case True
    have us: "pool_usable env w" using g by (simp add: good_def)
    obtain m1 fs i w1 where p: "failover_probe env (pr_key pr (r_proto ?req)) m (r_failed_servers ?req) (r_failed_index ?req) w =
        Some (m1, fs, i, w1)" "pool_usable env w1"
      using failover_probe_returns [OF us] by blast
    note h = failover_probe_hash_only [OF p(1)]
    have hw: "p_mmc w1 = p_mmc w" "p_req w1 = p_req w" using hash_only_simps [of w w1] h by blast+
    let ?g = "\<lambda>req. req\<lparr>r_failed_servers := fs, r_failed_index := i\<rparr>"
    let ?w = "upd_req r ?g w1"
    have v: "view ?w = view w" using upd_req_view [of ?g w1 r] hash_only_view [of w w1] h by simp
    have st: "steady env w ?w"
      using h p(2) by (simp add: steady_def hw pool_usable_def)
    have "plain ?w" using g by (simp add: good_def plain_def hw)
    then have "good env ret S k ?w"
      using view_cong [OF v] g by (intro good_step [OF g st]) (simp_all add: good_def)
    moreover have "potential env S ?w < potential env S w"
      using True h by (intro potential_drop [OF S r(1) st]) (simp_all add: hw)
    ultimately have "good env ret S (potential env S ?w) ?w" "potential env S ?w < k"
      using g by (simp_all add: good_def)
    then obtain x w' where "op_schedule ops m1 r ?w = Some (x, w')" "steady env ?w w'"
      using cb returnsD r view_cong(2) [OF v] unfolding callbacks_return_def by metis
    then show ?thesis
      using True p(1) steady_trans [OF st] by (simp add: mmc_pool_failover_handler_def Let_def del: fq_len)
  next
    case False
    have "mmc_pool_failover_handler ops env pr m r w = Some (MMC_REQUEST_FAILURE, mmc_pool_release r w)"
      using False unfolding mmc_pool_failover_handler_def Let_def by (subst if_not_P) simp_all
    moreover have "steady env w (mmc_pool_release r w)" by (rule steadyI) simp_all
    ultimately show ?thesis by blast
  qed
qed

lemma call_failover_returns:
  fixes ops :: "('d, 'o, 'u, 'p) pool_ops"
  assumes "finite S" and "callbacks_return env ret S k ops"
  shows "returns env ret S k (call_failover ops env pr m)"
proof (rule returnsI)
  fix w :: "('d, 'o, 'u, 'p) mmc_pool_t" and r
  assume g: "good env ret S k w" and r: "r \<in> S" "r \<notin> known w"
  show "\<exists>x w'. call_failover ops env pr m r w = Some (x, w') \<and> steady env w w'"
  proof (cases "r_failover (p_req w r)")
    case mmc_failover_null
    have "steady env w (mmc_pool_release r w)" by (rule steadyI) simp_all
    then show ?thesis using mmc_failover_null by (simp add: call_failover_def mmc_pool_failover_handler_null_def)
  next
    case mmc_failover_key
    then show ?thesis using returnsD [OF failover_handler_returns [OF assms, of pr m] g r] by (simp add: call_failover_def)
  next
    case (mmc_failover_value keys cas)
    then show ?thesis using g by (simp add: good_def plain_def)
  qed
qed

text \<open>From here on the callbacks also keep the invariant.\<close>

lemma failover_all_returns:
  assumes S: "finite S" and cb: "callbacks_return env ret S k ops" and ops: "ops_ok t0 ret ops"
  shows "good env ret S k w \<Longrightarrow> distinct rs \<Longrightarrow> set rs \<inter> known w = {} \<Longrightarrow> set rs \<subseteq> S \<Longrightarrow>
    \<exists>w'. failover_all ops env pr m rs w = Some w' \<and> steady env w w'"
proof (induction rs arbitrary: w)
  case Nil
  then show ?case by (simp add: steady_refl)
next
  case (Cons r rs)
  have r: "r \<in> S" "r \<notin> known w" using Cons.prems by auto
  have gw: "pool_inv ret w" "plain w" "known w \<subseteq> S" using Cons.prems(1) by (simp_all add: good_def)
  obtain x w1 where f: "call_failover ops env pr m r w = Some (x, w1)" "steady env w w1"
    using returnsD [OF call_failover_returns [OF S cb, of pr m] Cons.prems(1) r] by blast
  from request_specD [OF call_failover_spec [OF ops] f(1) gw(1,2) r(2)] have
    w1: "pool_inv ret w1" "frame t0 {} w w1" "known w1 = insert r (known w)" by simp_all
  have "good env ret S k w1"
    using gw(3) r(1) w1(3) by (intro good_step [OF Cons.prems(1) f(2) w1(1) frame_plain [OF w1(2) gw(2)]]) simp
  moreover have "set rs \<inter> known w1 = {}" using Cons.prems(2,3) w1(3) by auto
  ultimately obtain w' where "failover_all ops env pr m rs w1 = Some w'" "steady env w1 w'"
    using Cons.IH [of w1] Cons.prems(2,4) by auto
  then show ?case using f(1) steady_trans [OF f(2)] by auto
qed

lemma deactivate_returns:
  assumes S: "finite S" and cb: "callbacks_return env ret S k ops" and ops: "ops_ok t0 ret ops" and g: "good env ret S k w"
  shows "\<exists>w'. mmc_server_deactivate ops env pr m w = Some w' \<and> steady env w w'"
proof -
  let ?rs = "fq_list (deactivated_requests (p_mmc w m))" and ?w1 = "take_down env m w"
  have w: "pool_inv ret w" "plain w" "known w \<subseteq> S" using g by (simp_all add: good_def)
  note d = deactivated_owned [OF pool_invD(1) [OF w(1), of m]]
  note td = take_down_inv [OF w(1), of env m]
  have st: "steady env w ?w1" by (rule steadyI) (simp_all add: take_down_def)
  have own: "set (owned (p_mmc w m)) \<subseteq> known w" by (auto simp: known_def active_def)
  have "good env ret S k ?w1"
    using w(3) td(3) by (intro good_step [OF g st td(1) frame_plain [OF take_down_frame [of 0 m w env] w(2)]]) auto
  moreover have "set ?rs \<inter> known ?w1 = {}" "set ?rs \<subseteq> S" using own w(3) unfolding d(1) td(3) by blast+
  ultimately obtain w2 where a: "failover_all ops env pr m ?rs ?w1 = Some w2" "steady env ?w1 w2"
    using failover_all_returns [OF S cb ops _ d(2)] by blast
  have "steady env w2 (tick (w2\<lparr>p_user := u\<rparr>))" for u by (rule steadyI) simp_all
  then have "steady env w (tick (w2\<lparr>p_user := u\<rparr>))" for u by (rule steady_trans [OF steady_trans [OF st a(2)]])
  then show ?thesis
    using a(1) steady_trans [OF st a(2)] by (simp add: mmc_server_deactivate_def split: option.split)
qed

lemma connect_returns:
  assumes S: "finite S" and cb: "callbacks_return env ret S k ops" and ops: "ops_ok t0 ret ops" and fds: "small_fds env"
    and g: "good env ret S k w"
  shows "\<exists>x w'. mmc_server_connect ops env pr m udp w = Some (x, w') \<and> steady env w w'"
proof -
  let ?w0 = "if st_stream (stream_of udp (p_mmc w m)) \<noteq> None then upd_mmc m (mmc_server_disconnect udp) w else w"
  have s0: "steady env w ?w0" by (rule steadyI) simp_all
  have v0: "view ?w0 = view w"
    by (simp add: upd_mmc_view disconnect_pipeline)
  show ?thesis
  proof (cases "e_connect env (p_calls ?w0) m udp")
    case (Connected s fd)
    then have "fd < FD_SETSIZE" using fds unfolding small_fds_def by blast
    then have "mmc_server_connect ops env pr m udp w =
        Some (MMC_OK, upd_mmc m (\<lambda>mmc. (map_stream udp (connected_stream udp s fd) mmc)\<lparr>m_error := None\<rparr>) (tick ?w0))"
      using Connected unfolding mmc_server_connect_def Let_def by simp
    moreover have "steady env ?w0 (upd_mmc m h (tick ?w0))" for h by (rule steadyI) simp_all
    ultimately show ?thesis using steady_trans [OF s0] by blast
  next
    case (NotConnected e n)
    let ?w1 = "upd_mmc m (\<lambda>mmc. connect_error mmc e n) (tick ?w0)"
    have "view ?w1 = view (tick ?w0)" by (rule upd_mmc_view) (rule connect_error_pipeline)
    then have v1: "view ?w1 = view w" using v0 user_view(2) by metis
    have s1: "steady env w ?w1" by (rule steady_trans [OF s0]) (rule steadyI, simp_all)
    have "plain ?w1" using g by (simp add: good_def plain_def)
    then have "good env ret S k ?w1"
      using view_cong [OF v1] g by (intro good_step [OF g s1]) (simp_all add: good_def)
    from deactivate_returns [OF S cb ops this, of pr m] obtain w2 where
      "mmc_server_deactivate ops env pr m ?w1 = Some w2" "steady env ?w1 w2" by blast
    then show ?thesis
      using NotConnected steady_trans [OF s1] unfolding mmc_server_connect_def Let_def by auto
  qed
qed

lemma open_returns:
  assumes "finite S" and "callbacks_return env ret S k ops" and "ops_ok t0 ret ops" and "small_fds env" and "good env ret S k w"
  shows "\<exists>x w'. mmc_pool_open ops env pr m udp w = Some (x, w') \<and> steady env w w'"
  using connect_returns [OF assms, of pr m udp] steady_refl [of env w] by (auto simp: mmc_pool_open_def Let_def)

lemma slot_send_returns:
  fixes ops :: "('d, 'o, 'u, 'p) pool_ops"
  assumes S: "finite S" and cb: "callbacks_return env ret S k ops" and ops: "ops_ok t0 ret ops" and fds: "small_fds env"
    and quick: "quick env t0 ret" and g: "good env ret S k w"
  shows "\<exists>x w'. mmc_pool_slot_send ops env pr m (Some r) False w = Some (x, w') \<and> steady env w w'"
proof -
  note op = open_returns [OF S cb ops fds]
  have w: "pool_inv ret w" "plain w" "known w \<subseteq> S" using g by (simp_all add: good_def)
  let ?first = "if r_protocol_udp (p_req w r) \<and> st_port (m_udp (p_mmc w m)) \<noteq> 0 \<and>
                  int (length (pr_sendbuf pr (r_proto (p_req w r)))) \<le> st_chunk_size (m_udp (p_mmc w m))
               then mmc_pool_open ops env pr m True w else Some (MMC_REQUEST_FAILURE, w)"
  obtain u w1 where u: "?first = Some (u, w1)" "steady env w w1"
    using op [OF g, of pr m True] steady_refl [of env w] by (cases ?first) (auto split: if_splits)
  have c: "connect_spec t0 ret m w w1"
    using u(1) pool_open_spec [OF ops quick w(1,2)] connect_spec_refl [OF w(1)] by (auto split: if_splits)
  then have g1: "good env ret S k w1"
    using w(3) by (intro good_step [OF g u(2) _ connect_spec_plain [OF c w(2)]]) (simp_all add: connect_spec_def)
  obtain v w2 where v: "mmc_pool_open ops env pr m False w1 = Some (v, w2)" "steady env w1 w2" using op [OF g1] by blast
  have sl: "steady env w' (set_sendreq m (Some r) (slot_udp pr m r w'))" "steady env w' (set_sendreq m (Some r) (slot_tcp m r w'))"
    "steady env w' (set_sendreq m None w')" for w' :: "('d, 'o, 'u, 'p) mmc_pool_t"
    by (rule steadyI; simp add: set_sendreq_def slot_udp_def slot_tcp_def Let_def)+
  show ?thesis
  proof (cases "u = MMC_OK")
    case True
    then have "mmc_pool_slot_send ops env pr m (Some r) False w = Some (MMC_OK, set_sendreq m (Some r) (slot_udp pr m r w1))"
      using u(1) by (simp add: mmc_pool_slot_send_def)
    then show ?thesis using steady_trans [OF u(2) sl(1)] by blast
  next
    case False
    then have "mmc_pool_slot_send ops env pr m (Some r) False w =
        (if v = MMC_OK then Some (MMC_OK, set_sendreq m (Some r) (slot_tcp m r w2)) else Some (MMC_REQUEST_FAILURE, set_sendreq m None w2))"
      using u(1) v(1) by (simp add: mmc_pool_slot_send_def)
    then show ?thesis using steady_trans [OF u(2) steady_trans [OF v(2)]] sl by auto
  qed
qed

lemma schedule_returns:
  fixes ops :: "('d, 'o, 'u, 'p) pool_ops"
  assumes S: "finite S" and cb: "callbacks_return env ret S k ops" and ops: "ops_ok t0 ret ops" and fds: "small_fds env"
    and quick: "quick env t0 ret"
  shows "returns env ret S k (mmc_pool_schedule ops env pr m)"
proof (rule returnsI)
  fix w :: "('d, 'o, 'u, 'p) mmc_pool_t" and r
  assume g: "good env ret S k w" and r: "r \<in> S" "r \<notin> known w"
  note cf = returnsD [OF call_failover_returns [OF S cb, of pr m]]
  let ?g = "\<lambda>req. req\<lparr>r_send_idx := 0, r_proto := pr_reset_readbuf pr (r_proto req)\<rparr>"
  let ?w = "upd_req r ?g w"
  note v = view_cong [OF upd_req_view [of ?g w r], simplified]
  have st: "steady env w ?w" by (rule steadyI) simp_all
  have w: "pool_inv ret w" "plain w" "known w \<subseteq> S" using g by (simp_all add: good_def)
  have w1: "plain ?w" using w(2) by (simp add: plain_def)
  have g1: "good env ret S k ?w" using v w w1 by (intro good_step [OF g st]) simp_all
  have rd: "steady env w' (schedule_read m r w')" for w' :: "('d, 'o, 'u, 'p) mmc_pool_t"
    by (rule steadyI) (simp_all add: schedule_read_def set_readreq_def)
  show "\<exists>x w'. mmc_pool_schedule ops env pr m r w = Some (x, w') \<and> steady env w w'"
  proof (cases "server_valid env w m")
    case False
    then show ?thesis using cf [OF g r] by (simp add: mmc_pool_schedule_def)
  next
    case valid: True
    show ?thesis
    proof (cases "m_sendreq (p_mmc w m) = None")
      case True
      obtain x w2 where s: "mmc_pool_slot_send ops env pr m (Some r) False ?w = Some (x, w2)" "steady env ?w w2"
        using slot_send_returns [OF S cb ops fds quick g1] by blast
      note st2 = steady_trans [OF st s(2)]
      show ?thesis
      proof (cases "x = MMC_OK")
        case ok: True
        have "steady env w2 (schedule_read m r (map_sending (p_first w2) (\<lambda>q. fq_push q m) w2))"
          by (rule steady_trans [OF _ rd]) (rule steadyI, simp_all)
        then show ?thesis using valid True s(1) ok steady_trans [OF st2] by (simp add: mmc_pool_schedule_def Let_def)
      next
        case False
        have free: "m_sendreq (p_mmc ?w m) = None" using True by simp
        have "r \<notin> known ?w" using r(2) v(2) by simp
        from slot_send_spec [OF ops quick _ w1 this s(1) free] False v(1) w(1) have c: "connect_spec t0 ret m ?w w2" by blast
        then have c': "pool_inv ret w2" "known w2 = known w" using v(2) by (simp_all add: connect_spec_def)
        have "good env ret S k w2" using c' w(3) by (intro good_step [OF g st2 c'(1) connect_spec_plain [OF c w1]]) simp
        from cf [OF this r(1)] c'(2) r(2) obtain y w3 where "call_failover ops env pr m r w2 = Some (y, w3)" "steady env w2 w3"
          by auto
        then show ?thesis using valid True s(1) False steady_trans [OF st2] by (simp add: mmc_pool_schedule_def Let_def)
      qed
    next
      case False
      have "steady env ?w (schedule_read m r (upd_mmc m (\<lambda>mmc. mmc\<lparr>m_sendqueue := fq_push (m_sendqueue mmc) r\<rparr>) ?w))"
        by (rule steady_trans [OF _ rd]) (rule steadyI, simp_all)
      from steady_trans [OF st this] show ?thesis using valid False by (auto simp: mmc_pool_schedule_def Let_def)
    qed
  qed
qed

subsection \<open>The cycle\<close>

lemma pool_ops_ok: "quick env t0 ret \<Longrightarrow> ops_ok t0 ret (pool_ops env pr n)"
proof (induction n)
  case 0
  show ?case by (simp add: ops_ok_def request_spec_def)
next
  case (Suc n)
  then show ?case using schedule_spec [OF Suc.IH [OF Suc.prems] Suc.prems] by (simp add: ops_ok_def)
qed

lemma pool_ops_return:
  assumes "finite S" and "small_fds env" and "quick env t0 ret"
  shows "k < n \<Longrightarrow> returns env ret S k (op_schedule (pool_ops env pr n) m)"
proof (induction n arbitrary: k m)
  case (Suc n)
  have "callbacks_return env ret S k (pool_ops env pr n)"
    using Suc by (simp add: callbacks_return_def)
  from schedule_returns [OF assms(1) this pool_ops_ok [OF assms(3)] assms(2,3)] show ?case by simp
qed simp

subsection \<open>Properties\<close>


lemma example_inv:
  fixes w :: "('d, 'o, unit, buf) mmc_pool_t"
  defines "w \<equiv> example_pool"
  shows "pool_inv (\<lambda>m. 15) w" and "known w = {}" and "plain w"
proof -
  note example_pool_def = w_def [unfolded example_pool_def]
  have o: "owned (p_mmc w m) = []" "sends (p_mmc w m) = []" for m
    by (simp_all add: owned_def reads_def sends_def example_pool_def mmc_pool_new_def mmc_server_new_def)
  have r: "reads (p_mmc w m) = []" for m using o(1) [of m] unfolding owned_def by simp
  show "known w = {}"
    by (simp add: known_def active_def o) (simp add: example_pool_def mmc_pool_new_def)
  have "server_inv (\<lambda>m. 15) w m" for m
    by (simp add: server_inv_def pipeline_ok_def slotted_def polled_def o r)
      (simp add: example_pool_def mmc_pool_new_def mmc_server_new_def sending_def reading_def)
  then show "pool_inv (\<lambda>m. 15) w" by (simp add: pool_inv_def active_def o)
  show "plain w" by (simp add: plain_def example_pool_def mmc_pool_new_def new_request_def)
qed


end
