(* ===== verification/Mmc_Protocols.thy ===== *)
theory Mmc_Protocols
  imports Mmc_Ascii Mmc_Binary_Responses Mmc_Pool
begin

text \<open>
  The two wire protocols as values of \<^verbatim>\<open>mmc_protocol_t\<close>: the tables \<^verbatim>\<open>mmc_ascii_protocol\<close>
  and \<^verbatim>\<open>mmc_binary_protocol\<close> at the end of \<^verbatim>\<open>src/memcache_ascii_protocol.c\<close> and
  \<^verbatim>\<open>src/memcache_binary_protocol.c\<close>, as far as the pool calls through them, with the fields
  the pool reads and writes itself.

  Both parsers are instances of \<open>incremental_parser\<close>; what that gives for them is stated here.
\<close>

definition mmc_ascii_clone_request :: "mmc_ascii_request \<Rightarrow> mmc_ascii_request \<Rightarrow> mmc_ascii_request" where
  "mmc_ascii_clone_request clone request = clone"

definition mmc_ascii_protocol :: "('d, 'o) php_runtime \<Rightarrow> ('d, 'o, 'u, mmc_ascii_request) mmc_protocol_t" where
  "mmc_ascii_protocol rt =
     \<lparr>pr_create = mmc_ascii_create_request [], pr_clone = mmc_ascii_clone_request,
      pr_copy_parse = (\<lambda>clone req. clone\<lparr>a_parse := a_parse req\<rparr>), pr_reset = mmc_ascii_reset_request,
      pr_begin_get = mmc_ascii_begin_get, pr_append_get = (\<lambda>req zkey key. mmc_ascii_append_get req key),
      pr_end_get = mmc_ascii_end_get, pr_parse = ascii_parse rt,
      pr_sendbuf = a_sendbuf, pr_set_sendbuf = (\<lambda>b req. req\<lparr>a_sendbuf := b\<rparr>),
      pr_reset_readbuf = (\<lambda>req. req\<lparr>a_readbuf := []\<rparr>),
      pr_key = a_key, pr_set_key = (\<lambda>key req. req\<lparr>a_key := key\<rparr>)\<rparr>"

text \<open>\<open>zstr\<close> gives the string of a key that the request points to.\<close>

definition mmc_binary_protocol ::
  "('d, 'o) php_runtime \<Rightarrow> (nat \<Rightarrow> buf) \<Rightarrow> ('d, 'o, 'u, mmc_binary_request) mmc_protocol_t" where
  "mmc_binary_protocol rt zstr =
     \<lparr>pr_create = mmc_binary_create_request, pr_clone = mmc_binary_clone_request,
      pr_copy_parse = (\<lambda>clone req. clone\<lparr>b_parse := b_parse req\<rparr>), pr_reset = mmc_binary_reset_request,
      pr_begin_get = mmc_binary_begin_get, pr_append_get = mmc_binary_append_get,
      pr_end_get = mmc_binary_end_get, pr_parse = bin_parse rt zstr,
      pr_sendbuf = b_sendbuf, pr_set_sendbuf = (\<lambda>b req. req\<lparr>b_sendbuf := b\<rparr>),
      pr_reset_readbuf = (\<lambda>req. req\<lparr>b_readbuf := []\<rparr>),
      pr_key = b_key, pr_set_key = (\<lambda>key req. req\<lparr>b_key := key\<rparr>)\<rparr>"

subsection \<open>The parsers as incremental parsers\<close>

text \<open>The handlers of a request that fails the connection rather than asking for more bytes.\<close>

definition strict :: "('d, 'o, 's) mmc_handlers \<Rightarrow> ('d, 'o, 's) mmc_handlers" where
  "strict h =
     \<lparr>response_handler = (\<lambda>r m n s. let (x, s') = response_handler h r m n s
        in (if x = MMC_REQUEST_MORE then MMC_REQUEST_FAILURE else x, s')),
      value_handler = (\<lambda>k v f c s. let (x, s') = value_handler h k v f c s
        in (if x = MMC_REQUEST_MORE then MMC_REQUEST_FAILURE else x, s')),
      server_failure = (\<lambda>m s. let (x, s') = server_failure h m s
        in (if x = MMC_REQUEST_MORE then MMC_REQUEST_FAILURE else x, s'))\<rparr>"

lemma strict_no_more: "handlers_no_more (strict h)"
  by (simp add: handlers_no_more_def strict_def Let_def case_prod_unfold mmc_consts)

lemma strict_idem: "handlers_no_more h \<Longrightarrow> strict h = h"
  by (auto simp: handlers_no_more_def strict_def Let_def case_prod_unfold fun_eq_iff prod_eq_iff)

interpretation ascii: incremental_parser "ascii_step rt (strict h)" ascii_recv ascii_ok for rt h
  by (rule ascii_incremental [OF strict_no_more])

interpretation binary: incremental_parser "bin_step rt zstr (strict h)" bin_recv bin_ok for rt zstr h
  by (rule bin_incremental [OF strict_no_more])

subsection \<open>Properties\<close>

text \<open>
  C13: What the ascii parser makes of an answer does not depend on how the network cut it: for
  every kind of answer (storage, numbers, values, errors, malformed lines) and any two ways
  of cutting the same bytes, the parse loops end with the same result, have called the
  handlers in the same way, and leave the same bytes unread.
\<close>

theorem ascii_fragmentation:
  assumes "handlers_no_more h" and "ascii_ok x" and "parse_loop (ascii_step rt h) x = Some (Some (MMC_REQUEST_MORE, x0))"
    and "pump (ascii_step rt h) ascii_recv x cs = Some (Some (r, x', rest))" and "r \<noteq> MMC_REQUEST_MORE"
    and "concat ds = concat cs"
  shows "\<exists>x'' rest'. pump (ascii_step rt h) ascii_recv x ds = Some (Some (r, x'', rest')) \<and>
    ascii_recv (concat rest') x'' = ascii_recv (concat rest) x'"
proof -
  note s = strict_idem [OF assms(1)]
  have "parse_loop (ascii_step rt h) (ascii_recv (concat ds) x) = Some (Some (r, ascii_recv (concat rest) x'))"
    using ascii.pump_unfragmented [of x rt h cs r x' rest] assms by (simp add: s)
  from ascii.pump_fragmented [of x rt h x0 ds, unfolded s, OF assms(2,3) this assms(5)] show ?thesis by blast
qed

theorem ascii_fragmentation_witness:
  "\<exists>x'' rest'. pump (ascii_step plain_runtime log_handlers) ascii_recv (mmc_ascii_create_request [], empty_io, []) [[78], [79, 10]] =
      Some (Some (MMC_REQUEST_DONE, x'', rest'))"
proof -
  let ?x = "(mmc_ascii_create_request [], empty_io, [])"
  have ok: "ascii_ok ?x" by (simp add: ascii_ok_def line_io_def mmc_ascii_create_request_def)
  have line: "\<exists>io. mmc_stream_get_line empty_io = (None, io)" "\<exists>l io. mmc_stream_get_line (receive empty_io [78, 79, 10]) = (Some l, io)"
    by (simp_all add: mmc_stream_get_line_def mmc_stream_readline_buffered_def empty_io_def receive_def MMC_BUFFER_SIZE_def Let_def)
  then obtain x0 where m: "parse_loop (ascii_step plain_runtime log_handlers) ?x = Some (Some (MMC_REQUEST_MORE, x0))"
    by (auto simp: parse_loop_step ascii_step_def ascii_parse_def mmc_ascii_create_request_def mmc_request_parse_response_def mmc_consts)
  obtain x' rest where p: "pump (ascii_step plain_runtime log_handlers) ascii_recv ?x [[78, 79, 10]] = Some (Some (MMC_REQUEST_DONE, x', rest))"
    using line(2) by (auto simp: parse_loop_step ascii_step_def ascii_parse_def ascii_recv_def mmc_ascii_create_request_def
        mmc_request_parse_response_def log_handlers_def mmc_consts split: prod.split)
  have "MMC_REQUEST_DONE \<noteq> MMC_REQUEST_MORE" "concat [[78], [79, 10]] = concat [[78, 79, 10 :: u8]]" by (simp_all add: mmc_consts)
  from ascii_fragmentation [OF log_handlers_no_more ok m p this] show ?thesis by blast
qed

text \<open>
  C14: The same for the binary parser: any two ways of cutting the same bytes end the parse
  loops with the same result and the same calls of the handlers.
\<close>

theorem binary_fragmentation:
  assumes "handlers_no_more h" and "bin_ok x" and "parse_loop (bin_step rt zstr h) x = Some (Some (MMC_REQUEST_MORE, x0))"
    and "pump (bin_step rt zstr h) bin_recv x cs = Some (Some (r, x', rest))" and "r \<noteq> MMC_REQUEST_MORE"
    and "concat ds = concat cs"
  shows "\<exists>x'' rest'. pump (bin_step rt zstr h) bin_recv x ds = Some (Some (r, x'', rest')) \<and>
    bin_recv (concat rest') x'' = bin_recv (concat rest) x'"
proof -
  note s = strict_idem [OF assms(1)]
  have "parse_loop (bin_step rt zstr h) (bin_recv (concat ds) x) = Some (Some (r, bin_recv (concat rest) x'))"
    using binary.pump_unfragmented [of x rt zstr h cs r x' rest] assms by (simp add: s)
  from binary.pump_fragmented [of x rt zstr h x0 ds, unfolded s, OF assms(2,3) this assms(5)] show ?thesis by blast
qed

theorem binary_fragmentation_witness:
  "\<exists>x'' rest'. pump (bin_step plain_runtime (\<lambda>z. []) log_handlers) bin_recv (bin_multi_get mmc_binary_create_request [(5, [97])], empty_io, [])
      [take 3 (bin_stream 1 []), drop 3 (bin_stream 1 [])] = Some (Some (MMC_REQUEST_DONE, x'', rest'))"
proof -
  let ?req = "bin_multi_get mmc_binary_create_request [(5, [97])]" and ?step = "bin_step plain_runtime (\<lambda>z. []) log_handlers"
  have w: "bin_waiting ?req empty_io [5]"
    using multi_get_waiting [of "[(5, [97])]" empty_io] by (simp add: MMC_MAX_KEY_LEN_def read_io_def empty_io_def)
  have ok: "bin_ok (?req, empty_io, [])" using w by (simp add: bin_ok_def bin_waiting_def reads_body_def)
  have w2: "bin_waiting ?req (receive empty_io (bin_stream 1 [])) [5]" "unread (receive empty_io (bin_stream 1 [])) = bin_stream 1 [] @ []"
    using w read_fresh_io by (simp_all add: bin_waiting_def read_io_receive)
  from bin_loop_stream [OF _ w2, of "\<lambda>z. []" plain_runtime log_handlers "[]"] obtain req' io' where
    "parse_loop ?step (?req, receive empty_io (bin_stream 1 []), []) = Some (Some (MMC_REQUEST_DONE, req', io', []))"
    by auto
  then have p: "pump ?step bin_recv (?req, empty_io, []) [bin_stream 1 []] = Some (Some (MMC_REQUEST_DONE, (req', io', []), []))"
    by (simp add: bin_recv_def mmc_consts)
  have "MMC_REQUEST_DONE \<noteq> MMC_REQUEST_MORE" "concat [take 3 (bin_stream 1 []), drop 3 (bin_stream 1 [])] = concat [bin_stream 1 []]"
    by (simp_all add: mmc_consts)
  from binary_fragmentation [OF log_handlers_no_more ok bin_empty_more [OF w] p this] show ?thesis by blast
qed

end
