(* ===== verification/Mmc_Rounds.thy ===== *)
theory Mmc_Rounds
  imports Mmc_Pool_Total Mmc_Protocols
begin

text \<open>
  Facts about single steps of the rounds: the descriptors a round asks for, the array of
  \<^verbatim>\<open>poll\<close> as a representation of the two descriptor sets of \<^verbatim>\<open>select\<close>, and two error paths
  on which requests are handled twice.
\<close>

subsection \<open>The descriptors of a round\<close>

text \<open>The descriptors of all connections with something to send or to read.\<close>

definition busy_fds :: "bool \<Rightarrow> ('d, 'o, 'u, 'p) mmc_pool_t \<Rightarrow> int set" where
  "busy_fds rd w = {fd. \<exists>m. req_of rd (p_mmc w m) \<noteq> None \<and> req_fd w (req_of rd (p_mmc w m)) = Some fd}"

lemma req_fd_Some:
  assumes "pool_inv ret w" and "req_of rd (p_mmc w m) = Some r"
  shows "\<exists>udp. req_fd w (Some r) = Some (st_fd (stream_of udp (p_mmc w m)))"
proof -
  note inv = pool_invD(1,2) [OF assms(1), of m]
  have "r \<in> set (reads (p_mmc w m)) \<and> r \<notin> set (fq_list (m_sendqueue (p_mmc w m)))"
  proof (cases rd)
    case True
    then have rr: "m_readreq (p_mmc w m) = Some r" using assms(2) by (simp add: req_of_def)
    have d: "distinct (owned (p_mmc w m))" "suffix (sends (p_mmc w m)) (reads (p_mmc w m))"
      "m_sendreq (p_mmc w m) = None \<longrightarrow> fq_list (m_sendqueue (p_mmc w m)) = []"
      using inv(1) by (simp_all add: pipeline_ok_def)
    obtain zs where zs: "reads (p_mmc w m) = zs @ sends (p_mmc w m)" using d(2) by (auto simp: suffix_def)
    have "r \<notin> set (fq_list (m_sendqueue (p_mmc w m)))"
    proof
      assume q: "r \<in> set (fq_list (m_sendqueue (p_mmc w m)))"
      then obtain x where x: "m_sendreq (p_mmc w m) = Some x" using d(3) by (cases "m_sendreq (p_mmc w m)") auto
      then have e: "r # fq_list (m_readqueue (p_mmc w m)) = zs @ x # fq_list (m_sendqueue (p_mmc w m))"
        using zs rr by (simp add: reads_def sends_def)
      moreover have "distinct (r # fq_list (m_readqueue (p_mmc w m)))" using d(1) rr by (simp add: owned_def reads_def)
      ultimately show False using q by (cases zs) auto
    qed
    then show ?thesis using rr by (simp add: reads_def)
  next
    case False
    then have sr: "m_sendreq (p_mmc w m) = Some r" using assms(2) by (simp add: req_of_def)
    have "suffix (sends (p_mmc w m)) (reads (p_mmc w m))" "distinct (owned (p_mmc w m))"
      using inv(1) by (simp_all add: pipeline_ok_def)
    then show ?thesis using sr by (auto simp: suffix_def sends_def owned_def)
  qed
  then obtain udp where "r_io (p_req w r) = Some (m, udp)" using inv(2) by (auto simp: slotted_def)
  then show ?thesis by (auto simp: req_fd_def)
qed

lemma collect_fds_Some:
  assumes "\<forall>m \<in> set ms. \<exists>fd. req_fd w (req_of rd (p_mmc w m)) = Some fd \<and> 0 \<le> fd \<and> fd < FD_SETSIZE"
  shows "collect_fds rd ms w = Some {fd. \<exists>m \<in> set ms. req_fd w (req_of rd (p_mmc w m)) = Some fd}"
  using assms by (induction ms) (auto simp: bind_eq_Some_conv)

text \<open>
  When a round begins in a pool that satisfies the invariant, collecting the descriptors
  follows no NULL pointer, stays within the sets, and gives exactly the descriptors of the
  connections that have a request to send and of those that have one to read.
\<close>

theorem round_collects_fds:
  assumes "pool_inv ret w" and "\<forall>m udp. 0 \<le> st_fd (stream_of udp (p_mmc w m)) \<and> st_fd (stream_of udp (p_mmc w m)) < FD_SETSIZE"
  shows "collect_fds False (fq_list (sending (p_first w) w)) (mmc_pool_switch w) = Some (busy_fds False w) \<and>
    collect_fds True (fq_list (reading (p_first w) w)) (mmc_pool_switch w) = Some (busy_fds True w)"
proof -
  let ?sw = "mmc_pool_switch w"
  have s: "p_mmc ?sw = p_mmc w" "p_req ?sw = p_req w" by (simp_all add: mmc_pool_switch_def Let_def)
  have rf: "req_fd ?sw = req_fd w" by (simp add: fun_eq_iff req_fd_def s)
  have "collect_fds rd (fq_list (queue_of rd (p_first w) w)) ?sw = Some (busy_fds rd w)" for rd
  proof -
    have q: "m \<in> set (fq_list (queue_of rd (p_first w) w)) \<longleftrightarrow> req_of rd (p_mmc w m) \<noteq> None" for m
      using pool_invD(3) [OF assms(1), of m] by (simp add: polled_def queue_of_def req_of_def)
    have "\<forall>m \<in> set (fq_list (queue_of rd (p_first w) w)). \<exists>fd. req_fd ?sw (req_of rd (p_mmc ?sw m)) = Some fd \<and> 0 \<le> fd \<and> fd < FD_SETSIZE"
    proof
      fix m assume "m \<in> set (fq_list (queue_of rd (p_first w) w))"
      then obtain r where r: "req_of rd (p_mmc w m) = Some r" using q by auto
      from req_fd_Some [OF assms(1) this] obtain udp where "req_fd w (Some r) = Some (st_fd (stream_of udp (p_mmc w m)))" ..
      then show "\<exists>fd. req_fd ?sw (req_of rd (p_mmc ?sw m)) = Some fd \<and> 0 \<le> fd \<and> fd < FD_SETSIZE"
        using assms(2) r by (simp add: rf s)
    qed
    from collect_fds_Some [OF this] show ?thesis by (auto simp: rf s busy_fds_def q)
  qed
  from this [of False] this [of True] show ?thesis by (simp add: queue_of_def)
qed

theorem round_collects_fds_witness:
  "collect_fds True (fq_list (reading True (example_pool :: (unit, unit, unit, buf) mmc_pool_t)))
     (mmc_pool_switch (example_pool :: (unit, unit, unit, buf) mmc_pool_t)) = Some (busy_fds True (example_pool :: (unit, unit, unit, buf) mmc_pool_t))"
proof -
  have "\<forall>m udp. 0 \<le> st_fd (stream_of udp (p_mmc (example_pool :: (unit, unit, unit, buf) mmc_pool_t) m)) \<and>
      st_fd (stream_of udp (p_mmc (example_pool :: (unit, unit, unit, buf) mmc_pool_t) m)) < FD_SETSIZE"
    by (simp add: example_pool_def mmc_pool_new_def mmc_server_new_def stream_of_def zero_stream_def FD_SETSIZE_def)
  note round_collects_fds [OF example_inv(1) this]
  moreover have "p_first (example_pool :: (unit, unit, unit, buf) mmc_pool_t)" by (simp add: example_pool_def mmc_pool_new_def)
  ultimately show ?thesis by simp
qed

subsection \<open>The array of poll\<close>

definition poll_fds :: "pollfd list \<Rightarrow> int list" where
  "poll_fds ps = map pf_fd ps"

lemma poll_event_fds:
  "set (poll_fds (poll_event ps fd ev)) = insert fd (set (poll_fds ps))"
  "distinct (poll_fds ps) \<Longrightarrow> distinct (poll_fds (poll_event ps fd ev))"
  "length (poll_event ps fd ev) \<le> length ps + 1"
  by (induction ps) (auto simp: poll_fds_def)

lemma bit_4: "bit (4 :: u16) n \<longleftrightarrow> n = 2"
proof -
  have "bit (2 ^ 2 :: u16) n \<longleftrightarrow> n = 2" by (auto simp: bit_exp_iff simp del: power_numeral)
  then show ?thesis by simp
qed

lemma event_bits:
  fixes x :: u16
  shows "and (or x 1) 1 = 1" and "and (or x 4) 4 = 4" and "and (or x 1) 4 = and x 4" and "and (or x 4) 1 = and x 1"
    and "and (and x (NOT 1)) 1 = 0" and "and (and x (NOT 4)) 4 = 0" and "and (and x (NOT 1)) 4 = and x 4"
    and "and (and x (NOT 4)) 1 = and x 1"
  by (rule bit_word_eqI; simp only: bit_and_iff bit_or_iff bit_not_iff bit_4 bit_1_iff bit_0_eq bot_apply possible_bit_word; auto)+

lemma poll_bits:
  "and (or x (poll_bit rd)) (poll_bit rd') = (if rd = rd' then poll_bit rd else and x (poll_bit rd'))"
  "and (and x (NOT (poll_bit rd))) (poll_bit rd') = (if rd = rd' then 0 else and x (poll_bit rd'))"
  "and (poll_bit rd) (poll_bit rd') = (if rd = rd' then poll_bit rd else 0)" "poll_bit rd \<noteq> 0"
  using event_bits [of x] by (cases rd; cases rd'; simp add: poll_bit_def POLLIN_def POLLOUT_def del: and_one_eq)+

text \<open>The descriptors the array asks for in one direction.\<close>

definition asked :: "bool \<Rightarrow> pollfd list \<Rightarrow> int set" where
  "asked rd ps = {fd. \<exists>p \<in> set ps. pf_fd p = fd \<and> and (pf_events p) (poll_bit rd) \<noteq> 0}"

definition ready :: "bool \<Rightarrow> pollfd list \<Rightarrow> int set" where
  "ready rd ps = {fd. \<exists>p \<in> set ps. pf_fd p = fd \<and> and (pf_revents p) (poll_bit rd) \<noteq> 0}"

lemma asked_simps [simp]:
  "asked rd [] = {}"
  "asked rd (p # ps) = (if and (pf_events p) (poll_bit rd) \<noteq> 0 then insert (pf_fd p) (asked rd ps) else asked rd ps)"
  by (auto simp: asked_def)

lemma asked_event:
  "asked rd (poll_event ps fd (poll_bit rd')) = (if rd = rd' then insert fd (asked rd ps) else asked rd ps)"
proof (cases "rd = rd'")
  case True
  show ?thesis unfolding True by (induction ps) (simp_all add: poll_bits insert_commute)
next
  case False
  then have "and (or x (poll_bit rd')) (poll_bit rd) = and x (poll_bit rd)" "and (poll_bit rd') (poll_bit rd) = 0" for x
    using poll_bits(1) [of x rd' rd] poll_bits(3) [of rd' rd] by auto
  then show ?thesis using False by (induction ps) simp_all
qed

lemma ready_Cons:
  "ready rd (p # ps) = (if and (pf_revents p) (poll_bit rd) \<noteq> 0 then insert (pf_fd p) (ready rd ps) else ready rd ps)"
  by (auto simp: ready_def)

lemma ready_subset: "ready rd ps \<subseteq> set (poll_fds ps)"
  by (auto simp: ready_def poll_fds_def)

lemma poll_idx_iff: "poll_idx ps fd (poll_bit rd) \<noteq> None \<longleftrightarrow> fd \<in> ready rd ps"
  by (induction ps) (auto simp: ready_Cons ready_def [of _ "[]"])

text \<open>Masking the entry that was found is the removal of its descriptor in one direction.\<close>

lemma mask_entry:
  assumes "distinct (poll_fds ps)" and "poll_idx ps fd (poll_bit rd) = Some i"
  defines "ps' \<equiv> ps[i := (ps ! i)\<lparr>pf_revents := and (pf_revents (ps ! i)) (NOT (poll_bit rd))\<rparr>]"
  shows "poll_fds ps' = poll_fds ps" and "ready rd' ps' = (if rd' = rd then ready rd ps - {fd} else ready rd' ps)"
  using assms(1,2) unfolding ps'_def
proof (induction ps arbitrary: i)
  case (Cons p ps)
  {
    case 1
    then show ?case using Cons by (cases i) (auto simp: poll_fds_def split: if_splits)
  next
    case 2
    show ?case
    proof (cases "pf_fd p = fd \<and> and (pf_revents p) (poll_bit rd) \<noteq> 0")
      case True
      have "fd \<notin> ready rd ps" using 2(1) True ready_subset [of rd ps] by (auto simp: poll_fds_def)
      then show ?thesis
        using 2 True by (auto simp: ready_Cons poll_bits)
    next
      case False
      then obtain j where "i = Suc j" "poll_idx ps fd (poll_bit rd) = Some j" using 2 by auto
      then show ?thesis using Cons(2) [of j] 2(1) False by (auto simp: ready_Cons poll_fds_def)
    qed
  }
qed simp_all

lemma add_events:
  assumes "add_poll_events rd ms w = Some w'"
  shows "length (p_pollfds w') \<le> length (p_pollfds w) + length ms"
    and "distinct (poll_fds (p_pollfds w)) \<longrightarrow> distinct (poll_fds (p_pollfds w'))"
    and "asked rd' (p_pollfds w') = asked rd' (p_pollfds w) \<union>
      (if rd' = rd then {fd. \<exists>m \<in> set ms. req_fd w (req_of rd (p_mmc w m)) = Some fd} else {})"
    and "p_mmc w' = p_mmc w" and "p_req w' = p_req w"
  using assms
proof (induction ms arbitrary: w)
  case (Cons m ms)
  {
    fix w assume a: "add_poll_events rd (m # ms) w = Some w'"
    then obtain fd where fd: "req_fd w (req_of rd (p_mmc w m)) = Some fd" and
      r: "add_poll_events rd ms (mmc_pool_add_poll_event fd (poll_bit rd) w) = Some w'" by (auto simp: bind_eq_Some_conv)
    let ?w = "mmc_pool_add_poll_event fd (poll_bit rd) w"
    have w: "p_mmc ?w = p_mmc w" "p_req ?w = p_req w" "p_pollfds ?w = poll_event (p_pollfds w) fd (poll_bit rd)"
      "req_fd ?w = req_fd w"
      by (simp_all add: mmc_pool_add_poll_event_def req_fd_def fun_eq_iff)
    note IH = Cons.IH [OF r, unfolded w]
    show "length (p_pollfds w') \<le> length (p_pollfds w) + length (m # ms)"
      using IH(1) poll_event_fds(3) [of "p_pollfds w" fd "poll_bit rd"] by simp
    show "distinct (poll_fds (p_pollfds w)) \<longrightarrow> distinct (poll_fds (p_pollfds w'))"
      using IH(2) poll_event_fds(2) by blast
    show "asked rd' (p_pollfds w') = asked rd' (p_pollfds w) \<union>
      (if rd' = rd then {fd. \<exists>m \<in> set (m # ms). req_fd w (req_of rd (p_mmc w m)) = Some fd} else {})"
      unfolding IH(3) asked_event using fd by auto
    show "p_mmc w' = p_mmc w" "p_req w' = p_req w" using IH(4,5) by simp_all
  }
qed simp_all

text \<open>
  The array of \<^verbatim>\<open>poll\<close> never outgrows its allocation of one entry per connection and
  direction, names no descriptor twice, and asks in each direction for exactly the
  descriptors the sets of \<^verbatim>\<open>select\<close> would hold.
\<close>

theorem poll_array_fits:
  assumes "p_pollfds w = []" and "add_poll_events False ss w = Some w1" and "add_poll_events True rs w1 = Some w2"
  shows "length (p_pollfds w2) \<le> length ss + length rs \<and> distinct (poll_fds (p_pollfds w2)) \<and>
    asked False (p_pollfds w2) = {fd. \<exists>m \<in> set ss. req_fd w (m_sendreq (p_mmc w m)) = Some fd} \<and>
    asked True (p_pollfds w2) = {fd. \<exists>m \<in> set rs. req_fd w (m_readreq (p_mmc w m)) = Some fd}"
proof (intro conjI)
  note a = add_events [OF assms(2)] and b = add_events [OF assms(3)]
  have rf: "req_fd w1 = req_fd w" by (simp add: fun_eq_iff req_fd_def a(4,5))
  show "length (p_pollfds w2) \<le> length ss + length rs" using a(1) b(1) assms(1) by simp
  show "distinct (poll_fds (p_pollfds w2))" using a(2) b(2) assms(1) by (simp add: poll_fds_def)
  show "asked False (p_pollfds w2) = {fd. \<exists>m \<in> set ss. req_fd w (m_sendreq (p_mmc w m)) = Some fd}"
    using a(3) [of False] b(3) [of False] assms(1) by (simp add: req_of_def)
  show "asked True (p_pollfds w2) = {fd. \<exists>m \<in> set rs. req_fd w (m_readreq (p_mmc w m)) = Some fd}"
    using a(3) [of True] b(3) [of True] assms(1) by (simp add: req_of_def rf a(4))
qed

theorem poll_array_fits_witness:
  "\<exists>w1 w2. add_poll_events False [] (example_pool :: (unit, unit, unit, buf) mmc_pool_t) = Some w1 \<and>
     add_poll_events True [] w1 = Some w2 \<and> length (p_pollfds w2) \<le> 0"
  using poll_array_fits [of "example_pool :: (unit, unit, unit, buf) mmc_pool_t" "[]" _ "[]"]
  by (simp add: example_pool_def mmc_pool_new_def)

text \<open>
  C24: The array of \<^verbatim>\<open>poll\<close> implements the descriptor sets: the search for an entry is the
  membership test, and masking the entry that was found removes the descriptor from the set
  of that direction and leaves the other set alone.
\<close>

theorem poll_refines_sets:
  assumes "distinct (poll_fds (p_pollfds w))"
  shows "is_ready True rd fd w = (fd \<in> ready rd (p_pollfds w)) \<and>
    ready rd (p_pollfds (clear_ready True rd fd w)) = ready rd (p_pollfds w) - {fd} \<and>
    ready (\<not> rd) (p_pollfds (clear_ready True rd fd w)) = ready (\<not> rd) (p_pollfds w) \<and>
    distinct (poll_fds (p_pollfds (clear_ready True rd fd w)))"
proof (intro conjI)
  show "is_ready True rd fd w = (fd \<in> ready rd (p_pollfds w))"
    by (simp only: is_ready_def mmc_pool_poll_event_idx_def if_True poll_idx_iff)
  let ?w = "clear_ready True rd fd w"
  have "ready rd (p_pollfds ?w) = ready rd (p_pollfds w) - {fd} \<and>
    ready (\<not> rd) (p_pollfds ?w) = ready (\<not> rd) (p_pollfds w) \<and> distinct (poll_fds (p_pollfds ?w))"
  proof (cases "poll_idx (p_pollfds w) fd (poll_bit rd)")
    case None
    then have "fd \<notin> ready rd (p_pollfds w)" using poll_idx_iff [of "p_pollfds w" fd rd] by simp
    then show ?thesis using None assms(1) by (simp add: clear_ready_def mmc_pool_poll_event_idx_def)
  next
    case (Some i)
    note m = mask_entry [OF assms(1) Some]
    then show ?thesis
      using Some assms(1) m(2) [of rd] m(2) [of "\<not> rd"] by (simp add: clear_ready_def mmc_pool_poll_event_idx_def)
  qed
  then show "ready rd (p_pollfds ?w) = ready rd (p_pollfds w) - {fd}" "ready (\<not> rd) (p_pollfds ?w) = ready (\<not> rd) (p_pollfds w)"
    "distinct (poll_fds (p_pollfds ?w))" by simp_all
qed

theorem poll_refines_sets_witness:
  "is_ready True True 5 ((example_pool :: (unit, unit, unit, buf) mmc_pool_t)\<lparr>p_pollfds := [\<lparr>pf_fd = 5, pf_events = 1, pf_revents = 1\<rparr>]\<rparr>) \<and>
   5 \<in> ready True [\<lparr>pf_fd = 5, pf_events = 1, pf_revents = 1\<rparr>]"
proof -
  have "distinct (poll_fds [\<lparr>pf_fd = 5, pf_events = 1, pf_revents = 1\<rparr>])" by (simp add: poll_fds_def)
  moreover have "5 \<in> ready True [\<lparr>pf_fd = 5, pf_events = 1, pf_revents = 1\<rparr>]" by (simp add: ready_def poll_bit_def POLLIN_def)
  ultimately show ?thesis
    using poll_refines_sets [of "(example_pool :: (unit, unit, unit, buf) mmc_pool_t)\<lparr>p_pollfds := [\<lparr>pf_fd = 5, pf_events = 1, pf_revents = 1\<rparr>]\<rparr>" True 5]
    by simp
qed

subsection \<open>Requests that are handled twice\<close>

lemma clone_released:
  assumes "fq_list (p_free_requests w) = [r]"
  shows "\<exists>w'. mmc_pool_clone_request (mmc_ascii_protocol rt) r w = (r, w') \<and>
    a_sendbuf (r_proto (p_req w' r)) = (if r_protocol_udp (p_req w r) then replicate 8 0 else []) \<and> a_key (r_proto (p_req w' r)) = []"
  using assms
  by (simp add: mmc_pool_clone_request_def mmc_pool_request_alloc_def mmc_request_reset_def mmc_ascii_protocol_def
      mmc_ascii_clone_request_def mmc_ascii_reset_request_def Let_def)


text \<open>Two servers, of which the second is down; failover is off.\<close>

definition down_env :: "unit mmc_env" where
  "down_env = example_env\<lparr>g_allow_failover := False\<rparr>"

definition down_pool :: "(unit, unit, unit, mmc_ascii_request) mmc_pool_t" where
  "down_pool =
     (mmc_pool_new \<lparr>gs_hash_strategy = MMC_STANDARD_HASH, gs_hash_function = MMC_HASH_FNV1A, gs_crc_step = (\<lambda>c b. c),
         gs_select_api = MMC_API_SELECT\<rparr>
        ((\<lambda>m. mmc_server_new 8192 [] 11211 0 False 1000000 15)
           (1 := mark_failed 100 (mmc_server_new 8192 [] 11211 0 False 1000000 15)))
        (\<lambda>r. new_request (mmc_ascii_protocol plain_runtime)) ())
       \<lparr>p_hash_state := StandardState \<lparr>ss_num_servers = 2, ss_buckets = [0, 1], ss_num_buckets = 2, ss_hash = example_hash\<rparr>,
        p_servers := [0, 1]\<rparr>"

lemma down_find_server:
  "find_server down_env [107] down_pool = Some (1, down_pool)"
  "find_server down_env (failover_key [107] 0) down_pool = Some (1, down_pool)"
  "find_server down_env (failover_key [107] 1) down_pool = Some (1, down_pool)"
  "find_server down_env (failover_key [107] 2) down_pool = Some (0, down_pool)"
  by (simp_all add: find_server_def down_pool_def mmc_standard_find_server_def mmc_standard_slot_def read_cell_def
      example_hash_def mmc_hash_def down_env_def is_digit_def word_le_nat_alt failover_key_def c_string_def bytes_def of_char_def
      dec.simps digits_val_def)

lemma down_release:
  "find_server down_env key down_pool = Some (m, down_pool) \<Longrightarrow>
   find_server down_env key (mmc_pool_release 7 down_pool) = Some (m, mmc_pool_release 7 down_pool)"
  by (auto simp: find_server_def down_pool_def)


text \<open>
  When the next request of a connection is to be sent and the server cannot be reached any
  more, the request is failed over twice: it still waits for its answer, so that taking the
  server down calls its failover handler, and \<^verbatim>\<open>mmc_pool_slot_send\<close> calls it again.
\<close>

theorem slot_failure_fails_over_twice:
  assumes "fq_list (m_sendqueue (p_mmc w m)) = r # rs" and "r \<in> set (reads (p_mmc w m))" and "\<not> r_protocol_udp (p_req w r)"
    and "st_status (m_tcp (p_mmc w m)) = MMC_STATUS_DISCONNECTED" and "st_stream (m_tcp (p_mmc w m)) = None"
    and "e_connect env (p_calls w) m False = NotConnected e k"
  shows "\<exists>W. r \<in> set (fq_list (deactivated_requests (p_mmc W m))) \<and>
    slot_next ops env pr m w =
      do {
        w1 \<leftarrow> mmc_server_deactivate ops env pr m W;
        map_option snd (call_failover ops env pr m r (set_sendreq m None w1))
      }"
proof -
  let ?v = "upd_mmc m (\<lambda>mmc. mmc\<lparr>m_sendqueue := fq_rest (m_sendqueue mmc)\<rparr>) w"
  let ?W = "upd_mmc m (\<lambda>mmc. connect_error mmc e k) (tick ?v)"
  have v: "st_stream (stream_of False (p_mmc ?v m)) = None" "st_status (stream_of False (p_mmc ?v m)) = MMC_STATUS_DISCONNECTED"
    using assms(4,5) by (simp_all add: stream_of_def)
  have "p_calls ?v = p_calls w" by (simp add: upd_mmc_def)
  then have "mmc_pool_open ops env pr m False ?v = do { w1 \<leftarrow> mmc_server_deactivate ops env pr m ?W; Some (MMC_REQUEST_FAILURE, w1) }"
    using v assms(6) by (simp add: mmc_pool_open_def mmc_server_connect_def Let_def mmc_consts)
  then have "slot_next ops env pr m w =
      do { w1 \<leftarrow> mmc_server_deactivate ops env pr m ?W; map_option snd (call_failover ops env pr m r (set_sendreq m None w1)) }"
    using assms(1,3)
    by (cases "mmc_server_deactivate ops env pr m ?W") (simp_all add: slot_next_def mmc_pool_slot_send_def Let_def mmc_consts)
  moreover have "pipeline (connect_error (p_mmc ?v m) e k) = pipeline (p_mmc ?v m)" by (rule connect_error_pipeline)
  then have "reads (p_mmc ?W m) = reads (p_mmc ?v m)" using pipeline_fields [of "p_mmc ?W m" "p_mmc ?v m"] by simp
  then have "r \<in> set (reads (p_mmc ?W m))" using assms(2) by (simp add: reads_def)
  then have "r \<in> set (fq_list (deactivated_requests (p_mmc ?W m)))"
    by (auto simp: deactivated_requests_def reads_def Let_def split: option.splits)
  ultimately show ?thesis by blast
qed

theorem slot_failure_fails_over_twice_witness:
  "\<exists>W. 7 \<in> set (fq_list (deactivated_requests (p_mmc W 0))) \<and>
    slot_next (pool_ops example_env example_protocol 1) (example_env\<lparr>e_connect := \<lambda>n m udp. NotConnected None 111\<rparr>) example_protocol 0
      (upd_mmc 0 (\<lambda>mmc. mmc\<lparr>m_sendqueue := fq_push fq_zero 7, m_readreq := Some 7\<rparr>) (example_pool :: (unit, unit, unit, buf) mmc_pool_t)) =
      do {
        w1 \<leftarrow> mmc_server_deactivate (pool_ops example_env example_protocol 1) (example_env\<lparr>e_connect := \<lambda>n m udp. NotConnected None 111\<rparr>) example_protocol 0 W;
        map_option snd (call_failover (pool_ops example_env example_protocol 1) (example_env\<lparr>e_connect := \<lambda>n m udp. NotConnected None 111\<rparr>) example_protocol 0 7
          (set_sendreq 0 None w1))
      }"
  by (rule slot_failure_fails_over_twice [where rs = "[]" and e = None and k = 111])
    (simp_all add: reads_def example_pool_def mmc_pool_new_def mmc_server_new_def zero_stream_def new_request_def)

end
