(* ===== verification/Mmc_Run.thy ===== *)
theory Mmc_Run
  imports Mmc_Pool_Total Mmc_Protocols
begin

text \<open>
  \<^verbatim>\<open>mmc_pool_run\<close> from the moment a request has been sent until its answer has been read: the
  rounds of \<open>Mmc_Select\<close> over one connection, for any parser that does not depend on how the
  answer is cut into pieces, and for both protocols. The answer may arrive in any number of
  pieces and at any time between two calls, and \<^verbatim>\<open>select\<close> may report the connection as
  readable before there is anything to read.
\<close>

subsection \<open>A connection that waits for an answer\<close>

text \<open>The parser of a request as a step over what it changes.\<close>

definition pool_step where
  "pool_step pr h = (\<lambda>(p, io, s). pr_parse pr h p io s)"

definition pool_recv :: "buf \<Rightarrow> 'p \<times> mmc_io \<times> 's \<Rightarrow> 'p \<times> mmc_io \<times> 's" where
  "pool_recv c = (\<lambda>(p, io, s). (p, receive io c, s))"

lemma pool_recv_simp: "pool_recv c (p, io, s) = (p, receive io c, s)"
  by (simp add: pool_recv_def)

definition parser_state :: "nat \<Rightarrow> nat \<Rightarrow> ('d, 'o, 'u, 'p) mmc_pool_t \<Rightarrow> 'p \<times> mmc_io \<times> (mmc_t \<times> 'u)" where
  "parser_state m r w =
     (r_proto (p_req w r), st_io (m_tcp (p_mmc w m)), without_io False (p_mmc w m), p_user w)"

definition waiting :: "'u mmc_env \<Rightarrow> nat \<Rightarrow> int \<Rightarrow> nat \<Rightarrow> nat \<Rightarrow> ('d, 'o, mmc_t \<times> 'u) mmc_handlers \<Rightarrow> ('d, 'o, 'u, 'p) mmc_pool_t \<Rightarrow> bool" where
  "waiting env s fd m r h w \<longleftrightarrow>
     m_readreq (p_mmc w m) = Some r \<and> m_sendreq (p_mmc w m) = None \<and> fq_list (m_readqueue (p_mmc w m)) = [] \<and>
     r_io (p_req w r) = Some (m, False) \<and> \<not> r_read_udp (p_req w r) \<and>
     st_stream (m_tcp (p_mmc w m)) = Some s \<and> \<not> st_buffered (m_tcp (p_mmc w m)) \<and>
     st_fd (m_tcp (p_mmc w m)) = fd \<and> 0 \<le> fd \<and> fd < FD_SETSIZE \<and>
     handlers_of False (p_req w r) = h \<and> st_taken (m_tcp (p_mmc w m)) \<le> length (e_arrived env (p_calls w) s) \<and>
     fq_list (p_pending w) = [] \<and> p_select_api w \<noteq> MMC_API_POLL"

text \<open>What has not been taken yet of the bytes \<open>full\<close> that will ever arrive.\<close>

definition to_come :: "buf \<Rightarrow> nat \<Rightarrow> ('d, 'o, 'u, 'p) mmc_pool_t \<Rightarrow> buf" where
  "to_come full m w = drop (st_taken (m_tcp (p_mmc w m))) full"

text \<open>The network: what has arrived on stream \<open>s\<close> only grows, up to \<open>full\<close>, which is there at call \<open>N\<close>.\<close>

definition delivers :: "'u mmc_env \<Rightarrow> nat \<Rightarrow> buf \<Rightarrow> nat \<Rightarrow> bool" where
  "delivers env s full N \<longleftrightarrow>
     (\<forall>n k. n \<le> k \<longrightarrow> prefix (e_arrived env n s) (e_arrived env k s)) \<and> (\<forall>n\<ge>N. e_arrived env n s = full)"

lemma delivers_prefix: "delivers env s full N \<Longrightarrow> prefix (e_arrived env n s) full"
  unfolding delivers_def by (metis nat_le_linear)

text \<open>The callbacks of the parser leave the server alone, unless it reports a failure.\<close>

definition keeps_server where
  "keeps_server step \<longleftrightarrow>
     (\<forall>p io mmc u x p' io' mmc' u'. step (p, io, mmc, u) = Some (x, p', io', mmc', u') \<and>
        x \<in> {MMC_REQUEST_AGAIN, MMC_REQUEST_MORE, MMC_REQUEST_DONE} \<longrightarrow> mmc' = mmc)"

lemma keeps_serverD:
  "keeps_server step \<Longrightarrow> step (p, io, mmc, u) = Some (x, p', io', mmc', u') \<Longrightarrow>
   x \<in> {MMC_REQUEST_AGAIN, MMC_REQUEST_MORE, MMC_REQUEST_DONE} \<Longrightarrow> mmc' = mmc"
  unfolding keeps_server_def by blast

subsection \<open>One call of the parser\<close>

definition after_parse ::
  "'u mmc_env \<Rightarrow> nat \<Rightarrow> nat \<Rightarrow> 'p \<Rightarrow> mmc_io \<Rightarrow> 'u \<Rightarrow> ('d, 'o, 'u, 'p) mmc_pool_t \<Rightarrow> ('d, 'o, 'u, 'p) mmc_pool_t" where
  "after_parse env m r proto io user w =
     upd_req r (\<lambda>req. req\<lparr>r_proto := proto\<rparr>)
       (upd_mmc m (\<lambda>mmc. mmc\<lparr>m_tcp := (m_tcp mmc)\<lparr>st_io := io, st_taken := taken env (p_calls w) (m_tcp mmc)\<rparr>\<rparr>)
         ((tick w)\<lparr>p_user := user\<rparr>))"

lemma pool_user_simps [simp]:
  "p_mmc (w\<lparr>p_user := u\<rparr>) = p_mmc w" "sending ph (w\<lparr>p_user := u\<rparr>) = sending ph w" "reading ph (w\<lparr>p_user := u\<rparr>) = reading ph w"
  by (simp_all add: sending_def reading_def)

lemma in_select_simps [simp]:
  "sending ph (w\<lparr>p_in_select := b\<rparr>) = sending ph w" "reading ph (w\<lparr>p_in_select := b\<rparr>) = reading ph w"
  by (simp_all add: sending_def reading_def)

lemma finish_simps [simp]:
  "p_first (next_read m w) = p_first w" "sending ph (next_read m w) = sending ph w" "reading ph (next_read m w) = reading ph w"
  "p_in_select (next_read m w) = p_in_select w" "p_in_select (mmc_pool_release r w) = p_in_select w"
  "p_calls (next_read m w) = p_calls w"
  by (simp_all add: next_read_def mmc_pool_release_def upd_mmc_def sending_def reading_def)

lemma after_parse_simps:
  "p_mmc (after_parse env m r proto io user w) =
     (p_mmc w)(m := (p_mmc w m)\<lparr>m_tcp := (m_tcp (p_mmc w m))\<lparr>st_io := io, st_taken := taken env (p_calls w) (m_tcp (p_mmc w m))\<rparr>\<rparr>)"
  "p_req (after_parse env m r proto io user w) = (p_req w)(r := (p_req w r)\<lparr>r_proto := proto\<rparr>)"
  "p_calls (after_parse env m r proto io user w) = p_calls w + 1" "p_user (after_parse env m r proto io user w) = user"
  "p_in_select (after_parse env m r proto io user w) = p_in_select w" "p_first (after_parse env m r proto io user w) = p_first w"
  "sending ph (after_parse env m r proto io user w) = sending ph w"
  "reading ph (after_parse env m r proto io user w) = reading ph w"
  "p_pending (after_parse env m r proto io user w) = p_pending w"
  "p_select_api (after_parse env m r proto io user w) = p_select_api w"
  "p_free_requests (after_parse env m r proto io user w) = p_free_requests w"
  by (simp_all add: after_parse_def sending_def reading_def upd_req_def upd_mmc_def tick_def)

lemma parse_waiting:
  assumes w: "waiting env s fd m r h w" and dl: "delivers env s full N" and ks: "keeps_server (pool_step pr h)"
    and st: "pool_step pr h (pool_recv (drop (st_taken (m_tcp (p_mmc w m))) (e_arrived env (p_calls w) s)) (parser_state m r w)) =
      Some (x, proto, io, mmc, user)"
    and x: "x \<in> {MMC_REQUEST_AGAIN, MMC_REQUEST_MORE, MMC_REQUEST_DONE}"
  defines "W \<equiv> after_parse env m r proto io user w"
  shows "parse_request env pr m r w = Some (x, W)" and "waiting env s fd m r h W" and "parser_state m r W = (proto, io, mmc, user)"
    and "pool_recv (to_come full m w) (parser_state m r w) = pool_recv (to_come full m W)
      (pool_recv (drop (st_taken (m_tcp (p_mmc w m))) (e_arrived env (p_calls w) s)) (parser_state m r w))"
proof -
  let ?mmc = "p_mmc w m" and ?a = "e_arrived env (p_calls w) s"
  have w': "m_readreq ?mmc = Some r" "m_sendreq ?mmc = None" "fq_list (m_readqueue ?mmc) = []"
     "r_io (p_req w r) = Some (m, False)" "\<not> r_read_udp (p_req w r)"
     "st_stream (m_tcp ?mmc) = Some s" "\<not> st_buffered (m_tcp ?mmc)"
     "st_fd (m_tcp ?mmc) = fd" "0 \<le> fd" "fd < FD_SETSIZE"
     "handlers_of False (p_req w r) = h" "st_taken (m_tcp ?mmc) \<le> length ?a"
     "fq_list (p_pending w) = []" "p_select_api w \<noteq> MMC_API_POLL" using w by (simp_all add: waiting_def)
  have mmc: "mmc = without_io False ?mmc"
    using keeps_serverD [OF ks st [unfolded parser_state_def pool_recv_simp] x] .
  have tk: "taken env (p_calls w) (m_tcp ?mmc) = length ?a"
    using w' by (simp add: taken_def)
  have parse: "pr_parse pr h (r_proto (p_req w r)) (arrived_io env (p_calls w) (m_tcp ?mmc)) (without_io False ?mmc, p_user w) =
      Some (x, proto, io, mmc, user)"
    using st w' by (simp add: pool_step_def pool_recv_def parser_state_def arrived_io_def)
  have W: "upd_req r (\<lambda>req. req\<lparr>r_proto := proto\<rparr>)
       (upd_mmc m (\<lambda>_. map_stream False (\<lambda>t. t\<lparr>st_io := io, st_taken := taken env (p_calls w) (m_tcp ?mmc)\<rparr>) mmc)
         ((tick w)\<lparr>p_user := user\<rparr>)) = W"
    by (simp add: W_def after_parse_def mmc upd_mmc_def map_stream_def without_io_def)
  show "parse_request env pr m r w = Some (x, W)"
    using w' parse W by (simp add: parse_request_def stream_of_def Let_def)
  have "length ?a \<le> length (e_arrived env (p_calls w + 1) s)"
    using dl unfolding delivers_def by (metis le_add1 prefix_length_le)
  then show "waiting env s fd m r h W"
    using w' tk by (simp add: waiting_def W_def after_parse_simps handlers_of_def)
  show "parser_state m r W = (proto, io, mmc, user)"
    by (simp add: parser_state_def W_def after_parse_simps mmc without_io_def map_stream_def)
  obtain e where e: "full = ?a @ e" using delivers_prefix [OF dl] by (auto simp: prefix_def)
  have "to_come full m w = drop (st_taken (m_tcp ?mmc)) ?a @ to_come full m W"
    using w'(12) by (simp add: to_come_def W_def after_parse_simps tk e)
  then show "pool_recv (to_come full m w) (parser_state m r w) = pool_recv (to_come full m W)
      (pool_recv (drop (st_taken (m_tcp ?mmc)) ?a) (parser_state m r w))"
    by (simp add: parser_state_def pool_recv_simp receive_receive)
qed

subsection \<open>The loop over the answer of a request\<close>

text \<open>
  What a turn of the loop leaves: the answer is complete, or more bytes are needed, and then
  the parser is where it would be on all bytes together.
\<close>

definition answered where
  "answered m r user w \<longleftrightarrow>
     p_user w = user \<and> m_readreq (p_mmc w m) = None \<and> m_sendreq (p_mmc w m) = None \<and>
     r \<in> set (fq_list (p_free_requests w)) \<and> fq_list (p_pending w) = []"

definition same_round where
  "same_round w w' \<longleftrightarrow>
     p_first w' = p_first w \<and> p_in_select w' = p_in_select w \<and> p_calls w < p_calls w' \<and>
     (\<forall>ph. sending ph w' = sending ph w) \<and> (\<forall>ph. reading ph w' = reading ph w)"

definition needs_more where
  "needs_more env s fd m r h pr full y ok w \<longleftrightarrow>
     waiting env s fd m r h w \<and> ok (parser_state m r w) \<and>
     parse_loop (pool_step pr h) (pool_recv (to_come full m w) (parser_state m r w)) = Some (Some (MMC_REQUEST_DONE, y))"

lemma tick_waiting:
  assumes "waiting env s fd m r h w" and "delivers env s full N"
  shows "waiting env s fd m r h (tick w)"
proof -
  have "length (e_arrived env (p_calls w) s) \<le> length (e_arrived env (p_calls w + 1) s)"
    using assms(2) unfolding delivers_def by (metis le_add1 prefix_length_le)
  then show ?thesis using assms(1) by (auto simp: waiting_def tick_def)
qed

lemma tick_same: "parser_state m r (tick w) = parser_state m r w" "to_come full m (tick w) = to_come full m w"
  "p_calls (tick w) = p_calls w + 1" "p_in_select (tick w) = p_in_select w"
  by (simp_all add: parser_state_def to_come_def tick_def)

lemma parse_turn:
  assumes inc: "incremental_parser (pool_step pr h) pool_recv ok" and dl: "delivers env s full N"
    and ks: "keeps_server (pool_step pr h)"
    and w: "waiting env s fd m r h w" "ok (parser_state m r w)"
    and st: "pool_step pr h (pool_recv (to_come full m w) (parser_state m r w)) = Some (x, z')" "x \<in> {MMC_REQUEST_AGAIN, MMC_REQUEST_DONE}"
  obtains X W where "parse_request env pr m r w = Some (X, W)" and "waiting env s fd m r h W" and "ok (parser_state m r W)"
    and "same_round w W"
    and "X = x \<and> z' = pool_recv (to_come full m W) (parser_state m r W) \<or>
      X = MMC_REQUEST_MORE \<and> p_calls w < N \<and>
        pool_step pr h (pool_recv (to_come full m w) (parser_state m r w)) =
        pool_step pr h (pool_recv (to_come full m W) (parser_state m r W))"
proof -
  let ?step = "pool_step pr h" and ?a = "e_arrived env (p_calls w) s"
  let ?x1 = "pool_recv (drop (st_taken (m_tcp (p_mmc w m))) ?a) (parser_state m r w)"
  note inc_laws = incremental_parser.recv_ok [OF inc] incremental_parser.step_ok [OF inc] incremental_parser.step_more [OF inc]
    incremental_parser.step_done [OF inc] incremental_parser.step_fault [OF inc] incremental_parser.recv_Nil [OF inc]
    incremental_parser.recv_append [OF inc]
  have ok1: "ok ?x1" by (rule inc_laws(1) [OF w(2)])
  obtain e where e: "full = ?a @ e" using delivers_prefix [OF dl] by (auto simp: prefix_def)
  have "st_taken (m_tcp (p_mmc w m)) \<le> length ?a" using w(1) by (simp add: waiting_def)
  then have z: "pool_recv (to_come full m w) (parser_state m r w) = pool_recv e ?x1"
    by (simp add: to_come_def e inc_laws(7))
  have x: "x \<noteq> MMC_REQUEST_MORE" using st(2) by (auto simp: mmc_consts)
  obtain X x2 where X: "?step ?x1 = Some (X, x2)"
    using inc_laws(5) [OF ok1, of e] st(1) z by (cases "?step ?x1") auto
  have cases: "X = x \<and> z' = pool_recv e x2 \<or> X = MMC_REQUEST_MORE \<and> p_calls w < N \<and> ?step (pool_recv e ?x1) = ?step (pool_recv e x2)"
  proof (cases "X = MMC_REQUEST_MORE")
    case True
    have "p_calls w < N"
    proof (rule ccontr)
      assume "\<not> p_calls w < N"
      then have "?a = full" using dl by (simp add: delivers_def)
      then have "e = []" using e by simp
      then show False using st z X True x by (simp add: inc_laws(6))
    qed
    then show ?thesis using True inc_laws(3) [OF ok1 X [unfolded True]] by blast
  next
    case False
    then show ?thesis using inc_laws(4) [OF ok1 X False, of e] st(1) z by simp
  qed
  obtain proto io mmc user where x2: "x2 = (proto, io, mmc, user)" by (cases x2)
  have "X \<in> {MMC_REQUEST_AGAIN, MMC_REQUEST_MORE, MMC_REQUEST_DONE}" using cases st(2) by auto
  note p = parse_waiting [OF w(1) dl ks X [unfolded x2] this]
  let ?W = "after_parse env m r proto io user w"
  have tc: "to_come full m ?W = e"
  proof -
    have "st_stream (m_tcp (p_mmc w m)) = Some s" "\<not> st_buffered (m_tcp (p_mmc w m))"
      "st_taken (m_tcp (p_mmc w m)) \<le> length ?a" using w(1) by (simp_all add: waiting_def)
    then show ?thesis by (simp add: to_come_def after_parse_simps taken_def e)
  qed
  have "same_round w ?W" by (simp add: same_round_def after_parse_simps)
  moreover have "ok (parser_state m r ?W)" unfolding p(3) x2 [symmetric] by (rule inc_laws(2) [OF ok1 X])
  ultimately show thesis using that [OF p(1,2)] cases z tc p(3) x2 by simp
qed

lemma read_turn_parse:
  assumes "waiting env s fd m r h w" and "parse_request env pr m r w = Some (X, W)" and "p_in_select w" and "same_round w W"
    and "waiting env s fd m r h W" and "\<forall>n. \<not> e_eof env n"
  shows "X = MMC_REQUEST_AGAIN \<Longrightarrow> read_loop ops env pr m w = read_loop ops env pr m W"
    and "X = MMC_REQUEST_MORE \<Longrightarrow> read_loop ops env pr m w = Some (False, MMC_REQUEST_MORE, tick W)"
    and "X = MMC_REQUEST_DONE \<Longrightarrow>
      read_loop ops env pr m w = Some (False, MMC_REQUEST_DONE, next_read m (mmc_pool_release r W))"
proof -
  have w: "m_readreq (p_mmc w m) = Some r" "m_readreq (p_mmc W m) = Some r" "m_sendreq (p_mmc W m) = None"
    "r_io (p_req W r) = Some (m, False)" "st_stream (m_tcp (p_mmc W m)) = Some s" "p_in_select W"
    "fq_list (m_readqueue (p_mmc W m)) = []"
    using assms(1,3-5) by (simp_all add: waiting_def same_round_def)
  show "X = MMC_REQUEST_AGAIN \<Longrightarrow> read_loop ops env pr m w = read_loop ops env pr m W"
    using w assms(2) by (subst read_loop.simps) (simp add: read_turn_def mmc_consts)
  show "X = MMC_REQUEST_MORE \<Longrightarrow> read_loop ops env pr m w = Some (False, MMC_REQUEST_MORE, tick W)"
    using w assms(2,6) by (subst read_loop.simps) (simp add: read_turn_def request_more_def stream_of_def mmc_consts)
  show "X = MMC_REQUEST_DONE \<Longrightarrow>
      read_loop ops env pr m w = Some (False, MMC_REQUEST_DONE, next_read m (mmc_pool_release r W))"
    using w assms(2) by (subst read_loop.simps) (simp add: read_turn_def request_done_def next_read_def mmc_consts)
qed

lemma read_loop_waiting:
  fixes ops :: "('d, 'o, 'u, 'p) pool_ops"
  assumes inc: "incremental_parser (pool_step pr h) pool_recv ok" and dl: "delivers env s full N"
    and ks: "keeps_server (pool_step pr h)" and eof: "\<forall>n. \<not> e_eof env n"
    and run: "parse_loop (pool_step pr h) z = Some out"
  shows "\<forall>w :: ('d, 'o, 'u, 'p) mmc_pool_t. z = pool_recv (to_come full m w) (parser_state m r w) \<and>
    parse_loop (pool_step pr h) z = Some out \<and>
    out = Some (MMC_REQUEST_DONE, y) \<and> waiting env s fd m r h w \<and> ok (parser_state m r w) \<and> p_in_select w \<longrightarrow>
    (\<exists>res w'. read_loop ops env pr m w = Some (False, res, w') \<and> same_round w w' \<and>
      (res = MMC_REQUEST_DONE \<and> answered m r (snd (snd (snd y))) w' \<or>
       res = MMC_REQUEST_MORE \<and> p_calls w < N \<and> needs_more env s fd m r h pr full y ok w'))"
    (is "?P z out")
proof (rule parse_loop_induct [where P = ?P, OF run])
  let ?step = "pool_step pr h" and ?loop = "read_loop ops env pr m"
  let ?Q = "\<lambda>w w1. \<exists>res w'. ?loop w1 = Some (False, res, w') \<and> same_round w w' \<and>
      (res = MMC_REQUEST_DONE \<and> answered m r (snd (snd (snd y))) w' \<or>
       res = MMC_REQUEST_MORE \<and> p_calls w < N \<and> needs_more env s fd m r h pr full y ok w')"
  have more: "?Q w w" if w: "p_in_select w" "waiting env s fd m r h w" "parse_request env pr m r w = Some (MMC_REQUEST_MORE, W)"
      "waiting env s fd m r h W" "ok (parser_state m r W)" "same_round w W" "p_calls w < N"
      "?step x = ?step (pool_recv (to_come full m W) (parser_state m r W))" "parse_loop ?step x = Some (Some (MMC_REQUEST_DONE, y))"
    for w W x
  proof -
    have "?loop w = Some (False, MMC_REQUEST_MORE, tick W)"
      using read_turn_parse(2) [OF w(2,3,1,6,4) eof refl] .
    moreover have "parse_loop ?step (pool_recv (to_come full m W) (parser_state m r W)) = Some (Some (MMC_REQUEST_DONE, y))"
      using w(8,9) by (subst (asm) parse_loop.simps, subst parse_loop.simps) simp
    then have "needs_more env s fd m r h pr full y ok (tick W)"
      using w(5) tick_waiting [OF w(4) dl] by (simp add: needs_more_def tick_same)
    moreover have "same_round w (tick W)" using w(6) by (simp add: same_round_def tick_same)
    ultimately show ?thesis using w(7) by blast
  qed
  {
    fix x show "?P x None" by simp
  next
    fix x x' out
    assume st: "?step x = Some (MMC_REQUEST_AGAIN, x')" and IH: "?P x' out"
    show "?P x out"
    proof (intro allI impI, elim conjE)
      fix w :: "('d, 'o, 'u, 'p) mmc_pool_t"
      assume x: "x = pool_recv (to_come full m w) (parser_state m r w)" and run: "parse_loop ?step x = Some out"
        and out: "out = Some (MMC_REQUEST_DONE, y)" and w: "waiting env s fd m r h w" "ok (parser_state m r w)" "p_in_select w"
      have run': "parse_loop ?step x' = Some out" using run parse_loop_step [of ?step, OF st] by simp
      show "?Q w w"
      proof (rule parse_turn [OF inc dl ks w(1,2) st [unfolded x]])
        fix X W
        assume p: "parse_request env pr m r w = Some (X, W)" "waiting env s fd m r h W" "ok (parser_state m r W)" "same_round w W"
          and c: "X = MMC_REQUEST_AGAIN \<and> x' = pool_recv (to_come full m W) (parser_state m r W) \<or>
            X = MMC_REQUEST_MORE \<and> p_calls w < N \<and>
            ?step (pool_recv (to_come full m w) (parser_state m r w)) = ?step (pool_recv (to_come full m W) (parser_state m r W))"
        show ?thesis
        proof (cases "X = MMC_REQUEST_MORE")
          case True
          then have s: "p_calls w < N" "?step x = ?step (pool_recv (to_come full m W) (parser_state m r W))"
            using c x by (auto simp: mmc_consts)
          show ?thesis using more [OF w(3,1) p(1) [unfolded True] p(2-4) s] run out by simp
        next
          case False
          then have x': "X = MMC_REQUEST_AGAIN" "x' = pool_recv (to_come full m W) (parser_state m r W)" using c by auto
          have "p_in_select W" using w(3) p(4) by (simp add: same_round_def)
          then have "?Q W W" using IH [rule_format, of W] x'(2) run' out p(2,3) by blast
          moreover have "?loop w = ?loop W" using read_turn_parse(1) [OF w(1) p(1) w(3) p(4,2) eof x'(1)] .
          ultimately show ?thesis using p(4) by (auto simp: same_round_def)
        qed
      qed simp
    qed
  next
    fix x X' x' assume st: "?step x = Some (X', x')" and na: "X' \<noteq> MMC_REQUEST_AGAIN"
    show "?P x (Some (X', x'))"
    proof (intro allI impI, elim conjE)
      fix w :: "('d, 'o, 'u, 'p) mmc_pool_t"
      assume x: "x = pool_recv (to_come full m w) (parser_state m r w)" and run: "parse_loop ?step x = Some (Some (X', x'))"
        and out: "Some (X', x') = Some (MMC_REQUEST_DONE, y)" and w: "waiting env s fd m r h w" "ok (parser_state m r w)" "p_in_select w"
      have X': "X' = MMC_REQUEST_DONE" "x' = y" using out by simp_all
      show "?Q w w"
      proof (rule parse_turn [OF inc dl ks w(1,2) st [unfolded x]])
        fix X W
        assume p: "parse_request env pr m r w = Some (X, W)" "waiting env s fd m r h W" "ok (parser_state m r W)" "same_round w W"
          and c: "X = X' \<and> x' = pool_recv (to_come full m W) (parser_state m r W) \<or>
            X = MMC_REQUEST_MORE \<and> p_calls w < N \<and>
            ?step (pool_recv (to_come full m w) (parser_state m r w)) = ?step (pool_recv (to_come full m W) (parser_state m r W))"
        show ?thesis
        proof (cases "X = MMC_REQUEST_MORE")
          case True
          then have s: "p_calls w < N" "?step x = ?step (pool_recv (to_come full m W) (parser_state m r W))"
            using c x X' by (auto simp: mmc_consts)
          show ?thesis using more [OF w(3,1) p(1) [unfolded True] p(2-4) s] run X' by simp
        next
          case False
          then have X: "X = MMC_REQUEST_DONE" "y = pool_recv (to_come full m W) (parser_state m r W)" using c X' by auto
          have "?loop w = Some (False, MMC_REQUEST_DONE, next_read m (mmc_pool_release r W))"
            using read_turn_parse(3) [OF w(1) p(1) w(3) p(4,2) eof X(1)] .
          moreover have "same_round w (next_read m (mmc_pool_release r W))"
            using p(4) by (simp add: same_round_def)
          moreover have "answered m r (snd (snd (snd y))) (next_read m (mmc_pool_release r W))"
            using p(2) X(2)
            by (simp add: answered_def waiting_def next_read_def parser_state_def pool_recv_simp)
              (simp add: mmc_pool_release_def upd_mmc_def)
          ultimately show ?thesis by blast
        qed
      qed (simp add: X')
    qed
  }
qed

subsection \<open>A round, and the run to completion\<close>

text \<open>The pool between two rounds: only this connection is in its queues.\<close>

definition idle_rounds where
  "idle_rounds m w \<longleftrightarrow> \<not> p_in_select w \<and> fq_list (sending (p_first w) w) = [] \<and> fq_list (reading (p_first w) w) = [m]"

text \<open>\<^verbatim>\<open>select\<close> never times out, and reports the connection once everything has arrived.\<close>

definition select_works :: "'u mmc_env \<Rightarrow> int \<Rightarrow> nat \<Rightarrow> bool" where
  "select_works env fd N \<longleftrightarrow> (\<forall>n. 0 < fst (e_select env n) \<and> (N \<le> n \<longrightarrow> fd \<in> snd (snd (e_select env n))))"

lemma server_loop_end: "fq_len (queue_of rd ph w) \<le> i \<Longrightarrow> server_loop body rd ph i w = Some (False, w)"
  by (subst server_loop.simps) simp

lemma server_loop_one:
  assumes "fq_list (queue_of rd ph w) = [m]" and "body m w = Some (False, w')" and "fq_list (queue_of rd ph w') = [m]"
  shows "server_loop body rd ph 0 w = Some (False, w')"
  using assms by (subst server_loop.simps) (simp add: server_loop_end)

lemma other_queue [simp]:
  "reading ph (map_reading (\<not> ph) f w) = reading ph w" "reading (\<not> ph) (map_reading ph f w) = reading (\<not> ph) w"
  by (simp_all add: map_reading_def reading_def)

text \<open>The pool after the switch, the call of \<^verbatim>\<open>select\<close> and the choice of the descriptors.\<close>

definition after_select where
  "after_select rfds w = ((tick (mmc_pool_switch w))\<lparr>p_wfds := {}, p_rfds := rfds, p_in_select := True\<rparr>)"

lemma after_select_simps:
  "p_mmc (after_select F w) = p_mmc w" "p_req (after_select F w) = p_req w" "p_calls (after_select F w) = p_calls w + 1"
  "p_user (after_select F w) = p_user w" "p_first (after_select F w) = (\<not> p_first w)" "p_in_select (after_select F w)"
  "p_pending (after_select F w) = p_pending w" "p_select_api (after_select F w) = p_select_api w"
  "p_rfds (after_select F w) = F" "p_free_requests (after_select F w) = p_free_requests w"
  "sending (p_first w) (after_select F w) = sending (p_first w) w" "reading (p_first w) (after_select F w) = reading (p_first w) w"
  "fq_list (sending (\<not> p_first w) (after_select F w)) = []" "fq_list (reading (\<not> p_first w) (after_select F w)) = []"
  by (simp_all add: after_select_def mmc_pool_switch_def tick_def map_sending_def map_reading_def sending_def reading_def Let_def)

lemma round_start:
  assumes w: "waiting env s fd m r h w" "idle_rounds m w" and sel: "select_works env fd N"
  defines "F \<equiv> {fd} \<inter> snd (snd (e_select env (p_calls w)))"
  shows "mmc_pool_select ops env pr w = complete_round ops env pr False (p_first w) (after_select F w)"
proof -
  let ?sw = "mmc_pool_switch w"
  have s: "p_mmc ?sw = p_mmc w" "p_req ?sw = p_req w" "sending (p_first w) ?sw = sending (p_first w) w"
    "reading (p_first w) ?sw = reading (p_first w) w" "p_calls ?sw = p_calls w"
    by (simp_all add: mmc_pool_switch_def map_sending_def map_reading_def sending_def reading_def Let_def)
  have "collect_fds True [m] ?sw = Some {fd}"
    using w(1) by (simp add: waiting_def req_fd_def req_of_def stream_of_def s)
  moreover obtain res wr rr where e: "e_select env (p_calls w) = (res, wr, rr)" by (cases "e_select env (p_calls w)")
  moreover have "0 < res" using sel e unfolding select_works_def by (metis fst_conv)
  ultimately show ?thesis
    using w by (simp add: mmc_pool_select_def mmc_pool_select_impl_def waiting_def idle_rounds_def s timeouts_def
        after_select_def F_def Let_def)
qed

text \<open>
  The half of a round that reads, from a pool that is in it with one connection to read from:
  it reads the end of the answer, or leaves the connection in the queue of the next round with
  the parser advanced; the latter only before everything has arrived.
\<close>

definition round_over where
  "round_over m r y w \<longleftrightarrow>
     answered m r (snd (snd (snd y))) w \<and> fq_list (sending (p_first w) w) = [] \<and> fq_list (reading (p_first w) w) = []"

definition in_round where
  "in_round ph m w \<longleftrightarrow>
     p_in_select w \<and> p_first w = (\<not> ph) \<and> fq_list (reading ph w) = [m] \<and> fq_list (sending (\<not> ph) w) = [] \<and>
     fq_list (reading (\<not> ph) w) = []"

lemma read_half:
  assumes inc: "incremental_parser (pool_step pr h) pool_recv ok" and dl: "delivers env s full N"
    and ks: "keeps_server (pool_step pr h)" and eof: "\<forall>n. \<not> e_eof env n"
    and w: "needs_more env s fd m r h pr full y ok w" "in_round ph m w"
  shows "\<exists>w'. server_loop (read_server ops env pr False) True ph 0 w = Some (False, w') \<and> p_calls w \<le> p_calls w' \<and>
    (round_over m r y (w'\<lparr>p_in_select := False\<rparr>) \<or>
     (p_calls w < N \<or> fd \<notin> p_rfds w) \<and> needs_more env s fd m r h pr full y ok (w'\<lparr>p_in_select := False\<rparr>) \<and>
     idle_rounds m (w'\<lparr>p_in_select := False\<rparr>))"
proof -
  have q: "p_in_select w" "p_first w = (\<not> ph)" "fq_list (queue_of True ph w) = [m]" "fq_list (sending (\<not> ph) w) = []"
    "fq_list (reading (\<not> ph) w) = []" using w(2) by (simp_all add: in_round_def queue_of_def)
  have rf: "req_fd w (Some r) = Some fd" "m_readreq (p_mmc w m) = Some r" "\<not> r_read_udp (p_req w r)"
    using w(1) by (simp_all add: needs_more_def waiting_def req_fd_def stream_of_def)
  show ?thesis
  proof (cases "fd \<in> p_rfds w")
    case False
    let ?w2 = "map_reading (\<not> ph) (\<lambda>q. fq_push q m) w"
    have "read_server ops env pr False m w = Some (False, ?w2)"
      using False rf q by (simp add: read_server_def is_ready_def)
    moreover have "fq_list (queue_of True ph ?w2) = [m]" using q by (simp add: queue_of_def)
    ultimately have "server_loop (read_server ops env pr False) True ph 0 w = Some (False, ?w2)"
      by (rule server_loop_one [OF q(3)])
    moreover have "needs_more env s fd m r h pr full y ok (?w2\<lparr>p_in_select := False\<rparr>)"
      using w(1) by (simp add: needs_more_def waiting_def parser_state_def to_come_def map_reading_def)
    moreover have "idle_rounds m (?w2\<lparr>p_in_select := False\<rparr>)" using q by (simp add: idle_rounds_def)
    moreover have "p_calls w \<le> p_calls ?w2" by simp
    ultimately show ?thesis using False by blast
  next
    case True
    let ?w2 = "clear_ready False True fd w"
    have w2: "p_mmc ?w2 = p_mmc w" "p_req ?w2 = p_req w" "p_user ?w2 = p_user w" "p_calls ?w2 = p_calls w"
      "p_in_select ?w2 = p_in_select w" "p_first ?w2 = p_first w" "p_pending ?w2 = p_pending w"
      "p_select_api ?w2 = p_select_api w" "sending ph ?w2 = sending ph w" "reading ph ?w2 = reading ph w" for ph
      by (simp_all add: clear_ready_def sending_def reading_def)
    have n2: "needs_more env s fd m r h pr full y ok ?w2"
      using w(1) by (simp add: needs_more_def waiting_def parser_state_def to_come_def w2)
    then have run: "parse_loop (pool_step pr h) (pool_recv (to_come full m ?w2) (parser_state m r ?w2)) =
        Some (Some (MMC_REQUEST_DONE, y))" by (simp add: needs_more_def)
    have "p_in_select ?w2" by (simp add: w2 q)
    with read_loop_waiting [OF inc dl ks eof run, where y = y and m = m and r = r and ops = ops and fd = fd, rule_format, of ?w2] run n2 obtain res w3 where
      l: "read_loop ops env pr m ?w2 = Some (False, res, w3)" "same_round ?w2 w3"
        "res = MMC_REQUEST_DONE \<and> answered m r (snd (snd (snd y))) w3 \<or>
         res = MMC_REQUEST_MORE \<and> p_calls ?w2 < N \<and> needs_more env s fd m r h pr full y ok w3"
      unfolding needs_more_def by blast
    let ?w4 = "if res = MMC_REQUEST_MORE then map_reading (p_first w3) (\<lambda>q. fq_push q m) w3 else w3"
    have nu: "\<not> r_read_udp (p_req ?w2 r)" using rf(3) by (simp only: w2(2) not_False_eq_True)
    have "read_server ops env pr False m w = Some (False, ?w4)"
      using True rf(1,2) l(1) nu by (simp add: read_server_def is_ready_def Let_def mmc_consts)
    moreover have k: "sending ph w3 = sending ph w" "reading ph w3 = reading ph w" "p_first w3 = p_first w" for ph
      using l(2) by (simp_all add: same_round_def w2)
    have "fq_list (queue_of True ph ?w4) = [m]" using q k by (simp add: queue_of_def)
    ultimately have loop: "server_loop (read_server ops env pr False) True ph 0 w = Some (False, ?w4)"
      by (rule server_loop_one [OF q(3)])
    have c: "p_calls w \<le> p_calls w3" using l(2) by (simp add: same_round_def w2)
    from l(3) show ?thesis
    proof (elim disjE conjE)
      assume d: "res = MMC_REQUEST_DONE" "answered m r (snd (snd (snd y))) w3"
      then have "round_over m r y (w3\<lparr>p_in_select := False\<rparr>)"
        using q k by (simp add: round_over_def answered_def)
      then show ?thesis using d(1) c loop by (simp add: mmc_consts)
    next
      assume d: "res = MMC_REQUEST_MORE" "p_calls ?w2 < N" "needs_more env s fd m r h pr full y ok w3"
      let ?w5 = "(map_reading (p_first w3) (\<lambda>q. fq_push q m) w3)\<lparr>p_in_select := False\<rparr>"
      have "needs_more env s fd m r h pr full y ok ?w5"
        using d(3) by (simp add: needs_more_def waiting_def parser_state_def to_come_def map_reading_def)
      moreover have "idle_rounds m ?w5" using q k by (simp add: idle_rounds_def)
      moreover have "p_calls w < N" using d(2) by (simp add: w2)
      ultimately show ?thesis using d(1) c loop by simp
    qed
  qed
qed

lemma after_select_round: "idle_rounds m w \<Longrightarrow> in_round (p_first w) m (after_select F w)"
  by (simp add: in_round_def idle_rounds_def after_select_simps)

lemma round_waiting:
  assumes inc: "incremental_parser (pool_step pr h) pool_recv ok" and dl: "delivers env s full N"
    and ks: "keeps_server (pool_step pr h)" and eof: "\<forall>n. \<not> e_eof env n"
    and w: "needs_more env s fd m r h pr full y ok w" "idle_rounds m w"
    and sel: "select_works env fd N"
  shows "\<exists>w'. mmc_pool_select ops env pr w = Some w' \<and> p_calls w < p_calls w' \<and>
    (round_over m r y w' \<or>
     p_calls w < N \<and> needs_more env s fd m r h pr full y ok w' \<and> idle_rounds m w')"
proof -
  let ?F = "{fd} \<inter> snd (snd (e_select env (p_calls w)))"
  let ?w1 = "after_select ?F w" and ?ph = "p_first w"
  have wt: "waiting env s fd m r h w" using w(1) by (simp add: needs_more_def)
  have ps: "parser_state m r ?w1 = parser_state m r w" "to_come full m ?w1 = to_come full m w"
    by (simp_all add: parser_state_def to_come_def after_select_simps)
  have "length (e_arrived env (p_calls w) s) \<le> length (e_arrived env (p_calls w + 1) s)"
    using dl unfolding delivers_def by (metis le_add1 prefix_length_le)
  then have w1: "needs_more env s fd m r h pr full y ok ?w1"
    using w(1) ps by (auto simp: needs_more_def waiting_def after_select_simps)
  have snd: "server_loop (send_server ops env pr False ?ph) False ?ph 0 ?w1 = Some (False, ?w1)"
    using w(2) by (intro server_loop_end) (simp add: queue_of_def after_select_simps idle_rounds_def)
  from read_half [OF inc dl ks eof w1 after_select_round [OF w(2)], of ops] obtain w' where
    r: "server_loop (read_server ops env pr False) True ?ph 0 ?w1 = Some (False, w')" "p_calls ?w1 \<le> p_calls w'"
      "round_over m r y (w'\<lparr>p_in_select := False\<rparr>) \<or>
       (p_calls ?w1 < N \<or> fd \<notin> p_rfds ?w1) \<and> needs_more env s fd m r h pr full y ok (w'\<lparr>p_in_select := False\<rparr>) \<and>
       idle_rounds m (w'\<lparr>p_in_select := False\<rparr>)" by blast
  have "mmc_pool_select ops env pr w = Some (w'\<lparr>p_in_select := False\<rparr>)"
    using round_start [OF wt w(2) sel, of ops pr] snd r(1) by (simp add: complete_round_def)
  moreover have "p_calls w < p_calls w'" using r(2) by (simp add: after_select_simps)
  moreover have "p_calls w < N" if "p_calls ?w1 < N \<or> fd \<notin> p_rfds ?w1"
    using that sel unfolding select_works_def by (auto simp: after_select_simps not_le [symmetric])
  ultimately show ?thesis using r(3) by auto
qed

lemma pending_empty: "fq_list (p_pending w) = [] \<Longrightarrow> mmc_pool_schedule_pending ops pr w = Some w"
  by (subst mmc_pool_schedule_pending.simps) simp

lemma run_waiting:
  assumes inc: "incremental_parser (pool_step pr h) pool_recv ok" and dl: "delivers env s full N"
    and ks: "keeps_server (pool_step pr h)" and eof: "\<forall>n. \<not> e_eof env n"
    and sel: "select_works env fd N"
  shows "needs_more env s fd m r h pr full y ok w \<Longrightarrow> idle_rounds m w \<Longrightarrow>
    \<exists>w'. run_loop (pool_ops env pr (Suc n)) pr w = Some w' \<and> answered m r (snd (snd (snd y))) w'"
proof (induction "N - p_calls w" arbitrary: w rule: less_induct)
  case less
  obtain w1 where r: "mmc_pool_select (pool_ops env pr n) env pr w = Some w1" "p_calls w < p_calls w1"
    and c: "round_over m r y w1 \<or>
     p_calls w < N \<and> needs_more env s fd m r h pr full y ok w1 \<and> idle_rounds m w1"
    using round_waiting [OF inc dl ks eof less.prems sel, of "pool_ops env pr n"] by blast
  have "fq_list (p_pending w1) = []" using c by (auto simp: round_over_def answered_def needs_more_def waiting_def)
  then have step: "run_loop (pool_ops env pr (Suc n)) pr w = run_loop (pool_ops env pr (Suc n)) pr w1"
    using r(1) less.prems(2) by (subst run_loop.simps) (simp add: idle_rounds_def pending_empty)
  from c show ?case
  proof (elim disjE conjE)
    assume "round_over m r y w1"
    then show ?thesis unfolding step by (subst run_loop.simps) (simp add: round_over_def)
  next
    assume d: "p_calls w < N" "needs_more env s fd m r h pr full y ok w1" "idle_rounds m w1"
    have "N - p_calls w1 < N - p_calls w" using d(1) r(2) by linarith
    from less.hyps [OF this d(2,3)] show ?thesis unfolding step .
  qed
qed

lemma pool_run_waiting:
  assumes "incremental_parser (pool_step pr h) pool_recv ok" and "delivers env s full N"
    and "keeps_server (pool_step pr h)" and "\<forall>n. \<not> e_eof env n" and "select_works env fd N"
    and "needs_more env s fd m r h pr full y ok w" and "idle_rounds m w"
  shows "\<exists>w'. mmc_pool_run (pool_ops env pr (Suc n)) pr w = Some w' \<and> answered m r (snd (snd (snd y))) w'"
proof -
  have "fq_list (p_pending w) = []" using assms(6) by (simp add: needs_more_def waiting_def)
  then show ?thesis using run_waiting [OF assms] by (simp add: mmc_pool_run_def pending_empty)
qed

subsection \<open>Sending a request\<close>

text \<open>
  A pool with one request, scheduled and not sent: it is in both slots of its server, and the
  server in both queues.
\<close>

definition asking where
  "asking env s fd m r h pr w \<longleftrightarrow>
     waiting env s fd m r h (set_sendreq m None w) \<and> m_sendreq (p_mmc w m) = Some r \<and> fq_list (m_sendqueue (p_mmc w m)) = [] \<and>
     r_send_idx (p_req w r) = 0 \<and> int (length (pr_sendbuf pr (r_proto (p_req w r)))) \<le> st_chunk_size (m_tcp (p_mmc w m)) \<and>
     \<not> p_in_select w \<and> fq_list (sending (p_first w) w) = [m] \<and> fq_list (reading (p_first w) w) = [m]"

text \<open>The connection can always be written to, and a write takes up to \<open>len\<close> bytes.\<close>

definition sends_all :: "'u mmc_env \<Rightarrow> int \<Rightarrow> nat \<Rightarrow> bool" where
  "sends_all env fd len \<longleftrightarrow>
     (\<forall>n. 0 < fst (e_select env n) \<and> fd \<in> fst (snd (e_select env n)) \<and> (case e_send env n of Sent k \<Rightarrow> k \<ge> len | _ \<Rightarrow> False))"

lemma sends_allD:
  assumes "sends_all env fd len"
  shows "0 < fst (e_select env n)" and "fd \<in> fst (snd (e_select env n))" and "\<exists>k \<ge> len. e_send env n = Sent k"
proof -
  note a = assms [unfolded sends_all_def, rule_format, of n]
  show "0 < fst (e_select env n)" "fd \<in> fst (snd (e_select env n))" using a by blast+
  show "\<exists>k \<ge> len. e_send env n = Sent k" using a by (cases "e_send env n") auto
qed

text \<open>The pool after the request was written: the connection has only to be read.\<close>

definition sent_pool where
  "sent_pool pr m r w =
     upd_mmc m (\<lambda>mmc. mmc\<lparr>m_sendqueue := fq_rest (m_sendqueue mmc), m_sendreq := None\<rparr>)
       (upd_req r (\<lambda>req. req\<lparr>r_send_idx := length (pr_sendbuf pr (r_proto req))\<rparr>) (tick w))"

lemma sent_pool_simps:
  "r_proto (p_req (sent_pool pr m r w) r) = r_proto (p_req w r)" "m_tcp (p_mmc (sent_pool pr m r w) m) = m_tcp (p_mmc w m)"
  "p_user (sent_pool pr m r w) = p_user w" "p_calls (sent_pool pr m r w) = p_calls w + 1"
  "sending ph (sent_pool pr m r w) = sending ph w" "reading ph (sent_pool pr m r w) = reading ph w"
  "p_first (sent_pool pr m r w) = p_first w" "p_in_select (sent_pool pr m r w) = p_in_select w"
  "p_rfds (sent_pool pr m r w) = p_rfds w" "p_pending (sent_pool pr m r w) = p_pending w"
  by (simp_all add: sent_pool_def upd_mmc_def upd_req_def tick_def sending_def reading_def)

lemma send_server_once:
  assumes "m_sendreq (p_mmc w m) = Some r" and "r_io (p_req w r) = Some (m, False)" and "st_stream (m_tcp (p_mmc w m)) = Some s"
    and "fq_list (m_sendqueue (p_mmc w m)) = []" and "r_send_idx (p_req w r) = 0" and "p_in_select w"
    and "int (length (pr_sendbuf pr (r_proto (p_req w r)))) \<le> st_chunk_size (m_tcp (p_mmc w m))"
    and "st_fd (m_tcp (p_mmc w m)) \<in> p_wfds w" and "e_send env (p_calls w) = Sent k" and "length (pr_sendbuf pr (r_proto (p_req w r))) \<le> k"
  shows "send_server ops env pr False ph m w =
    Some (False, (sent_pool pr m r w)\<lparr>p_wfds := p_wfds w - {st_fd (m_tcp (p_mmc w m))}\<rparr>)"
proof -
  let ?fd = "st_fd (m_tcp (p_mmc w m))"
  let ?w = "clear_ready False False ?fd w" and ?len = "length (pr_sendbuf pr (r_proto (p_req w r)))"
  have c: "?w = w\<lparr>p_wfds := p_wfds w - {?fd}\<rparr>" by (simp add: clear_ready_def)
  let ?W = "upd_req r (\<lambda>req. req\<lparr>r_send_idx := ?len\<rparr>) (upd_mmc m (\<lambda>_. p_mmc w m) (tick ?w))"
  have "send_request env pr m r ?w = Some (MMC_REQUEST_DONE, ?W)"
    using assms by (simp add: send_request_def c stream_of_def clip_send_def send_count_def mmc_request_send_def)
  moreover have "slot_next ops env pr m ?W = Some ((sent_pool pr m r w)\<lparr>p_wfds := p_wfds w - {?fd}\<rparr>)"
    using assms(4) by (simp add: slot_next_def mmc_pool_slot_send_def set_sendreq_def sent_pool_def upd_mmc_def upd_req_def tick_def c fun_eq_iff)
  ultimately have "send_loop ops env pr ph m ?w =
      Some (False, MMC_REQUEST_DONE, (sent_pool pr m r w)\<lparr>p_wfds := p_wfds w - {?fd}\<rparr>)"
    using assms(1,6)
    by (subst send_loop.simps) (simp add: send_turn_def c mmc_consts, simp add: sent_pool_def upd_mmc_def upd_req_def tick_def)
  then show ?thesis using assms(1,2,8)
    by (simp add: send_server_def req_fd_def stream_of_def is_ready_def mmc_consts)
qed

lemma run_asking:
  assumes inc: "incremental_parser (pool_step pr h) pool_recv ok" and dl: "delivers env s full N"
    and ks: "keeps_server (pool_step pr h)" and eof: "\<forall>n. \<not> e_eof env n" and sel: "select_works env fd N"
    and snds: "sends_all env fd (length (pr_sendbuf pr (r_proto (p_req w r))))" and w: "asking env s fd m r h pr w"
    and ok: "\<forall>mmc. ok (r_proto (p_req w r), st_io (m_tcp (p_mmc w m)), mmc, p_user w)"
    and parse: "\<forall>mmc. \<exists>y. parse_loop (pool_step pr h)
        (r_proto (p_req w r), receive (st_io (m_tcp (p_mmc w m))) (to_come full m w), mmc, p_user w) = Some (Some (MMC_REQUEST_DONE, y)) \<and>
        snd (snd (snd y)) = user"
  shows "\<exists>w'. mmc_pool_run (pool_ops env pr (Suc n)) pr w = Some w' \<and> answered m r user w'"
proof -
  let ?ph = "p_first w" and ?F = "{fd} \<inter> snd (snd (e_select env (p_calls w)))" and ?ops = "pool_ops env pr n"
  define w1 where "w1 = (tick (mmc_pool_switch w))\<lparr>p_wfds := {fd}, p_rfds := ?F, p_in_select := True\<rparr>"
  define w2 where "w2 = (sent_pool pr m r w1)\<lparr>p_wfds := {}\<rparr>"
  have wt: "waiting env s fd m r h (set_sendreq m None w)" "m_sendreq (p_mmc w m) = Some r" "fq_list (m_sendqueue (p_mmc w m)) = []"
    "r_send_idx (p_req w r) = 0" "int (length (pr_sendbuf pr (r_proto (p_req w r)))) \<le> st_chunk_size (m_tcp (p_mmc w m))"
    "\<not> p_in_select w" "fq_list (sending ?ph w) = [m]" "fq_list (reading ?ph w) = [m]"
    using w by (simp_all add: asking_def)
  have io: "m_readreq (p_mmc w m) = Some r" "r_io (p_req w r) = Some (m, False)" "st_stream (m_tcp (p_mmc w m)) = Some s"
    "st_fd (m_tcp (p_mmc w m)) = fd" "0 \<le> fd" "fd < FD_SETSIZE" "p_select_api w \<noteq> MMC_API_POLL" "fq_list (p_pending w) = []"
    using wt(1) by (simp_all add: waiting_def set_sendreq_def upd_mmc_def)
  have w1: "p_mmc w1 = p_mmc w" "p_req w1 = p_req w" "p_calls w1 = p_calls w + 1" "p_wfds w1 = {fd}" "p_in_select w1"
    "p_user w1 = p_user w" "p_first w1 = (\<not> ?ph)" "p_pending w1 = p_pending w" "p_select_api w1 = p_select_api w"
    "sending ?ph w1 = sending ?ph w" "reading ?ph w1 = reading ?ph w" "fq_list (sending (\<not> ?ph) w1) = []" "fq_list (reading (\<not> ?ph) w1) = []"
    by (simp_all add: w1_def mmc_pool_switch_def tick_def map_sending_def map_reading_def sending_def reading_def Let_def)
  have start: "mmc_pool_select ?ops env pr w = complete_round ?ops env pr False ?ph w1"
  proof -
    let ?sw = "mmc_pool_switch w"
    have s: "p_mmc ?sw = p_mmc w" "p_req ?sw = p_req w" "sending ?ph ?sw = sending ?ph w"
      "reading ?ph ?sw = reading ?ph w" "p_calls ?sw = p_calls w"
      by (simp_all add: mmc_pool_switch_def map_sending_def map_reading_def sending_def reading_def Let_def)
    have "collect_fds rd [m] ?sw = Some {fd}" for rd
      using io wt(2) by (simp add: req_fd_def req_of_def stream_of_def s)
    moreover obtain res wr rr where e: "e_select env (p_calls w) = (res, wr, rr)" by (cases "e_select env (p_calls w)")
    moreover have "0 < res" "fd \<in> wr" using sends_allD(1,2) [OF snds, of "p_calls w"] e by auto
    ultimately show ?thesis
      using io wt by (simp add: mmc_pool_select_def mmc_pool_select_impl_def s timeouts_def w1_def Let_def)
  qed
  obtain k where k: "k \<ge> length (pr_sendbuf pr (r_proto (p_req w r)))" "e_send env (p_calls w1) = Sent k"
    using sends_allD(3) [OF snds] by blast
  have "send_server ?ops env pr False ?ph m w1 = Some (False, w2)"
    using send_server_once [of w1 m r s pr env k ?ops ?ph] wt io k by (simp add: w1 w2_def)
  moreover have q2: "sending ph w2 = sending ph w1" "reading ph w2 = reading ph w1" for ph
    by (simp_all add: w2_def sent_pool_def upd_mmc_def upd_req_def tick_def sending_def reading_def)
  ultimately have sent: "server_loop (send_server ?ops env pr False ?ph) False ?ph 0 w1 = Some (False, w2)"
    using wt(7) by (intro server_loop_one) (simp_all add: queue_of_def w1)
  have round: "in_round ?ph m w2" using wt(8) by (simp add: in_round_def q2 w1) (simp add: w2_def sent_pool_simps w1)
  have state: "parser_state m r w2 = (r_proto (p_req w r), st_io (m_tcp (p_mmc w m)), without_io False (p_mmc w2 m), p_user w)"
    "to_come full m w2 = to_come full m w"
    by (simp_all add: parser_state_def to_come_def w2_def sent_pool_simps w1)
  have "length (e_arrived env (p_calls w) s) \<le> length (e_arrived env (p_calls w + 2) s)"
    using dl unfolding delivers_def by (metis le_add1 prefix_length_le)
  then have "waiting env s fd m r h w2"
    using wt(1,3) by (simp add: waiting_def w2_def sent_pool_def set_sendreq_def upd_mmc_def upd_req_def tick_def w1 handlers_of_def)
  moreover obtain y where y: "parse_loop (pool_step pr h) (pool_recv (to_come full m w2) (parser_state m r w2)) = Some (Some (MMC_REQUEST_DONE, y))"
    "snd (snd (snd y)) = user" using parse [rule_format, of "without_io False (p_mmc w2 m)"] unfolding state pool_recv_simp by blast
  ultimately have more: "needs_more env s fd m r h pr full y ok w2" using ok by (simp add: needs_more_def state)
  from read_half [OF inc dl ks eof more round, of ?ops] obtain w3 where
    r: "server_loop (read_server ?ops env pr False) True ?ph 0 w2 = Some (False, w3)"
      "round_over m r y (w3\<lparr>p_in_select := False\<rparr>) \<or>
       needs_more env s fd m r h pr full y ok (w3\<lparr>p_in_select := False\<rparr>) \<and> idle_rounds m (w3\<lparr>p_in_select := False\<rparr>)" by blast
  let ?w4 = "w3\<lparr>p_in_select := False\<rparr>"
  have "mmc_pool_select ?ops env pr w = Some ?w4" using start sent r(1) by (simp add: complete_round_def)
  moreover have "fq_list (p_pending ?w4) = []" using r(2) by (auto simp: round_over_def answered_def needs_more_def waiting_def)
  ultimately have "mmc_pool_run (pool_ops env pr (Suc n)) pr w = run_loop (pool_ops env pr (Suc n)) pr ?w4"
    using wt(8) io(8) by (simp add: mmc_pool_run_def pending_empty) (subst run_loop.simps, simp add: pending_empty)
  moreover have "\<exists>w'. run_loop (pool_ops env pr (Suc n)) pr ?w4 = Some w' \<and> answered m r user w'"
  proof (cases "round_over m r y ?w4")
    case True
    then show ?thesis using y(2) by (subst run_loop.simps) (simp add: round_over_def)
  next
    case False
    then show ?thesis using run_waiting [OF inc dl ks eof sel] r(2) y(2) by blast
  qed
  ultimately show ?thesis by simp
qed

subsection \<open>Both protocols\<close>

lemma pool_step_ascii: "pool_step (mmc_ascii_protocol rt) h = ascii_step rt h"
  by (simp add: pool_step_def ascii_step_def mmc_ascii_protocol_def)

lemma pool_step_binary: "pool_step (mmc_binary_protocol rt zstr) h = bin_step rt zstr h"
  by (simp add: pool_step_def bin_step_def mmc_binary_protocol_def)

lemma pool_recv_ascii: "pool_recv = ascii_recv" and pool_recv_binary: "pool_recv = bin_recv"
  by (simp_all add: fun_eq_iff pool_recv_def ascii_recv_def bin_recv_def)

text \<open>Callbacks that leave the server alone unless they fail, as those of a get do.\<close>

definition quiet_handlers where
  "quiet_handlers h \<longleftrightarrow>
     (\<forall>a b c mmc u. fst (response_handler h a b c (mmc, u)) \<in> {MMC_REQUEST_FAILURE, MMC_REQUEST_RETRY} \<or>
        fst (snd (response_handler h a b c (mmc, u))) = mmc) \<and>
     (\<forall>k v f c mmc u. fst (snd (value_handler h k v f c (mmc, u))) = mmc) \<and>
     (\<forall>a mmc u. fst (server_failure h a (mmc, u)) \<in> {MMC_REQUEST_FAILURE, MMC_REQUEST_RETRY})"

lemma quiet_handlersD:
  assumes "quiet_handlers h"
  shows "response_handler h a b c (mmc, u) = (x, mmc', u') \<Longrightarrow> x \<in> {MMC_REQUEST_FAILURE, MMC_REQUEST_RETRY} \<or> mmc' = mmc"
    and "value_handler h k v f d (mmc, u) = (x, mmc', u') \<Longrightarrow> mmc' = mmc"
    and "server_failure h e (mmc, u) = (x, mmc', u') \<Longrightarrow> x \<in> {MMC_REQUEST_FAILURE, MMC_REQUEST_RETRY}"
  using assms unfolding quiet_handlers_def by (metis fst_conv snd_conv)+

lemma deliver_quiet:
  "quiet_handlers h \<Longrightarrow> deliver_value rt h k f c p (mmc, u) = Some (x, mmc', u') \<Longrightarrow> mmc' = mmc"
  by (auto simp: deliver_value_def split: unpack_outcome.splits dest: quiet_handlersD(2))

text \<open>The same for one outcome, so that it can be followed through a parser.\<close>

definition keeps where
  "keeps mmc y \<longleftrightarrow>
     (\<forall>x p' io' mmc' u'. y = Some (x, p', io', mmc', u') \<and> x \<in> {MMC_REQUEST_AGAIN, MMC_REQUEST_MORE, MMC_REQUEST_DONE} \<longrightarrow> mmc' = mmc)"

lemma keeps_simple: "keeps mmc None" "keeps mmc (Some (x, p, io, mmc, u))"
  by (simp_all add: keeps_def)

lemma keeps_bind: "(\<And>a. y = Some a \<Longrightarrow> keeps mmc (f a)) \<Longrightarrow> keeps mmc (Option.bind y f)"
  by (cases y) (simp_all add: keeps_def)

lemma keeps_handlers:
  assumes "quiet_handlers h"
  shows "keeps mmc (case response_handler h a b c (mmc, u) of (r, s) \<Rightarrow> Some (r, p, io, s))"
    and "keeps mmc (case value_handler h k v f d (mmc, u) of (r, s) \<Rightarrow> Some (r, p, io, s))"
    and "keeps mmc (case server_failure h e (mmc, u) of (r, s) \<Rightarrow> Some (r, p, io, s))"
    and "keeps mmc (Option.bind (deliver_value rt h k f d q (mmc, u)) (\<lambda>(r, s). Some (g r, p, io, s)))"
proof -
  show "keeps mmc (case response_handler h a b c (mmc, u) of (r, s) \<Rightarrow> Some (r, p, io, s))"
  proof (cases "response_handler h a b c (mmc, u)")
    case (fields x mmc' u')
    then show ?thesis using quiet_handlersD(1) [OF assms fields] by (auto simp: keeps_def mmc_consts)
  qed
  show "keeps mmc (case value_handler h k v f d (mmc, u) of (r, s) \<Rightarrow> Some (r, p, io, s))"
    using quiet_handlersD(2) [OF assms, of k v f d mmc u] by (auto simp: keeps_def split: prod.splits)
  show "keeps mmc (case server_failure h e (mmc, u) of (r, s) \<Rightarrow> Some (r, p, io, s))"
  proof (cases "server_failure h e (mmc, u)")
    case (fields x mmc' u')
    then show ?thesis using quiet_handlersD(3) [OF assms fields] by (auto simp: keeps_def mmc_consts)
  qed
  show "keeps mmc (Option.bind (deliver_value rt h k f d q (mmc, u)) (\<lambda>(r, s). Some (g r, p, io, s)))"
    using deliver_quiet [OF assms, of rt k f d q mmc u] by (auto simp: keeps_def bind_eq_Some_conv)
qed

lemma keeps_line: "(\<And>io. keeps mmc (f io)) \<Longrightarrow> (\<And>l io. keeps mmc (g l io)) \<Longrightarrow>
   keeps mmc (case x of (None, io) \<Rightarrow> f io | (Some l, io) \<Rightarrow> g l io)"
  by (cases x) (simp split: option.split)

lemma keeps_pair: "(\<And>a b. y = (a, b) \<Longrightarrow> keeps mmc (f a b)) \<Longrightarrow> keeps mmc (case y of (a, b) \<Rightarrow> f a b)"
  by (cases y) simp

lemma keeps_if: "(c \<Longrightarrow> keeps mmc a) \<Longrightarrow> (\<not> c \<Longrightarrow> keeps mmc b) \<Longrightarrow> keeps mmc (if c then a else b)"
  by simp

lemma ascii_keeps_server:
  assumes q: "quiet_handlers h"
  shows "keeps_server (ascii_step rt h)"
proof -
  note H = keeps_handlers [OF q]
  have "keeps mmc (mmc_request_parse_response h req io (mmc, u))" for req io mmc u
    unfolding mmc_request_parse_response_def Let_def by (intro keeps_line keeps_simple, rule keeps_pair, rule H)
  moreover have "keeps mmc (mmc_request_parse_mutate h req io (mmc, u))" for req io mmc u
    unfolding mmc_request_parse_mutate_def Let_def
    by (intro keeps_line keeps_simple, rule keeps_pair) (simp add: H split: option.split)
  moreover have "keeps mmc (mmc_request_parse_value h req io (mmc, u))" for req io mmc u
    unfolding mmc_request_parse_value_def Let_def
    by (intro keeps_line keeps_simple keeps_if) (simp add: H keeps_simple split: option.split)
  moreover have "keeps mmc (mmc_server_read_value rt h req io (mmc, u))" for req io mmc u
    unfolding mmc_server_read_value_def Let_def by (rule keeps_pair, intro keeps_if keeps_simple H)
  ultimately have "keeps mmc (ascii_parse rt h req io (mmc, u))" for req io mmc u
    by (simp add: ascii_parse_def split: ascii_parser.split)
  then show ?thesis by (simp add: keeps_server_def keeps_def ascii_step_def)
qed

lemma parse_value_bin_keeps: "keeps mmc (mmc_request_parse_value_bin req io (mmc, u))"
  unfolding mmc_request_parse_value_bin_def by (intro keeps_line keeps_simple)

lemma binary_keeps_server:
  assumes q: "quiet_handlers h"
  shows "keeps_server (bin_step rt zstr h)"
proof -
  note H = keeps_handlers [OF q]
  have "keeps mmc (mmc_request_parse_response_bin h req io (mmc, u))" for req io mmc u
    unfolding mmc_request_parse_response_bin_def Let_def by (intro keeps_line keeps_simple keeps_if H)
  moreover have "keeps mmc (mmc_request_read_response_bin h req io (mmc, u))" for req io mmc u
    unfolding mmc_request_read_response_bin_def Let_def
    by (rule keeps_bind, rule keeps_pair, intro keeps_if keeps_simple H)
  moreover have "keeps mmc (mmc_request_read_mutate_bin zstr h req io (mmc, u))" for req io mmc u
    unfolding mmc_request_read_mutate_bin_def Let_def by (intro keeps_line keeps_simple keeps_bind H)
  moreover have "keeps mmc (mmc_request_read_value_bin rt zstr h req io (mmc, u))" for req io mmc u
    unfolding mmc_request_read_value_bin_def Let_def
    by (rule keeps_bind, rule keeps_pair, intro keeps_if keeps_simple, rule keeps_bind, rule H)
  ultimately have "keeps mmc (bin_parse rt zstr h req io (mmc, u))" for req io mmc u
    by (simp add: bin_parse_def keeps_simple parse_value_bin_keeps split: bin_parser.split)
  then show ?thesis by (simp add: keeps_server_def keeps_def bin_step_def)
qed

subsection \<open>Properties\<close>

text \<open>The callbacks of a get over the userspace state only.\<close>

definition user_handlers :: "('d, 'o, 'u) value_fun \<Rightarrow> ('d, 'o, 'u) mmc_handlers" where
  "user_handlers f =
     \<lparr>response_handler = (\<lambda>a b c u. (MMC_REQUEST_DONE, u)), value_handler = f, server_failure = (\<lambda>a u. (MMC_REQUEST_FAILURE, u))\<rparr>"

text \<open>A request for values whose callback takes every value.\<close>

definition get_request :: "('d, 'o, 'u, 'p) mmc_request_t \<Rightarrow> bool" where
  "get_request req \<longleftrightarrow> r_response req = mmc_pool_response_handler_null \<and> (\<forall>k v f c u. fst (r_value req k v f c u) = MMC_REQUEST_DONE)"

lemma get_request_handlers:
  assumes "get_request req"
  shows "quiet_handlers (handlers_of udp req)" and "value_handler_done (handlers_of udp req)" and "handlers_no_more (handlers_of udp req)"
  using assms
  by (auto simp: get_request_def quiet_handlers_def value_handler_done_def handlers_no_more_def handlers_of_def
      mmc_pool_response_handler_null_def mmc_server_failure_def case_prod_unfold Let_def mmc_consts)

lemma deliver_value_user:
  "deliver_value rt (handlers_of udp req) k f c p (mmc, u) =
     map_option (\<lambda>(x, u). (x, mmc, u)) (deliver_value rt (user_handlers (r_value req)) k f c p u)"
  by (simp add: deliver_value_def handlers_of_def user_handlers_def case_prod_unfold Let_def split: unpack_outcome.split)

lemma deliver_all_user:
  "deliver_all rt (handlers_of udp req) c its (mmc, u) = (mmc, deliver_all rt (user_handlers (r_value req)) c its u)"
  by (induction its arbitrary: c u) (auto simp: deliver_value_user split: option.splits)

lemma bin_deliver_all_user:
  "bin_deliver_all rt (handlers_of udp req) zstr zkeys its (mmc, u) =
     (mmc, bin_deliver_all rt (user_handlers (r_value req)) zstr zkeys its u)"
  by (induction its arbitrary: u) (auto simp: deliver_value_user split: option.splits)

text \<open>
  A get that was sent: the connection waits, nothing was read of its answer yet, and the
  network will deliver the bytes \<open>answer\<close>.
\<close>

definition get_sent ::
  "'u mmc_env \<Rightarrow> nat \<Rightarrow> int \<Rightarrow> nat \<Rightarrow> nat \<Rightarrow> nat \<Rightarrow> buf \<Rightarrow> ('d, 'o, 'u, 'p) mmc_pool_t \<Rightarrow> bool" where
  "get_sent env s fd m r N answer w \<longleftrightarrow>
     waiting env s fd m r (handlers_of False (p_req w r)) w \<and> idle_rounds m w \<and> get_request (p_req w r) \<and>
     io_ok (st_io (m_tcp (p_mmc w m))) \<and> unread (st_io (m_tcp (p_mmc w m))) = [] \<and> io_input (st_io (m_tcp (p_mmc w m))) = [] \<and>
     (\<exists>full. delivers env s full N \<and> drop (st_taken (m_tcp (p_mmc w m))) full = answer) \<and>
     select_works env fd N \<and> (\<forall>n. \<not> e_eof env n)"

text \<open>A pool that waits for an answer, which arrives in two pieces, and a callback that logs.\<close>

definition log_value :: "('d, 'o, (buf \<times> ('d, 'o) zval) list) value_fun" where
  "log_value k v f c u = (MMC_REQUEST_DONE, u @ [(k, v)])"

definition run_env :: "buf \<Rightarrow> 'u mmc_env" where
  "run_env answer =
     \<lparr>g_allow_failover = True, g_max_failover_attempts = 20, g_key_prefix = None, e_time = (\<lambda>n. 100),
      e_connect = (\<lambda>n m udp. Connected n 5), e_send = (\<lambda>n. Sent 1), e_select = (\<lambda>n. (1, {}, {5})), e_poll = (\<lambda>n. (0, \<lambda>i. 0)),
      e_select_error = (\<lambda>n. ([], 0)), e_datagram = (\<lambda>n. []), e_arrived = (\<lambda>n s. if n < 4 then take 12 answer else answer),
      e_eof = (\<lambda>n. False), e_failure_callback = None, e_has_value = (\<lambda>u k. False), e_qsort = sort_key cp_point\<rparr>"

definition run_pool ::
  "('d, 'o, (buf \<times> ('d, 'o) zval) list, 'p) mmc_protocol_t \<Rightarrow> 'p \<Rightarrow> ('d, 'o, (buf \<times> ('d, 'o) zval) list, 'p) mmc_pool_t" where
  "run_pool pr proto =
     (mmc_pool_new \<lparr>gs_hash_strategy = MMC_STANDARD_HASH, gs_hash_function = MMC_HASH_FNV1A, gs_crc_step = (\<lambda>c b. c),
         gs_select_api = MMC_API_SELECT\<rparr>
        (\<lambda>m. (mmc_server_new 8192 [] 11211 0 False 1000000 15)
           \<lparr>m_tcp := zero_stream\<lparr>st_stream := Some 1, st_fd := 5, st_status := MMC_STATUS_CONNECTED\<rparr>, m_readreq := Some 0\<rparr>)
        (\<lambda>r. (new_request pr)\<lparr>r_io := Some (0, False), r_value := log_value, r_proto := proto\<rparr>) [])
       \<lparr>p_reading1 := fq_push fq_zero 0\<rparr>"

lemma run_pool_sent: "get_sent (run_env answer) 1 5 0 0 4 answer (run_pool pr proto)"
proof -
  let ?w = "run_pool pr proto"
  have w: "p_mmc ?w = (\<lambda>m. (mmc_server_new 8192 [] 11211 0 False 1000000 15)
      \<lparr>m_tcp := zero_stream\<lparr>st_stream := Some 1, st_fd := 5, st_status := MMC_STATUS_CONNECTED\<rparr>, m_readreq := Some 0\<rparr>)"
    "p_req ?w = (\<lambda>r. (new_request pr)\<lparr>r_io := Some (0, False), r_value := log_value, r_proto := proto\<rparr>)"
    by (simp_all add: run_pool_def mmc_pool_new_def)
  have "delivers (run_env answer) 1 answer 4"
    by (auto simp: delivers_def run_env_def take_is_prefix)
  then show ?thesis
    by (auto simp: get_sent_def waiting_def w idle_rounds_def get_request_def new_request_def log_value_def select_works_def
        mmc_server_new_def zero_stream_def io_ok_def unread_def empty_io_def mmc_consts)
      (auto simp: run_pool_def mmc_pool_new_def run_env_def sending_def reading_def mmc_consts)
qed

lemma run_pool_simps: "p_req (run_pool pr proto) r = (new_request pr)\<lparr>r_io := Some (0, False), r_value := log_value, r_proto := proto\<rparr>"
  "p_mmc (run_pool pr proto) m = (mmc_server_new 8192 [] 11211 0 False 1000000 15)
      \<lparr>m_tcp := zero_stream\<lparr>st_stream := Some 1, st_fd := 5, st_status := MMC_STATUS_CONNECTED\<rparr>, m_readreq := Some 0\<rparr>"
  "p_user (run_pool pr proto) = []"
  by (simp_all add: run_pool_def mmc_pool_new_def)

text \<open>
  C11: A get that was sent with the ascii protocol runs to completion: in whatever pieces and
  whenever the answer arrives, and however often \<^verbatim>\<open>select\<close> reports the connection in vain,
  \<^verbatim>\<open>mmc_pool_run\<close> returns, every value of the answer has reached the value handler in
  order, and the request is back on the free list.
\<close>

theorem ascii_get_runs:
  assumes "get_sent env s fd m r N (value_stream its @ rest) w" and "\<forall>it \<in> set its. item_ok it"
    and "a_parse (r_proto (p_req w r)) = PARSE_VALUE" and "a_readbuf (r_proto (p_req w r)) = []" and "av_cas (r_proto (p_req w r)) = 0"
  shows "\<exists>w'. mmc_pool_run (pool_ops env (mmc_ascii_protocol rt) (Suc n)) (mmc_ascii_protocol rt) w = Some w' \<and>
    p_user w' = deliver_all rt (user_handlers (r_value (p_req w r))) 0 its (p_user w) \<and>
    m_readreq (p_mmc w' m) = None \<and> r \<in> set (fq_list (p_free_requests w'))"
proof -
  let ?h = "handlers_of False (p_req w r)" and ?io = "st_io (m_tcp (p_mmc w m))"
  let ?s = "(without_io False (p_mmc w m), p_user w)"
  have g: "waiting env s fd m r ?h w" "idle_rounds m w" "get_request (p_req w r)" "io_ok ?io" "unread ?io = []" "io_input ?io = []"
    "select_works env fd N" "\<forall>n. \<not> e_eof env n" using assms(1) by (simp_all add: get_sent_def)
  obtain full where full: "delivers env s full N" "to_come full m w = value_stream its @ rest"
    using assms(1) by (auto simp: get_sent_def to_come_def)
  note h = get_request_handlers [OF g(3), of False]
  have io: "line_io (receive ?io c)" "line_io ?io" for c using g(4,6) by (simp_all add: line_io_receive line_io_def)
  have "awaits_line (r_proto (p_req w r)) (receive ?io (to_come full m w)) 0 [] its rest"
    using io(1) [of "to_come full m w"] g(5,6) full(2) assms(3-5) g(4)
    by (simp add: awaits_line_def line_io_def unread_receive line_io_read [OF io(2)])
  from loop_from_line [OF h(2) assms(2) this, of rt ?s] obtain req' io' where
    l: "ascii_parse_loop rt ?h (r_proto (p_req w r)) (receive ?io (to_come full m w)) ?s =
      Some (Some (MMC_REQUEST_DONE, req', io', deliver_all rt ?h 0 its ?s))"
    using full(2) by (auto simp: loop_result_def waits_def awaits_line_def awaits_body_def value_stream_nl)
  let ?y = "(req', io', deliver_all rt ?h 0 its ?s)"
  have "needs_more env s fd m r ?h (mmc_ascii_protocol rt) full ?y ascii_ok w"
    using g(1) l io(2) assms(3,4)
    by (simp add: needs_more_def parser_state_def pool_step_ascii pool_recv_simp ascii_ok_def ascii_parse_loop_def)
  moreover have "incremental_parser (pool_step (mmc_ascii_protocol rt) ?h) pool_recv ascii_ok"
    unfolding pool_step_ascii pool_recv_ascii by (rule ascii_incremental [OF h(3)])
  moreover have "keeps_server (pool_step (mmc_ascii_protocol rt) ?h)"
    unfolding pool_step_ascii by (rule ascii_keeps_server [OF h(1)])
  ultimately obtain w' where "mmc_pool_run (pool_ops env (mmc_ascii_protocol rt) (Suc n)) (mmc_ascii_protocol rt) w = Some w'"
    "answered m r (snd (snd (snd ?y))) w'"
    using pool_run_waiting [OF _ full(1) _ g(8,7) _ g(2)] by blast
  then show ?thesis by (simp add: answered_def deliver_all_user)
qed

theorem ascii_get_runs_witness:
  "\<exists>w'. mmc_pool_run (pool_ops (run_env (bytes ''VALUE k 0 2'' @ [13, 10, 120, 10, 13, 10] @ bytes ''END'' @ [13, 10])) (mmc_ascii_protocol plain_runtime) 1)
      (mmc_ascii_protocol plain_runtime) (run_pool (mmc_ascii_protocol plain_runtime) (mmc_ascii_get (mmc_ascii_create_request []) MMC_OP_GET [107])) = Some w' \<and>
    p_user w' = [(bytes ''k'', IS_STRING [120, 10])]"
proof -
  let ?it = "\<lparr>vi_key = bytes ''k'', vi_flags = 0, vi_cas = None, vi_payload = [120, 10]\<rparr>"
  let ?pr = "mmc_ascii_protocol plain_runtime" and ?req = "mmc_ascii_get (mmc_ascii_create_request []) MMC_OP_GET [107]"
  have ok: "\<forall>it \<in> set [?it]. item_ok it"
    by (simp add: item_ok_def word_bytes_def bytes_def of_char_def is_space_def word_le_nat_alt MMC_MAX_KEY_LEN_def)
  have cs: "bytes ''VALUE k 0 2'' @ [13, 10, 120, 10, 13, 10] @ bytes ''END'' @ [13, 10] = value_stream [?it] @ []"
    by (simp add: value_line_def bytes_def of_char_def dec.simps)
  have d: "deliver_all plain_runtime (user_handlers log_value) 0 [?it] [] = [(bytes ''k'', IS_STRING [120, 10])]"
    by (simp add: deliver_value_def mmc_unpack_value_def user_handlers_def log_value_def Let_def flag_eval)
  have req: "a_parse ?req = PARSE_VALUE" "a_readbuf ?req = []" "av_cas ?req = 0"
    by (simp_all add: mmc_ascii_get_def mmc_ascii_end_get_def mmc_ascii_append_get_def mmc_ascii_begin_get_def append_send_def
        mmc_ascii_create_request_def)
  show ?thesis
    using ascii_get_runs [OF run_pool_sent [of "value_stream [?it] @ []" ?pr ?req] ok, of plain_runtime 0] req d
    unfolding cs by (auto simp: run_pool_simps simp del: value_stream.simps)
qed

text \<open>
  C12: The same for a get of the binary protocol: every hit of the answer reaches the value
  handler under the key remembered for its number.
\<close>

theorem binary_get_runs:
  assumes "get_sent env s fd m r N (bin_stream k its @ rest) w"
    and "bin_waiting (r_proto (p_req w r)) (st_io (m_tcp (p_mmc w m))) zkeys" and "\<forall>it \<in> set its. bin_item_ok zstr zkeys it"
  shows "\<exists>w'. mmc_pool_run (pool_ops env (mmc_binary_protocol rt zstr) (Suc n)) (mmc_binary_protocol rt zstr) w = Some w' \<and>
    p_user w' = bin_deliver_all rt (user_handlers (r_value (p_req w r))) zstr zkeys its (p_user w) \<and>
    m_readreq (p_mmc w' m) = None \<and> r \<in> set (fq_list (p_free_requests w'))"
proof -
  let ?h = "handlers_of False (p_req w r)" and ?io = "st_io (m_tcp (p_mmc w m))" and ?pr = "mmc_binary_protocol rt zstr"
  let ?s = "(without_io False (p_mmc w m), p_user w)"
  have g: "waiting env s fd m r ?h w" "idle_rounds m w" "get_request (p_req w r)" "unread ?io = []"
    "select_works env fd N" "\<forall>n. \<not> e_eof env n" using assms(1) by (simp_all add: get_sent_def)
  obtain full where full: "delivers env s full N" "to_come full m w = bin_stream k its @ rest"
    using assms(1) by (auto simp: get_sent_def to_come_def)
  note h = get_request_handlers [OF g(3), of False]
  have io: "read_io ?io" using assms(2) by (simp add: bin_waiting_def)
  have "bin_waiting (r_proto (p_req w r)) (receive ?io (to_come full m w)) zkeys"
    using assms(2) by (simp add: bin_waiting_def read_io_receive)
  from bin_loop_stream [OF assms(3) this, of k rest rt ?h ?s] obtain req' io' where
    l: "parse_loop (bin_step rt zstr ?h) (r_proto (p_req w r), receive ?io (to_come full m w), ?s) =
      Some (Some (MMC_REQUEST_DONE, req', io', bin_deliver_all rt ?h zstr zkeys its ?s))"
    using full(2) g(4) unread_receive [OF io] by auto
  let ?y = "(req', io', bin_deliver_all rt ?h zstr zkeys its ?s)"
  have "needs_more env s fd m r ?h ?pr full ?y bin_ok w"
    using g(1) l io assms(2)
    by (simp add: needs_more_def parser_state_def pool_step_binary pool_recv_simp bin_ok_def bin_waiting_def reads_body_def)
  moreover have "incremental_parser (pool_step ?pr ?h) pool_recv bin_ok"
    unfolding pool_step_binary pool_recv_binary by (rule bin_incremental [OF h(3)])
  moreover have "keeps_server (pool_step ?pr ?h)"
    unfolding pool_step_binary by (rule binary_keeps_server [OF h(1)])
  ultimately obtain w' where "mmc_pool_run (pool_ops env ?pr (Suc n)) ?pr w = Some w'" "answered m r (snd (snd (snd ?y))) w'"
    using pool_run_waiting [OF _ full(1) _ g(6,5) _ g(2)] by blast
  then show ?thesis by (simp add: answered_def bin_deliver_all_user)
qed

theorem binary_get_runs_witness:
  "\<exists>w'. mmc_pool_run (pool_ops (run_env (bin_stream 1 [\<lparr>bi_reqid = 0, bi_flags = 0, bi_cas = 4, bi_payload = [120, 10]\<rparr>] @ []))
        (mmc_binary_protocol plain_runtime (\<lambda>z. [97])) 1)
      (mmc_binary_protocol plain_runtime (\<lambda>z. [97]))
      (run_pool (mmc_binary_protocol plain_runtime (\<lambda>z. [97])) (bin_multi_get mmc_binary_create_request [(5, [97])])) = Some w' \<and>
    p_user w' = [([97], IS_STRING [120, 10])]"
proof -
  let ?it = "\<lparr>bi_reqid = 0, bi_flags = 0, bi_cas = 4, bi_payload = [120, 10]\<rparr>" and ?z = "\<lambda>z :: nat. [97] :: buf"
  let ?pr = "mmc_binary_protocol plain_runtime ?z" and ?req = "bin_multi_get mmc_binary_create_request [(5, [97])]"
  have ok: "\<forall>it \<in> set [?it]. bin_item_ok ?z [5] it" by (simp add: bin_item_ok_def MMC_MAX_KEY_LEN_def)
  have w: "bin_waiting ?req empty_io [5]"
    using multi_get_waiting [of "[(5, [97])]" empty_io] by (simp add: MMC_MAX_KEY_LEN_def read_io_def empty_io_def)
  have d: "bin_deliver_all plain_runtime (user_handlers log_value) ?z [5] [?it] [] = [([97], IS_STRING [120, 10])]"
    by (simp add: deliver_value_def mmc_unpack_value_def user_handlers_def log_value_def Let_def flag_eval)
  have "st_io (m_tcp (p_mmc (run_pool ?pr ?req) 0)) = empty_io" "r_proto (p_req (run_pool ?pr ?req) 0) = ?req"
    by (simp_all add: run_pool_simps zero_stream_def)
  then show ?thesis
    using binary_get_runs [OF run_pool_sent [of "bin_stream 1 [?it] @ []" ?pr ?req] _ ok, of plain_runtime 0] w d
    by (auto simp: run_pool_simps)
qed

end
