(* ===== verification/Mmc_Handlers.thy ===== *)
theory Mmc_Handlers
  imports Mmc_Protocols
begin

text \<open>
  What \<^verbatim>\<open>src/memcache.c\<close> makes of the answers: the response handlers of the storage, numeric,
  version, flush and stats commands, the parsers of the stats lines, and the two value
  handlers, over a model of the PHP variables they write to.

  A handler that reads memory it must not read sets \<open>c_fault\<close>; nothing is claimed about the
  rest of the state then.
\<close>

subsection \<open>PHP arrays\<close>

text \<open>
  An array is a list of its entries in the order of insertion. The Zend engine is not part of
  the repository. What the code uses of it are arguments: \<open>z_index\<close> is the integer a string key
  stands for (a symbol table stores the entry under that integer), \<open>z_numeric\<close> is
  \<^verbatim>\<open>is_numeric_string\<close>, with the value the variable \<^verbatim>\<open>index\<close> has afterwards, and \<open>z_next\<close> is the key
  of the next entry without a key.
\<close>

datatype array_key = AIndex int | AName buf

datatype ('d, 'o) php_value = Val "('d, 'o) zval" | Arr "(array_key \<times> ('d, 'o) php_value) list"

record zend_arrays =
  z_index :: "buf \<Rightarrow> int option"
  z_numeric :: "buf \<Rightarrow> int option"
  z_next :: "array_key list \<Rightarrow> int"

fun arr_update :: "array_key \<Rightarrow> 'v \<Rightarrow> (array_key \<times> 'v) list \<Rightarrow> (array_key \<times> 'v) list" where
  "arr_update k v [] = [(k, v)]"
| "arr_update k v (e # es) = (if fst e = k then (k, v) # es else e # arr_update k v es)"

text \<open>The entries of a variable, after \<^verbatim>\<open>array_init\<close> when it is not an array.\<close>

definition entries :: "('d, 'o) php_value \<Rightarrow> (array_key \<times> ('d, 'o) php_value) list" where
  "entries v = (case v of Arr es \<Rightarrow> es | Val _ \<Rightarrow> [])"

definition symtable_key :: "zend_arrays \<Rightarrow> buf \<Rightarrow> array_key" where
  "symtable_key z key = (case z_index z key of Some i \<Rightarrow> AIndex i | None \<Rightarrow> AName key)"

text \<open>\<^verbatim>\<open>add_assoc_zval_ex\<close> and its relatives, and \<^verbatim>\<open>add_next_index_stringl\<close>.\<close>

definition add_assoc :: "zend_arrays \<Rightarrow> buf \<Rightarrow> 'v \<Rightarrow> (array_key \<times> 'v) list \<Rightarrow> (array_key \<times> 'v) list" where
  "add_assoc z key v es = arr_update (symtable_key z key) v es"

definition add_next :: "zend_arrays \<Rightarrow> 'v \<Rightarrow> (array_key \<times> 'v) list \<Rightarrow> (array_key \<times> 'v) list" where
  "add_next z v es = arr_update (AIndex (z_next z (map fst es))) v es"

subsection \<open>The variables of a call\<close>

text \<open>
  \<open>Server_failed\<close> is the notice "Server %s (tcp %d, udp %d) failed with: %s (%d)".
\<close>

datatype php_message = Server_failed buf nat nat buf int | Warning string

record ('d, 'o) php_call =
  c_return :: "('d, 'o) php_value"
  c_flags :: "('d, 'o) php_value"
  c_cas :: "('d, 'o) php_value"
  c_responses :: u32
  c_messages :: "php_message list"
  c_fault :: bool

text \<open>A \<^verbatim>\<open>zval\<close> pointer that was handed to a handler.\<close>

record ('d, 'o) zval_ptr =
  deref :: "('d, 'o) php_call \<Rightarrow> ('d, 'o) php_value"
  assign :: "('d, 'o) php_value \<Rightarrow> ('d, 'o) php_call \<Rightarrow> ('d, 'o) php_call"

definition return_value :: "('d, 'o) zval_ptr" where
  "return_value = \<lparr>deref = c_return, assign = (\<lambda>v c. c\<lparr>c_return := v\<rparr>)\<rparr>"

definition server_notice :: "mmc_t \<Rightarrow> buf \<Rightarrow> int \<Rightarrow> ('d, 'o) php_call \<Rightarrow> ('d, 'o) php_call" where
  "server_notice mmc message response c =
     c\<lparr>c_messages := c_messages c @
        [Server_failed (m_host mmc) (st_port (m_tcp mmc)) (st_port (m_udp mmc)) (c_string message) response]\<rparr>"

definition fail_request ::
  "bool \<Rightarrow> buf \<Rightarrow> u32 \<Rightarrow> mmc_t \<times> ('d, 'o) php_call \<Rightarrow> int \<times> (mmc_t \<times> ('d, 'o) php_call)" where
  "fail_request udp message len s =
     (let (x, mmc) = mmc_request_failure udp (fst s) message len 0 in (x, mmc, snd s))"

subsection \<open>Storage and numeric commands\<close>

definition mmc_stored_handler :: "('d, 'o) zval_ptr \<Rightarrow> ('d, 'o) php_call response_fun" where
  "mmc_stored_handler result udp response message len s =
     (let (mmc, c) = s in
      if response = MMC_OK then
        (MMC_REQUEST_DONE, mmc, if deref result c = Val IS_NULL then assign result (Val IS_TRUE) c else c)
      else if response = MMC_RESPONSE_EXISTS \<or> response = MMC_RESPONSE_OUT_OF_MEMORY \<or> response = MMC_RESPONSE_TOO_LARGE \<or>
              response = MMC_RESPONSE_CLIENT_ERROR then
        (let c = assign result (Val IS_FALSE) c in
         (MMC_REQUEST_DONE, mmc, if response \<noteq> MMC_RESPONSE_EXISTS then server_notice mmc message response c else c))
      else fail_request udp message len s)"

text \<open>The key of an entry of the result is \<^verbatim>\<open>request->key_len + 1\<close> bytes: the NUL is part of it.\<close>

definition mmc_numeric_response_handler ::
  "zend_arrays \<Rightarrow> buf \<Rightarrow> ('d, 'o) zval_ptr \<Rightarrow> ('d, 'o) php_call response_fun" where
  "mmc_numeric_response_handler z key result udp response message len s =
     (let (mmc, c) = s in
      if response = MMC_OK then
        (MMC_REQUEST_DONE, mmc,
         case deref result c of
           Arr es \<Rightarrow> assign result (Arr (add_assoc z (key @ [0]) (Val IS_TRUE) es)) c
         | Val v \<Rightarrow> if v = IS_NULL then assign result (Val IS_TRUE) c else c)
      else if response = MMC_RESPONSE_NOT_FOUND \<or> response = MMC_RESPONSE_CLIENT_ERROR then
        (let c = (case deref result c of
                    Arr es \<Rightarrow> assign result (Arr (add_assoc z (key @ [0]) (Val IS_FALSE) es)) c
                  | Val _ \<Rightarrow> assign result (Val IS_FALSE) c)
         in (MMC_REQUEST_DONE, mmc, if response \<noteq> MMC_RESPONSE_NOT_FOUND then server_notice mmc message response c else c))
      else fail_request udp message len s)"

subsection \<open>Values\<close>

text \<open>\<open>want_flags\<close> and \<open>want_cas\<close>: whether the second and the third pointer are not NULL.\<close>

definition mmc_value_handler_multi ::
  "zend_arrays \<Rightarrow> bool \<Rightarrow> bool \<Rightarrow> ('d, 'o, ('d, 'o) php_call) value_fun" where
  "mmc_value_handler_multi z want_flags want_cas key value flags cas c =
     (let c = c\<lparr>c_return := Arr (add_assoc z key (Val value) (entries (c_return c)))\<rparr>;
          c = (if want_flags then c\<lparr>c_flags := Arr (add_assoc z key (Val (IS_LONG (ucast flags))) (entries (c_flags c)))\<rparr> else c);
          c = (if want_cas then c\<lparr>c_cas := Arr (add_assoc z key (Val (IS_LONG cas)) (entries (c_cas c)))\<rparr> else c)
      in (MMC_REQUEST_DONE, c))"

definition mmc_value_handler_single :: "bool \<Rightarrow> bool \<Rightarrow> ('d, 'o, ('d, 'o) php_call) value_fun" where
  "mmc_value_handler_single want_flags want_cas key value flags cas c =
     (let c = c\<lparr>c_return := Val value\<rparr>;
          c = (if want_flags then c\<lparr>c_flags := Val (IS_LONG (ucast flags))\<rparr> else c);
          c = (if want_cas then c\<lparr>c_cas := Val (IS_LONG cas)\<rparr> else c)
      in (MMC_REQUEST_DONE, c))"

text \<open>\<^verbatim>\<open>zend_hash_str_exists\<close>, which \<^verbatim>\<open>mmc_value_failover_handler\<close> asks: the key as a string.\<close>

definition has_value :: "('d, 'o) php_call \<Rightarrow> buf \<Rightarrow> bool" where
  "has_value c key = (case c_return c of Arr es \<Rightarrow> map_of es (AName key) \<noteq> None | Val _ \<Rightarrow> False)"

subsection \<open>Stats\<close>

text \<open>
  \<^verbatim>\<open>php_memnstr\<close> of one byte in the cells from \<open>p\<close> up to and without \<open>e\<close> of a line; with the end
  before the start its length is negative, and \<^verbatim>\<open>memchr\<close> reads on through the memory (\<open>None\<close>).
\<close>

definition php_memnstr :: "buf \<Rightarrow> nat \<Rightarrow> u8 \<Rightarrow> nat \<Rightarrow> nat option option" where
  "php_memnstr line p b e =
     (if e < p then None else Some (map_option (\<lambda>i. p + i) (memchr b (take (e - p) (drop p line)))))"

definition line_cells :: "buf \<Rightarrow> nat \<Rightarrow> nat \<Rightarrow> buf" where
  "line_cells line i j = take (j - i) (drop i line)"

text \<open>The array of a subkey: an entry that exists, or a new one.\<close>

definition stats_element ::
  "zend_arrays \<Rightarrow> buf \<Rightarrow> (array_key \<times> ('d, 'o) php_value) list \<Rightarrow> array_key \<times> ('d, 'o) php_value" where
  "stats_element z key es =
     (case (case z_numeric z key of None \<Rightarrow> None | Some i \<Rightarrow> map_option (Pair (AIndex i)) (map_of es (AIndex i))) of
        Some elem \<Rightarrow> elem
      | None \<Rightarrow>
          (case map_of es (AName key) of
             Some elem \<Rightarrow> (AName key, elem)
           | None \<Rightarrow> (symtable_key z key, Arr [])))"

text \<open>
  The parsers return whether the line was understood, and the variable. Start and end are
  offsets in the line; the end is the last byte of the line here.
\<close>

function mmc_stats_parse_stat ::
  "zend_arrays \<Rightarrow> buf \<Rightarrow> nat \<Rightarrow> nat \<Rightarrow> ('d, 'o) php_value \<Rightarrow> (bool \<times> ('d, 'o) php_value) option" where
  "mmc_stats_parse_stat z line start e result =
     do {
       space \<leftarrow> php_memnstr line start 32 e;
       case space of
         None \<Rightarrow> Some (False, Arr (entries result))
       | Some sp \<Rightarrow>
           do {
             colon \<leftarrow> (if sp \<le> start then None else php_memnstr line start 58 (sp - 1));
             case colon of
               Some co \<Rightarrow>
                 (let (k, elem) = stats_element z (line_cells line start co) (entries result) in
                  do {
                    (ok, v) \<leftarrow> mmc_stats_parse_stat z line (co + 1) e elem;
                    Some (ok, Arr (arr_update k v (entries result)))
                  })
             | None \<Rightarrow>
                 Some (True, Arr (add_assoc z (line_cells line start sp) (Val (IS_STRING (line_cells line (sp + 1) (e + 1)))) (entries result)))
           }
     }"
  by pat_completeness auto
termination
  by (relation "measure (\<lambda>(z, line, start, e, result). Suc e - start)")
    (auto simp: php_memnstr_def split: if_splits)

declare mmc_stats_parse_stat.simps [simp del]

text \<open>The loop that steps over a byte, and over the blanks after it up to the end.\<close>

function skip_blanks :: "buf \<Rightarrow> nat \<Rightarrow> nat \<Rightarrow> nat option" where
  "skip_blanks line value e =
     (if value \<ge> length line then None
      else if line ! value = 32 \<and> value \<le> e then skip_blanks line (value + 1) e
      else Some value)"
  by pat_completeness auto
termination by (relation "measure (\<lambda>(line, value, e). length line - value)") auto

declare skip_blanks.simps [simp del]

lemma skip_blanks_ge: "skip_blanks line i e = Some v \<Longrightarrow> i \<le> v"
proof (induction line i e rule: skip_blanks.induct)
  case (1 line i e)
  then show ?case by (subst (asm) (2) skip_blanks.simps) (auto split: if_splits)
qed

lemma memnstr_bounds: "php_memnstr line p b e = Some (Some i) \<Longrightarrow> p \<le> i"
  by (auto simp: php_memnstr_def split: if_splits)

text \<open>The loop over the values of an item, each between a bracket or a semicolon and a blank.\<close>

function item_values ::
  "zend_arrays \<Rightarrow> buf \<Rightarrow> nat \<Rightarrow> nat \<Rightarrow> (array_key \<times> ('d, 'o) php_value) list \<Rightarrow> (array_key \<times> ('d, 'o) php_value) list option" where
  "item_values z line value e es =
     (if value \<le> e then
        do {
          value \<leftarrow> skip_blanks line (value + 1) e;
          value_end \<leftarrow> (if value \<le> e then php_memnstr line value 32 e else Some None);
          let es = (case value_end of
                      Some ve \<Rightarrow> if ve \<le> e then add_next z (Val (IS_STRING (line_cells line value ve))) es else es
                    | None \<Rightarrow> es);
          rest \<leftarrow> php_memnstr line (value + 1) 59 e;
          case rest of None \<Rightarrow> Some es | Some v \<Rightarrow> item_values z line v e es
        }
      else Some es)"
  by pat_completeness auto
termination
  by (relation "measure (\<lambda>(z, line, value, e, es). Suc e - value)") (auto dest!: skip_blanks_ge memnstr_bounds)

declare item_values.simps [simp del]

definition mmc_stats_parse_item ::
  "zend_arrays \<Rightarrow> buf \<Rightarrow> nat \<Rightarrow> nat \<Rightarrow> ('d, 'o) php_value \<Rightarrow> (bool \<times> ('d, 'o) php_value) option" where
  "mmc_stats_parse_item z line start e result =
     do {
       space \<leftarrow> php_memnstr line start 32 e;
       case space of
         None \<Rightarrow> Some (False, Arr (entries result))
       | Some sp \<Rightarrow>
           do {
             bracket \<leftarrow> php_memnstr line sp 91 e;
             es \<leftarrow> (case bracket of None \<Rightarrow> Some [] | Some v \<Rightarrow> item_values z line v e []);
             Some (True, Arr (add_assoc z (line_cells line start sp) (Arr es) (entries result)))
           }
     }"

text \<open>Here the end is one past the last byte of the line, and the value includes that byte.\<close>

definition mmc_stats_parse_generic ::
  "zend_arrays \<Rightarrow> buf \<Rightarrow> nat \<Rightarrow> nat \<Rightarrow> ('d, 'o) php_value \<Rightarrow> (bool \<times> ('d, 'o) php_value) option" where
  "mmc_stats_parse_generic z line start e result =
     (if start < e then
        do {
          space \<leftarrow> php_memnstr line start 32 e;
          Some (True, Arr (case space of
            Some sp \<Rightarrow> add_assoc z (line_cells line start sp @ [0]) (Val (IS_STRING (line_cells line (sp + 1) (e + 1)))) (entries result)
          | None \<Rightarrow> add_next z (Val (IS_STRING (line_cells line start e))) (entries result)))
        }
      else Some (False, Arr (entries result)))"

text \<open>What becomes of a parsed line; a line that was not understood ends the command with FALSE.\<close>

definition stats_line ::
  "('d, 'o) zval_ptr \<Rightarrow> (bool \<times> ('d, 'o) php_value) option \<Rightarrow> mmc_t \<times> ('d, 'o) php_call \<Rightarrow> int \<times> (mmc_t \<times> ('d, 'o) php_call)" where
  "stats_line param parsed s =
     (case parsed of
        None \<Rightarrow> (MMC_REQUEST_FAILURE, fst s, (snd s)\<lparr>c_fault := True\<rparr>)
      | Some (ok, v) \<Rightarrow>
          if ok then (MMC_REQUEST_AGAIN, fst s, assign param v (snd s))
          else (MMC_REQUEST_FAILURE, fst s, assign param (Val IS_FALSE) (assign param v (snd s))))"

definition mmc_stats_handler :: "zend_arrays \<Rightarrow> ('d, 'o) zval_ptr \<Rightarrow> ('d, 'o) php_call response_fun" where
  "mmc_stats_handler z param udp response message len s =
     (let (mmc, c) = s; n = unat len; line = take n message in
      if response \<noteq> MMC_RESPONSE_ERROR then
        if n = 0 then (MMC_REQUEST_DONE, s)
        else if n > length message then (MMC_REQUEST_FAILURE, mmc, c\<lparr>c_fault := True\<rparr>)
        else if mmc_str_left line (bytes ''RESET'') then (MMC_REQUEST_DONE, mmc, assign param (Val IS_TRUE) c)
        else if mmc_str_left line (bytes ''STAT '') then stats_line param (mmc_stats_parse_stat z message 5 (n - 1) (deref param c)) s
        else if mmc_str_left line (bytes ''ITEM '') then stats_line param (mmc_stats_parse_item z message 5 (n - 1) (deref param c)) s
        else if mmc_str_left line (bytes ''END'') then (MMC_REQUEST_DONE, s)
        else stats_line param (mmc_stats_parse_generic z message 0 n (deref param c)) s
      else fail_request udp message len s)"

text \<open>The type of statistics, NULL or a C string.\<close>

definition mmc_stats_checktype :: "buf option \<Rightarrow> bool" where
  "mmc_stats_checktype type =
     (case type of
        None \<Rightarrow> True
      | Some t \<Rightarrow> c_string t \<in> bytes ` {''reset'', ''malloc'', ''slabs'', ''cachedump'', ''items'', ''sizes''})"

subsection \<open>Version and flush\<close>

text \<open>\<^verbatim>\<open>sscanf(message, "VERSION %s", version)\<close>\<close>

definition scan_version :: "buf \<Rightarrow> buf option" where
  "scan_version message =
     (let inp = c_string message;
          word = takeWhile (\<lambda>b. \<not> is_space b) (dropWhile is_space (drop 7 inp))
      in if take 7 inp = bytes ''VERSION'' \<and> word \<noteq> [] then Some word else None)"

definition mmc_version_handler :: "('d, 'o) zval_ptr \<Rightarrow> ('d, 'o) php_call response_fun" where
  "mmc_version_handler param udp response message len s =
     (let (mmc, c) = s in
      if response \<noteq> MMC_RESPONSE_ERROR then
        case scan_version message of
          Some version \<Rightarrow> (MMC_REQUEST_DONE, mmc, assign param (Val (IS_STRING version)) c)
        | None \<Rightarrow>
            if unat len > length message then (MMC_REQUEST_DONE, mmc, c\<lparr>c_fault := True\<rparr>)
            else (MMC_REQUEST_DONE, mmc, assign param (Val (IS_STRING (take (unat len) message))) c)
      else fail_request udp message len s)"

definition mmc_flush_handler :: "('d, 'o) php_call response_fun" where
  "mmc_flush_handler udp response message len s =
     (let (mmc, c) = s in
      if response = MMC_OK then (MMC_REQUEST_DONE, mmc, c\<lparr>c_responses := c_responses c + 1\<rparr>)
      else if response = MMC_RESPONSE_CLIENT_ERROR then (MMC_REQUEST_DONE, mmc, server_notice mmc message response c)
      else fail_request udp message len s)"

subsection \<open>Statistics that are understood\<close>

text \<open>
  A line \<^verbatim>\<open>STAT a:b:c value\<close>: a path of subkeys and a value, and what an array that has the
  value under the path is.
\<close>

fun path_bytes :: "buf list \<Rightarrow> buf" where
  "path_bytes [] = []"
| "path_bytes [k] = k"
| "path_bytes (k # ks) = k @ 58 # path_bytes ks"

definition path_ok :: "buf list \<Rightarrow> bool" where
  "path_ok ks \<longleftrightarrow> ks \<noteq> [] \<and> last ks \<noteq> [] \<and> (\<forall>k \<in> set ks. 32 \<notin> set k \<and> 58 \<notin> set k \<and> 10 \<notin> set k)"

fun stats_insert :: "zend_arrays \<Rightarrow> buf list \<Rightarrow> buf \<Rightarrow> ('d, 'o) php_value \<Rightarrow> ('d, 'o) php_value" where
  "stats_insert z [] v result = result"
| "stats_insert z [k] v result = Arr (add_assoc z k (Val (IS_STRING v)) (entries result))"
| "stats_insert z (k # ks) v result =
     (let (k', elem) = stats_element z k (entries result)
      in Arr (arr_update k' (stats_insert z ks v elem) (entries result)))"

lemma path_bytes_no: "c \<noteq> 58 \<Longrightarrow> \<forall>k \<in> set ks. c \<notin> set k \<Longrightarrow> c \<notin> set (path_bytes ks)"
  by (induction ks rule: path_bytes.induct) auto

lemma path_ok_Cons: "path_ok (k # k' # ks) \<Longrightarrow> path_ok (k' # ks) \<and> 58 \<notin> set k"
  by (simp add: path_ok_def)

lemma path_ok_not_Nil: "path_ok ks \<Longrightarrow> path_bytes ks \<noteq> []"
  by (induction ks rule: path_bytes.induct) (auto simp: path_ok_def)

text \<open>The two searches of a parser, and the slices they give.\<close>

lemma memnstr_at:
  "line = pre @ xs @ b # ys \<Longrightarrow> b \<notin> set xs \<Longrightarrow> length pre + length xs < e \<Longrightarrow>
   php_memnstr line (length pre) b e = Some (Some (length pre + length xs))"
proof -
  assume l: "line = pre @ xs @ b # ys" "b \<notin> set xs" "length pre + length xs < e"
  obtain n where n: "e - length pre = length xs + Suc n"
    by (rule that [of "e - length pre - length xs - 1"]) (use l(3) in simp)
  have "take (e - length pre) (drop (length pre) line) = xs @ b # take n ys" unfolding n by (simp add: l(1))
  then show ?thesis using l memchr_append [OF l(2), of "take n ys"] by (simp add: php_memnstr_def)
qed

lemma memnstr_none:
  "line = pre @ xs @ ys \<Longrightarrow> b \<notin> set xs \<Longrightarrow> e \<le> length pre + length xs \<Longrightarrow> length pre \<le> e \<Longrightarrow>
   php_memnstr line (length pre) b e = Some None"
  by (auto simp: php_memnstr_def memchr_None dest: in_set_takeD)

lemma line_cells_at: "line_cells (pre @ xs @ ys) (length pre) (length pre + length xs) = xs"
  by (simp add: line_cells_def)

lemma parse_stat_path:
  assumes "path_ok ks" and "v \<noteq> []"
  shows "line = pre @ path_bytes ks @ 32 # v @ post \<Longrightarrow>
    mmc_stats_parse_stat z line (length pre) (length pre + length (path_bytes ks) + length v) result =
      Some (True, stats_insert z ks v result)"
  using assms
proof (induction ks arbitrary: pre result rule: path_bytes.induct)
  case 1
  then show ?case by (simp add: path_ok_def)
next
  case (2 k)
  let ?e = "length pre + length k + length v" and ?sp = "length pre + length k"
  have k: "32 \<notin> set k" "58 \<notin> set k" "k \<noteq> []" using 2 by (simp_all add: path_ok_def)
  have line: "line = pre @ k @ 32 # v @ post" using 2 by simp
  have sp: "php_memnstr line (length pre) 32 ?e = Some (Some ?sp)"
    using memnstr_at [OF line k(1)] 2 by simp
  have co: "php_memnstr line (length pre) 58 (?sp - 1) = Some None"
    by (rule memnstr_none [OF line k(2)]) (use k(3) in \<open>cases k; simp\<close>)+
  have s: "line_cells line (length pre) ?sp = k" using line_cells_at [of pre k] line by simp
  have "line_cells line (?sp + 1) (?e + 1) = v"
    using line_cells_at [of "pre @ k @ [32]" v post] line by (simp add: algebra_simps)
  then show ?case
    using k(3) by (subst mmc_stats_parse_stat.simps) (simp add: sp co s del: One_nat_def)
next
  case (3 k k' ks)
  let ?p = "path_bytes (k' # ks)"
  let ?co = "length pre + length k"
  define e where "e = length pre + length (path_bytes (k # k' # ks)) + length v"
  define sp where "sp = length pre + length (k @ 58 # ?p)"
  have ok: "path_ok (k' # ks)" "58 \<notin> set k" using path_ok_Cons [OF "3.prems"(2)] by simp_all
  have ne: "?p \<noteq> []" by (rule path_ok_not_Nil [OF ok(1)])
  have "32 \<notin> set (path_bytes (k # k' # ks))" using "3.prems"(2) by (intro path_bytes_no) (auto simp: path_ok_def)
  then have no: "32 \<notin> set (k @ 58 # ?p)" by simp
  have line: "line = pre @ (k @ 58 # ?p) @ 32 # v @ post" "line = pre @ k @ 58 # ?p @ 32 # v @ post"
    "line = (pre @ k @ [58]) @ ?p @ 32 # v @ post"
    using "3.prems"(1) by simp_all
  have space: "php_memnstr line (length pre) 32 e = Some (Some sp)"
    using memnstr_at [OF line(1) no] "3.prems"(3) by (simp add: e_def sp_def)
  have co: "php_memnstr line (length pre) 58 (sp - 1) = Some (Some ?co)"
    by (rule memnstr_at [OF line(2) ok(2)]) (use ne in \<open>cases ?p; simp add: sp_def\<close>)
  have sp: "\<not> sp \<le> length pre" by (simp add: sp_def)
  have s: "line_cells line (length pre) ?co = k" using line_cells_at [of pre k] line(2) by simp
  obtain key elem where el: "stats_element z k (entries result) = (key, elem)" by (cases "stats_element z k (entries result)")
  have "mmc_stats_parse_stat z line (?co + 1) e elem = Some (True, stats_insert z (k' # ks) v elem)"
    using "3.IH" [OF line(3) ok(1) "3.prems"(3), of elem] by (simp add: e_def algebra_simps)
  then show ?case
    unfolding e_def [symmetric] using el
    by (subst mmc_stats_parse_stat.simps) (simp add: space co s sp del: One_nat_def)
qed

definition stat_line :: "buf list \<times> buf \<Rightarrow> buf" where
  "stat_line = (\<lambda>(ks, v). bytes ''STAT '' @ path_bytes ks @ 32 # v)"

definition stat_ok :: "buf list \<times> buf \<Rightarrow> bool" where
  "stat_ok = (\<lambda>(ks, v). path_ok ks \<and> v \<noteq> [] \<and> 10 \<notin> set v \<and> length (stat_line (ks, v)) + 2 < MMC_BUFFER_SIZE)"

fun stats_stream :: "(buf list \<times> buf) list \<Rightarrow> buf" where
  "stats_stream [] = bytes ''END'' @ crlf"
| "stats_stream (it # its) = stat_line it @ crlf @ stats_stream its"

fun stats_result :: "zend_arrays \<Rightarrow> (buf list \<times> buf) list \<Rightarrow> ('d, 'o) php_value \<Rightarrow> ('d, 'o) php_value" where
  "stats_result z [] r = r"
| "stats_result z ((ks, v) # its) r = stats_result z its (stats_insert z ks v r)"

lemma check_response_msg: "snd (mmc_request_check_response (l @ [13, 10])) = l @ [0, 10]"
  by (simp add: mmc_request_check_response_def Let_def nth_append list_update_append)

lemma message_len_line: "length l + 2 < MMC_BUFFER_SIZE \<Longrightarrow> unat (message_len (l @ [13, 10])) = length l"
  by (simp add: message_len_def MMC_BUFFER_SIZE_def unsigned_of_nat take_bit_nat_eq_self_iff)

lemma stat_line_response: "fst (mmc_request_check_response (stat_line it @ [13, 10])) = MMC_RESPONSE_UNKNOWN"
  by (cases it) (simp add: mmc_request_check_response_def stat_line_def Let_def nth_append list_update_append
      mmc_str_left_def bytes_def of_char_def)

lemma stats_handler_line:
  assumes "stat_ok (ks, v)" and "unat n = length (stat_line (ks, v))" and "response \<noteq> MMC_RESPONSE_ERROR"
  shows "mmc_stats_handler z param udp response (stat_line (ks, v) @ [0, 10]) n (mmc, c) =
    (MMC_REQUEST_AGAIN, mmc, assign param (stats_insert z ks v (deref param c)) c)"
proof -
  let ?l = "stat_line (ks, v)"
  have ok: "path_ok ks" "v \<noteq> []" using assms(1) by (simp_all add: stat_ok_def)
  have line: "?l @ [0, 10] = bytes ''STAT '' @ path_bytes ks @ 32 # v @ [0, 10]" by (simp add: stat_line_def)
  have "mmc_stats_parse_stat z (?l @ [0, 10]) 5 (unat n - 1) (deref param c) = Some (True, stats_insert z ks v (deref param c))"
    using parse_stat_path [OF ok line, of z "deref param c"] assms(2) by (simp add: stat_line_def numeral_eq_Suc)
  moreover have "\<not> mmc_str_left (take (unat n) (?l @ [0, 10])) (bytes ''RESET'')" "mmc_str_left (take (unat n) (?l @ [0, 10])) (bytes ''STAT '')"
    using assms(2) by (simp_all add: stat_line_def mmc_str_left_def bytes_def of_char_def)
  moreover have "0 < unat n" "unat n \<le> length (?l @ [0, 10])" using assms(2) by (simp_all add: stat_line_def)
  ultimately show ?thesis using assms(3) by (simp add: mmc_stats_handler_def Let_def stats_line_def)
qed

lemma stats_loop:
  assumes "response_handler h = mmc_stats_handler z return_value udp" and "a_parse req = PARSE_RESPONSE"
  shows "\<forall>it \<in> set its. stat_ok it \<Longrightarrow> io_ok io \<Longrightarrow> io_input io = [] \<Longrightarrow> unread io = stats_stream its @ rest \<Longrightarrow>
    \<exists>io'. parse_loop (ascii_step rt h) (req, io, mmc, c) =
        Some (Some (MMC_REQUEST_DONE, req, io', mmc, c\<lparr>c_return := stats_result z its (c_return c)\<rparr>)) \<and> unread io' = rest"
proof (induction its arbitrary: io c)
  case Nil
  have "\<exists>io'. mmc_stream_get_line io = (Some (bytes ''END'' @ [13] @ [10]), io') \<and> io_ok io' \<and> io_input io' = [] \<and> unread io' = rest"
    using get_line_complete [of io "bytes ''END'' @ [13]" rest] Nil
    by (simp add: crlf_def bytes_def of_char_def MMC_BUFFER_SIZE_def)
  then obtain io' where line: "mmc_stream_get_line io = (Some (bytes ''END'' @ [13, 10]), io')" "unread io' = rest" by auto
  have "ascii_step rt h (req, io, mmc, c) = Some (MMC_REQUEST_DONE, req, io', mmc, c)"
    using assms line(1)
    by (simp add: ascii_step_def ascii_parse_def mmc_request_parse_response_def mmc_request_check_response_def mmc_stats_handler_def
        mmc_str_left_def message_len_def bytes_def of_char_def Let_def mmc_consts)
  then show ?case using line(2) by (simp add: parse_loop_step mmc_consts)
next
  case (Cons it its)
  obtain ks v where it: "it = (ks, v)" by fastforce
  let ?l = "stat_line it" and ?s = "c\<lparr>c_return := stats_insert z ks v (c_return c)\<rparr>"
  have ok: "stat_ok (ks, v)" using Cons.prems(1) it by simp
  have "10 \<notin> set (path_bytes ks)" using ok by (intro path_bytes_no) (auto simp: stat_ok_def path_ok_def)
  then have no: "10 \<notin> set (?l @ [13])" using ok by (auto simp: it stat_ok_def stat_line_def bytes_def of_char_def)
  have len: "length ?l + 2 < MMC_BUFFER_SIZE" using ok it by (simp add: stat_ok_def)
  obtain io' where line: "mmc_stream_get_line io = (Some (?l @ [13, 10]), io')"
    and io': "io_ok io'" "io_input io' = []" "unread io' = stats_stream its @ rest"
    using get_line_complete [OF Cons.prems(2) no, of "stats_stream its @ rest"] Cons.prems(3,4) len by (auto simp: crlf_def)
  obtain response where r: "mmc_request_check_response (?l @ [13, 10]) = (response, ?l @ [0, 10])" "response \<noteq> MMC_RESPONSE_ERROR"
    using check_response_msg [of ?l] stat_line_response [of it] by (cases "mmc_request_check_response (?l @ [13, 10])") (simp add: mmc_consts)
  note h = stats_handler_line [OF ok _ r(2), of "message_len (?l @ [13, 10])" z return_value udp mmc c]
  have "ascii_step rt h (req, io, mmc, c) = Some (MMC_REQUEST_AGAIN, req, io', mmc, ?s)"
    using assms line r(1) h message_len_line [OF len]
    by (simp add: ascii_step_def ascii_parse_def mmc_request_parse_response_def it return_value_def)
  then have "parse_loop (ascii_step rt h) (req, io, mmc, c) = parse_loop (ascii_step rt h) (req, io', mmc, ?s)"
    by (simp add: parse_loop_step)
  moreover have "\<forall>it \<in> set its. stat_ok it" using Cons.prems(1) by simp
  from Cons.IH [OF this io', of ?s] obtain io'' where
    "parse_loop (ascii_step rt h) (req, io', mmc, ?s) =
      Some (Some (MMC_REQUEST_DONE, req, io'', mmc, c\<lparr>c_return := stats_result z (it # its) (c_return c)\<rparr>))" "unread io'' = rest"
    by (auto simp: it)
  ultimately show ?case by auto
qed

subsection \<open>Names without bytes\<close>

lemma memchr_before: "memchr c xs = Some n \<Longrightarrow> d < n \<Longrightarrow> xs ! d \<noteq> c"
proof (induction xs arbitrary: n d)
  case (Cons x xs)
  then show ?case by (cases d) (auto split: if_splits)
qed simp

lemma memnstr_Some:
  assumes "php_memnstr line p b e = Some (Some i)"
  shows "i < e \<and> p \<le> i \<and> i < length line \<and> line ! i = b \<and> (\<forall>j. p \<le> j \<longrightarrow> j < i \<longrightarrow> line ! j \<noteq> b)"
proof -
  obtain k where k: "memchr b (take (e - p) (drop p line)) = Some k" "i = p + k" "p \<le> e"
    using assms by (auto simp: php_memnstr_def split: if_splits)
  from memchr_Some [OF k(1)] have m: "k < e - p" "k < length line - p" "line ! (p + k) = b" by auto
  have "line ! j \<noteq> b" if j: "p \<le> j" "j < i" for j
  proof -
    obtain d where d: "j = p + d" using j(1) le_Suc_ex by blast
    then have dk: "d < k" using j(2) k(2) by simp
    then have "d < e - p" "p + d \<le> length line" using m(1,2) by linarith+
    then show ?thesis using memchr_before [OF k(1) dk] by (simp add: d)
  qed
  moreover have "i < e" "i < length line" using m(1,2) k(2,3) by linarith+
  ultimately show ?thesis using m(3) k(2) by simp
qed

lemma memnstr_None: "php_memnstr line p b e = Some None \<Longrightarrow> p \<le> i \<Longrightarrow> i < e \<Longrightarrow> i < length line \<Longrightarrow> line ! i \<noteq> b"
proof
  assume a: "php_memnstr line p b e = Some None" "p \<le> i" "i < e" "i < length line" "line ! i = b"
  then have "take (e - p) (drop p line) ! (i - p) = b" "i - p < length (take (e - p) (drop p line))" by (simp_all add: diff_less_mono)
  then have "b \<in> set (take (e - p) (drop p line))" by (metis nth_mem)
  then show False using a(1) by (auto simp: php_memnstr_def memchr_None split: if_splits)
qed

lemma parse_stat_fault_iff:
  "e < length line \<Longrightarrow> mmc_stats_parse_stat z line start e result = None \<longleftrightarrow> e < start \<or> start < e \<and> line ! start = 32"
proof (induction z line start e result rule: mmc_stats_parse_stat.induct)
  case (1 z line start e result)
  show ?case
  proof (cases "php_memnstr line start 32 e")
    case None
    then show ?thesis by (subst mmc_stats_parse_stat.simps) (auto simp: php_memnstr_def split: if_splits)
  next
    case (Some space)
    show ?thesis
    proof (cases space)
      case None
      then have "\<not> (start < e \<and> line ! start = 32)" using memnstr_None [of line start 32 e start] Some "1.prems" by auto
      then show ?thesis
        using Some None by (subst mmc_stats_parse_stat.simps) (auto simp: php_memnstr_def split: if_splits)
    next
      case sp: (Some sp)
      have b: "start \<le> sp" "sp < e" "line ! sp = 32" "\<forall>j. start \<le> j \<longrightarrow> j < sp \<longrightarrow> line ! j \<noteq> 32"
        using memnstr_Some [of line start 32 e sp] Some sp by auto
      show ?thesis
      proof (cases "sp = start")
        case True
        then show ?thesis using Some sp b by (subst mmc_stats_parse_stat.simps) simp
      next
        case False
        obtain colon where co: "php_memnstr line start 58 (sp - 1) = Some colon"
          using False b(1) by (cases "php_memnstr line start 58 (sp - 1)") (auto simp: php_memnstr_def split: if_splits)
        have safe: "mmc_stats_parse_stat z line (c + 1) e elem \<noteq> None" if "colon = Some c" "stats_element z (line_cells line start c) (entries result) = (k, elem)" for c k elem
        proof -
          have "start \<le> c" "c < sp - 1" using memnstr_Some [of line start 58 "sp - 1" c] co that by auto
          then have "\<not> e < c + 1" "line ! (c + 1) \<noteq> 32" using b by auto
          then show ?thesis using "1.IH" [of space sp colon c] Some sp co that False b(1) "1.prems" by auto
        qed
        have "mmc_stats_parse_stat z line start e result \<noteq> None"
        proof (cases colon)
          case None
          then show ?thesis using Some sp co False b(1) by (subst mmc_stats_parse_stat.simps) simp
        next
          case c: (Some c)
          obtain k elem where el: "stats_element z (line_cells line start c) (entries result) = (k, elem)" by fastforce
          obtain ok v where "mmc_stats_parse_stat z line (c + 1) e elem = Some (ok, v)" using safe [OF c el] by auto
          then show ?thesis using Some sp co False b(1) c el by (subst mmc_stats_parse_stat.simps) simp
        qed
        moreover have "\<not> e < start" "line ! start \<noteq> 32" using b False by auto
        ultimately show ?thesis by simp
      qed
    qed
  qed
qed

subsection \<open>Arrays as maps\<close>

lemma map_of_arr_update [simp]: "map_of (arr_update k v es) = (map_of es)(k \<mapsto> v)"
  by (induction k v es rule: arr_update.induct) (auto simp: fun_eq_iff)

lemma keys_arr_update: "map fst (arr_update k v es) = (if k \<in> fst ` set es then map fst es else map fst es @ [k])"
  by (induction k v es rule: arr_update.induct) auto

lemma distinct_arr_update: "distinct (map fst es) \<Longrightarrow> distinct (map fst (arr_update k v es))"
  by (simp add: keys_arr_update)

text \<open>The values of an answer, handed to the handler of a multi-get one after the other.\<close>

type_synonym ('d, 'o) answer_value = "buf \<times> ('d, 'o) zval \<times> u32 \<times> u64"

definition multi_value ::
  "zend_arrays \<Rightarrow> bool \<Rightarrow> bool \<Rightarrow> ('d, 'o) answer_value \<Rightarrow> ('d, 'o) php_call \<Rightarrow> ('d, 'o) php_call" where
  "multi_value z want_flags want_cas = (\<lambda>(k, v, f, cas) c. snd (mmc_value_handler_multi z want_flags want_cas k v f cas c))"

definition value_map ::
  "zend_arrays \<Rightarrow> (('d, 'o) answer_value \<Rightarrow> ('d, 'o) zval) \<Rightarrow> ('d, 'o) answer_value list \<Rightarrow> array_key \<Rightarrow> ('d, 'o) php_value option" where
  "value_map z g vs = map_of (rev (map (\<lambda>x. (symtable_key z (fst x), Val (g x))) vs))"

lemma multi_value_fields:
  "multi_value z want_flags want_cas x c =
     c\<lparr>c_return := Arr (add_assoc z (fst x) (Val (fst (snd x))) (entries (c_return c))),
       c_flags := (if want_flags then Arr (add_assoc z (fst x) (Val (IS_LONG (ucast (fst (snd (snd x)))))) (entries (c_flags c))) else c_flags c),
       c_cas := (if want_cas then Arr (add_assoc z (fst x) (Val (IS_LONG (snd (snd (snd x))))) (entries (c_cas c))) else c_cas c)\<rparr>"
  by (cases x) (simp add: multi_value_def mmc_value_handler_multi_def Let_def)

lemma entries_Arr [simp]: "entries (Arr es) = es"
  by (simp add: entries_def)

lemma multi_values_return:
  "map_of (entries (c_return (fold (multi_value z fl ca) vs c))) = map_of (entries (c_return c)) ++ value_map z (\<lambda>x. fst (snd x)) vs"
  by (induction vs arbitrary: c) (simp_all add: value_map_def multi_value_fields add_assoc_def)

lemma multi_values_flags:
  "map_of (entries (c_flags (fold (multi_value z True ca) vs c))) =
     map_of (entries (c_flags c)) ++ value_map z (\<lambda>x. IS_LONG (ucast (fst (snd (snd x))))) vs"
  by (induction vs arbitrary: c) (simp_all add: value_map_def multi_value_fields add_assoc_def)

lemma multi_values_cas:
  "map_of (entries (c_cas (fold (multi_value z fl True) vs c))) =
     map_of (entries (c_cas c)) ++ value_map z (\<lambda>x. IS_LONG (snd (snd (snd x)))) vs"
  by (induction vs arbitrary: c) (simp_all add: value_map_def multi_value_fields add_assoc_def)

lemma multi_values_distinct:
  "distinct (map fst (entries (c_return c))) \<Longrightarrow> distinct (map fst (entries (c_return (fold (multi_value z fl ca) vs c))))"
  by (induction vs arbitrary: c) (simp_all add: multi_value_fields add_assoc_def distinct_arr_update)

subsection \<open>Several answers to a storage command\<close>

definition stored_answers ::
  "('d, 'o) zval_ptr \<Rightarrow> bool \<Rightarrow> (int \<times> buf \<times> u32) list \<Rightarrow> mmc_t \<times> ('d, 'o) php_call \<Rightarrow> mmc_t \<times> ('d, 'o) php_call" where
  "stored_answers result udp = fold (\<lambda>(response, message, len) s. snd (mmc_stored_handler result udp response message len s))"

text \<open>The answers that do not take the server down.\<close>

definition stored_codes :: "int set" where
  "stored_codes = {MMC_OK, MMC_RESPONSE_EXISTS, MMC_RESPONSE_OUT_OF_MEMORY, MMC_RESPONSE_TOO_LARGE, MMC_RESPONSE_CLIENT_ERROR}"

lemma stored_answers_Cons:
  "stored_answers result udp (a # as) s =
     stored_answers result udp as (snd (mmc_stored_handler result udp (fst a) (fst (snd a)) (snd (snd a)) s))"
  by (simp add: stored_answers_def case_prod_unfold)

lemma stored_answer:
  "response \<in> stored_codes \<Longrightarrow> c_return (snd (snd (mmc_stored_handler return_value udp response m n s))) =
     (if response = MMC_OK then if c_return (snd s) = Val IS_NULL then Val IS_TRUE else c_return (snd s) else Val IS_FALSE)"
  by (auto simp: stored_codes_def mmc_stored_handler_def return_value_def server_notice_def Let_def case_prod_unfold mmc_consts)

lemma stored_not_null:
  "\<forall>a \<in> set as. fst a \<in> stored_codes \<Longrightarrow> c_return (snd s) \<in> {Val IS_TRUE, Val IS_FALSE} \<Longrightarrow>
   c_return (snd (stored_answers return_value udp as s)) =
     (if \<forall>a \<in> set as. fst a = MMC_OK then c_return (snd s) else Val IS_FALSE)"
proof (induction as arbitrary: s)
  case (Cons a as)
  then show ?case by (auto simp: stored_answers_Cons stored_answer)
qed (simp add: stored_answers_def)

subsection \<open>Properties\<close>


definition example_stats_handlers :: "(unit, unit, mmc_t \<times> (unit, unit) php_call) mmc_handlers" where
  "example_stats_handlers =
     \<lparr>response_handler = mmc_stats_handler \<lparr>z_index = (\<lambda>key. None), z_numeric = (\<lambda>key. None), z_next = (\<lambda>ks. 0)\<rparr> return_value False,
      value_handler = (\<lambda>k v f c s. (MMC_REQUEST_DONE, s)), server_failure = (\<lambda>m s. (MMC_REQUEST_FAILURE, s))\<rparr>"

lemma stats_handler_no_more: "fst (mmc_stats_handler z param udp response message len s) \<noteq> MMC_REQUEST_MORE"
  by (auto simp: mmc_stats_handler_def stats_line_def fail_request_def mmc_request_failure_def mmc_server_failure_def Let_def
      case_prod_unfold mmc_consts split: option.splits)

lemma example_stats_no_more: "handlers_no_more example_stats_handlers"
  by (simp add: handlers_no_more_def example_stats_handlers_def stats_handler_no_more) (simp add: mmc_consts)


text \<open>
  The return value of a storage command that several servers or keys answered: TRUE when
  every answer was positive, FALSE as soon as one was not, whatever came before or after it,
  and NULL (which the caller turns into FALSE) when there was none.
\<close>

theorem stored_result:
  assumes "\<forall>a \<in> set as. fst a \<in> stored_codes" and "c_return (snd s) = Val IS_NULL"
  shows "c_return (snd (stored_answers return_value udp as s)) =
    (if as = [] then Val IS_NULL else if \<forall>a \<in> set as. fst a = MMC_OK then Val IS_TRUE else Val IS_FALSE)"
proof (cases as)
  case Nil
  then show ?thesis using assms(2) by (simp add: stored_answers_def)
next
  case (Cons a as')
  then have a: "fst a \<in> stored_codes" "\<forall>a \<in> set as'. fst a \<in> stored_codes" using assms(1) by simp_all
  have "c_return (snd (snd (mmc_stored_handler return_value udp (fst a) (fst (snd a)) (snd (snd a)) s))) \<in> {Val IS_TRUE, Val IS_FALSE}"
    using assms(2) by (simp add: stored_answer [OF a(1)])
  from stored_not_null [OF a(2) this, of udp, unfolded stored_answer [OF a(1)]] show ?thesis
    using assms(2) by (auto simp: Cons stored_answers_Cons)
qed

definition example_call :: "(unit, unit) php_call" where
  "example_call =
     \<lparr>c_return = Val IS_NULL, c_flags = Val IS_NULL, c_cas = Val IS_NULL, c_responses = 0, c_messages = [], c_fault = False\<rparr>"

definition example_zend :: zend_arrays where
  "example_zend = \<lparr>z_index = (\<lambda>key. if key = [53] then Some 5 else None), z_numeric = (\<lambda>key. None), z_next = (\<lambda>ks. int (length ks))\<rparr>"

definition example_mmc :: mmc_t where
  "example_mmc = mmc_server_new 8192 [] 11211 0 False 1000000 15"

theorem stored_result_witness:
  "c_return (snd (stored_answers return_value False [(MMC_OK, [], 0), (MMC_RESPONSE_EXISTS, [], 0), (MMC_OK, [], 0)] (example_mmc, example_call))) =
     Val IS_FALSE"
proof -
  let ?as = "[(MMC_OK, [], 0), (MMC_RESPONSE_EXISTS, [], 0), (MMC_OK, [], 0)] :: (int \<times> buf \<times> u32) list"
  have "\<forall>a \<in> set ?as. fst a \<in> stored_codes" "c_return (snd (example_mmc, example_call)) = Val IS_NULL"
    by (simp_all add: stored_codes_def example_call_def)
  from stored_result [OF this, of False] show ?thesis by (simp add: mmc_consts)
qed

text \<open>
  C35: A multi-get collects its values: after any sequence of values the result holds the last
  value of every key that was answered, under the key as PHP arrays store it, and what it
  held before for the others; the flags and CAS arrays hold theirs; and no key twice.
\<close>

theorem multi_get_collects:
  assumes "distinct (map fst (entries (c_return c)))"
  shows "map_of (entries (c_return (fold (multi_value z True True) vs c))) = map_of (entries (c_return c)) ++ value_map z (\<lambda>x. fst (snd x)) vs \<and>
    map_of (entries (c_flags (fold (multi_value z True True) vs c))) =
      map_of (entries (c_flags c)) ++ value_map z (\<lambda>x. IS_LONG (ucast (fst (snd (snd x))))) vs \<and>
    map_of (entries (c_cas (fold (multi_value z True True) vs c))) =
      map_of (entries (c_cas c)) ++ value_map z (\<lambda>x. IS_LONG (snd (snd (snd x)))) vs \<and>
    distinct (map fst (entries (c_return (fold (multi_value z True True) vs c))))"
  using assms by (simp add: multi_values_return multi_values_flags multi_values_cas multi_values_distinct)

theorem multi_get_collects_witness:
  "map_of (entries (c_return (fold (multi_value example_zend True True) [([107], IS_TRUE, 0, 0), ([53], IS_FALSE, 0, 0), ([107], IS_FALSE, 0, 0)] example_call))) =
     [AIndex 5 \<mapsto> Val IS_FALSE, AName [107] \<mapsto> Val IS_FALSE]"
proof -
  have "distinct (map fst (entries (c_return example_call)))" by (simp add: example_call_def entries_def)
  note multi_get_collects [OF this, THEN conjunct1, of example_zend "[([107], IS_TRUE, 0, 0), ([53], IS_FALSE, 0, 0), ([107], IS_FALSE, 0, 0)]"]
  also have "map_of (entries (c_return example_call)) = Map.empty" by (simp add: example_call_def entries_def)
  also have "value_map example_zend (\<lambda>x. fst (snd x)) [([107], IS_TRUE, 0, 0), ([53], IS_FALSE, 0, 0), ([107], IS_FALSE, 0, 0)] =
      [AIndex 5 \<mapsto> Val IS_FALSE, AName [107] \<mapsto> Val IS_FALSE :: (unit, unit) php_value]"
    by (simp add: value_map_def symtable_key_def example_zend_def)
  finally show ?thesis by (simp only: map_add_empty empty_map_add)
qed

text \<open>
  Which of its keys a multi-get asks for again when a server fails: a key whose value has
  arrived is recognised exactly when it is not the text of an integer. PHP stores those under
  the integer, and the test looks for the string.
\<close>

theorem received_key_recognised_iff:
  "has_value (multi_value z want_flags want_cas (key, v, f, cas) c) key' \<longleftrightarrow>
     (key' = key \<and> z_index z key = None) \<or> has_value c key'"
  by (auto simp: has_value_def multi_value_fields add_assoc_def symtable_key_def entries_def split: option.splits php_value.splits)

text \<open>
  A \<^verbatim>\<open>STAT\<close> line makes the client read beyond the line exactly when nothing follows the word
  or when a blank does, so that the name is empty: the length of the search for the colon of
  the name is negative then.
\<close>

theorem stats_name_safe_iff:
  assumes "response \<noteq> MMC_RESPONSE_ERROR" and "mmc_str_left (take (unat len) message) (bytes ''STAT '')" and "unat len < length message"
    and "\<not> c_fault c"
  shows "c_fault (snd (snd (mmc_stats_handler z return_value udp response message len (mmc, c)))) \<longleftrightarrow>
    unat len = 5 \<or> 6 < unat len \<and> message ! 5 = 32"
proof -
  let ?n = "unat len"
  have n: "5 \<le> ?n" using assms(2) by (auto simp: mmc_str_left_def split: if_splits)
  have "take 5 (take ?n message) = bytes ''STAT ''" using assms(2) by (simp add: mmc_str_left_def numeral_eq_Suc split: if_splits del: take_take)
  then have "\<not> mmc_str_left (take ?n message) (bytes ''RESET'')" using n by (auto simp: mmc_str_left_def bytes_def of_char_def numeral_eq_Suc)
  then have h: "mmc_stats_handler z return_value udp response message len (mmc, c) =
      stats_line return_value (mmc_stats_parse_stat z message 5 (?n - 1) (c_return c)) (mmc, c)"
    using assms n by (simp add: mmc_stats_handler_def Let_def return_value_def)
  have "c_fault (snd (snd (stats_line return_value p (mmc, c)))) = (p = None)" for p
    using assms(4) by (simp add: stats_line_def return_value_def split: option.splits)
  moreover have "mmc_stats_parse_stat z message 5 (?n - 1) (c_return c) = None \<longleftrightarrow> ?n - 1 < 5 \<or> 5 < ?n - 1 \<and> message ! 5 = 32"
    by (rule parse_stat_fault_iff) (use assms(3) n in simp)
  moreover have "?n - 1 < 5 \<longleftrightarrow> ?n = 5" "5 < ?n - 1 \<longleftrightarrow> 6 < ?n" using n by linarith+
  ultimately show ?thesis unfolding h by (simp only:)
qed

theorem stats_name_safe_iff_witness:
  "c_fault (snd (snd (mmc_stats_handler example_zend return_value False MMC_RESPONSE_UNKNOWN (bytes ''STAT  1'' @ [0, 10]) 7 (example_mmc, example_call))))"
proof -
  let ?m = "bytes ''STAT  1'' @ [0, 10]"
  have "MMC_RESPONSE_UNKNOWN \<noteq> MMC_RESPONSE_ERROR" "mmc_str_left (take (unat (7 :: u32)) ?m) (bytes ''STAT '')" "unat (7 :: u32) < length ?m"
    "\<not> c_fault example_call"
    by (simp_all add: mmc_consts mmc_str_left_def bytes_def of_char_def example_call_def)
  from stats_name_safe_iff [OF this, of example_zend False example_mmc] show ?thesis by (simp add: bytes_def of_char_def)
qed

end
