(* ===== verification/Mmc_Client.thy ===== *)
theory Mmc_Client
  imports Mmc_Handlers Mmc_Select
begin

text \<open>
  The functions of \<^verbatim>\<open>src/memcache.c\<close> that userspace calls: storing, reading, deleting and
  counting, flush, version and statistics, over the pool of \<open>Mmc_Select\<close> with the variables of
  the call as its userspace state.

  A function gets its parsed arguments. Where the code runs the pool, so does the function;
  \<open>None\<close> is one of the faults named there or a run that does not end. The pool exists: a
  call without one returns FALSE before anything else.
\<close>

subsection \<open>The commands of a protocol\<close>

text \<open>
  The part of the protocol table that only these functions use. \<open>cmd_store\<close> knows the
  compression settings of the pool.
\<close>

record ('d, 'o, 'p) mmc_commands =
  cmd_get :: "'p \<Rightarrow> int \<Rightarrow> nat \<Rightarrow> buf \<Rightarrow> 'p"
  cmd_store :: "'p \<Rightarrow> int \<Rightarrow> buf \<Rightarrow> u32 \<Rightarrow> u32 \<Rightarrow> u64 \<Rightarrow> ('d, 'o) zval \<Rightarrow> int \<times> 'p"
  cmd_delete :: "'p \<Rightarrow> buf \<Rightarrow> u32 \<Rightarrow> 'p"
  cmd_mutate :: "'p \<Rightarrow> nat \<Rightarrow> buf \<Rightarrow> 64 word \<Rightarrow> 64 word \<Rightarrow> bool \<Rightarrow> u32 \<Rightarrow> 'p"
  cmd_flush :: "'p \<Rightarrow> u32 \<Rightarrow> 'p"
  cmd_version :: "'p \<Rightarrow> 'p"
  cmd_stats :: "'p \<Rightarrow> buf option \<Rightarrow> int \<Rightarrow> int \<Rightarrow> 'p"
  cmd_sasl :: "'p \<Rightarrow> buf \<Rightarrow> buf \<Rightarrow> 'p"

definition mmc_ascii_commands :: "('d, 'o) php_runtime \<Rightarrow> compress_settings \<Rightarrow> ('d, 'o, mmc_ascii_request) mmc_commands" where
  "mmc_ascii_commands rt cs =
     \<lparr>cmd_get = (\<lambda>req op zkey key. mmc_ascii_get req op key), cmd_store = mmc_ascii_store rt cs, cmd_delete = mmc_ascii_delete,
      cmd_mutate = (\<lambda>req zkey key value defval defval_used exptime. mmc_ascii_mutate req key value),
      cmd_flush = mmc_ascii_flush, cmd_version = mmc_ascii_version, cmd_stats = mmc_ascii_stats,
      cmd_sasl = (\<lambda>req user password. req)\<rparr>"

text \<open>\<open>gap\<close> is the memory behind the header of a storage request before it is filled in.\<close>

definition mmc_binary_commands ::
  "('d, 'o) php_runtime \<Rightarrow> compress_settings \<Rightarrow> (nat \<Rightarrow> buf) \<Rightarrow> ('d, 'o, mmc_binary_request) mmc_commands" where
  "mmc_binary_commands rt cs gap =
     \<lparr>cmd_get = mmc_binary_get, cmd_store = mmc_binary_store rt cs gap, cmd_delete = mmc_binary_delete,
      cmd_mutate = mmc_binary_mutate, cmd_flush = mmc_binary_flush, cmd_version = mmc_binary_version,
      cmd_stats = (\<lambda>req type slabid limit. mmc_binary_stats req), cmd_sasl = mmc_set_sasl_auth_data\<rparr>"

subsection \<open>The pool and the variables of a call\<close>

type_synonym ('d, 'o, 'p) client = "('d, 'o, ('d, 'o) php_call, 'p) mmc_pool_t"
type_synonym ('d, 'o, 'p) client_ops = "('d, 'o, ('d, 'o) php_call, 'p) pool_ops"
type_synonym ('d, 'o) client_env = "('d, 'o) php_call mmc_env"
type_synonym ('d, 'o, 'p) client_protocol = "('d, 'o, ('d, 'o) php_call, 'p) mmc_protocol_t"

definition upd_call :: "(('d, 'o) php_call \<Rightarrow> ('d, 'o) php_call) \<Rightarrow> ('d, 'o, 'p) client \<Rightarrow> ('d, 'o, 'p) client" where
  "upd_call f w = w\<lparr>p_user := f (p_user w)\<rparr>"

definition return_to :: "('d, 'o) php_value \<Rightarrow> ('d, 'o, 'p) client \<Rightarrow> ('d, 'o, 'p) client" where
  "return_to v = upd_call (\<lambda>c. c\<lparr>c_return := v\<rparr>)"

definition warn :: "string \<Rightarrow> ('d, 'o, 'p) client \<Rightarrow> ('d, 'o, 'p) client" where
  "warn text = upd_call (\<lambda>c. c\<lparr>c_messages := c_messages c @ [Warning text]\<rparr>)"

definition upd_proto :: "nat \<Rightarrow> ('p \<Rightarrow> 'p) \<Rightarrow> ('d, 'o, 'p) client \<Rightarrow> ('d, 'o, 'p) client" where
  "upd_proto r f = upd_req r (\<lambda>req. req\<lparr>r_proto := f (r_proto req)\<rparr>)"

text \<open>\<^verbatim>\<open>if (Z_TYPE_P(return_value) == IS_NULL) RETURN_FALSE\<close>\<close>

definition null_to_false :: "('d, 'o, 'p) client \<Rightarrow> ('d, 'o, 'p) client" where
  "null_to_false w = (if c_return (p_user w) = Val IS_NULL then return_to (Val IS_FALSE) w else w)"

text \<open>The environment whose test for a received value is the one of \<^verbatim>\<open>mmc_value_failover_handler\<close>.\<close>

definition php_env :: "('d, 'o) client_env \<Rightarrow> ('d, 'o) client_env" where
  "php_env env = env\<lparr>e_has_value := has_value\<rparr>"

subsection \<open>Storing\<close>

text \<open>
  One key: allocate, prepare the key, assemble, schedule. The result is \<open>MMC_OK\<close> when the
  request was scheduled; otherwise the command has no effect on this key.
\<close>

definition store_one ::
  "('d, 'o, 'p) client_ops \<Rightarrow> ('d, 'o) client_env \<Rightarrow> ('d, 'o, 'p) client_protocol \<Rightarrow> ('d, 'o, 'p) mmc_commands \<Rightarrow> nat \<Rightarrow> int \<Rightarrow>
   buf \<Rightarrow> ('d, 'o) zval \<Rightarrow> 64 word \<Rightarrow> 64 word \<Rightarrow> 64 word \<Rightarrow> ('d, 'o, 'p) client \<Rightarrow> (int \<times> ('d, 'o, 'p) client) option" where
  "store_one ops env pr cmd redundancy op key v flags exptime cas w =
     (let (r, w) = mmc_pool_request pr False (mmc_stored_handler return_value) mmc_failover_key w in
      do {
        prepared \<leftarrow> mmc_prepare_key env key;
        case prepared of
          None \<Rightarrow> Some (MMC_REQUEST_FAILURE, mmc_pool_release r (warn ''Invalid key'' w))
        | Some k \<Rightarrow>
            (let w = upd_proto r (pr_set_key pr k) w;
                 (status, proto) = cmd_store cmd (r_proto (p_req w r)) op k (ucast flags) (ucast exptime) cas v;
                 w = upd_proto r (\<lambda>_. proto) w
             in if status \<noteq> MMC_OK then Some (MMC_REQUEST_FAILURE, mmc_pool_release r w)
                else mmc_pool_schedule_key ops env pr k r redundancy w)
      })"

text \<open>The key of an entry of an array: integer keys are printed as \<^verbatim>\<open>zend_ulong\<close>.\<close>

definition array_key_text :: "array_key \<Rightarrow> buf" where
  "array_key_text k = (case k of AIndex i \<Rightarrow> dec (nat (i mod 2 ^ 64)) | AName name \<Rightarrow> name)"

fun store_all ::
  "('d, 'o, 'p) client_ops \<Rightarrow> ('d, 'o) client_env \<Rightarrow> ('d, 'o, 'p) client_protocol \<Rightarrow> ('d, 'o, 'p) mmc_commands \<Rightarrow> nat \<Rightarrow> int \<Rightarrow>
   (array_key \<times> ('d, 'o) zval) list \<Rightarrow> 64 word \<Rightarrow> 64 word \<Rightarrow> 64 word \<Rightarrow> ('d, 'o, 'p) client \<Rightarrow> ('d, 'o, 'p) client option" where
  "store_all ops env pr cmd redundancy op [] flags exptime cas w = Some w"
| "store_all ops env pr cmd redundancy op ((key, v) # items) flags exptime cas w =
     do {
       (result, w) \<leftarrow> store_one ops env pr cmd redundancy op (array_key_text key) v flags exptime cas w;
       w \<leftarrow> (if result \<noteq> MMC_OK then Some w else op_select ops w);
       store_all ops env pr cmd redundancy op items flags exptime cas w
     }"

text \<open>The first argument is an array of values or a key; the value of a key may be missing.\<close>

datatype ('d, 'o) store_keys =
    StoreArray "(array_key \<times> ('d, 'o) zval) list"
  | StoreKey buf "('d, 'o) zval option"

definition php_mmc_store ::
  "('d, 'o, 'p) client_ops \<Rightarrow> ('d, 'o) client_env \<Rightarrow> ('d, 'o, 'p) client_protocol \<Rightarrow> ('d, 'o, 'p) mmc_commands \<Rightarrow> nat \<Rightarrow> int \<Rightarrow>
   ('d, 'o) store_keys \<Rightarrow> 64 word \<Rightarrow> 64 word \<Rightarrow> 64 word \<Rightarrow> ('d, 'o, 'p) client \<Rightarrow> ('d, 'o, 'p) client option" where
  "php_mmc_store ops env pr cmd redundancy op keys flags exptime cas w =
     (if p_servers w = [] then Some (return_to (Val IS_FALSE) w)
      else
        let w = return_to (Val IS_NULL) w in
        case keys of
          StoreArray items \<Rightarrow>
            do {
              w \<leftarrow> store_all ops env pr cmd redundancy op items flags exptime cas w;
              map_option null_to_false (mmc_pool_run ops pr w)
            }
        | StoreKey key None \<Rightarrow> Some (warn ''Wrong parameter count'' w)
        | StoreKey key (Some v) \<Rightarrow>
            do {
              (result, w) \<leftarrow> store_one ops env pr cmd redundancy op key v flags exptime cas w;
              if result \<noteq> MMC_OK then Some (return_to (Val IS_FALSE) w)
              else map_option null_to_false (mmc_pool_run ops pr w)
            })"

definition memcache_add where "memcache_add ops env pr cmd redundancy = php_mmc_store ops env pr cmd redundancy MMC_OP_ADD"
definition memcache_set where "memcache_set ops env pr cmd redundancy = php_mmc_store ops env pr cmd redundancy MMC_OP_SET"
definition memcache_replace where
  "memcache_replace ops env pr cmd redundancy = php_mmc_store ops env pr cmd redundancy MMC_OP_REPLACE"
definition memcache_cas where "memcache_cas ops env pr cmd redundancy = php_mmc_store ops env pr cmd redundancy MMC_OP_CAS"
definition memcache_append where
  "memcache_append ops env pr cmd redundancy = php_mmc_store ops env pr cmd redundancy MMC_OP_APPEND"
definition memcache_prepend where
  "memcache_prepend ops env pr cmd redundancy = php_mmc_store ops env pr cmd redundancy MMC_OP_PREPEND"

subsection \<open>Deleting and counting\<close>

text \<open>
  \<^verbatim>\<open>exptime\<close> is not parsed for a delete and stays 0. A key is the address of its PHP variable
  and its string.
\<close>

definition numeric_one ::
  "('d, 'o, 'p) client_ops \<Rightarrow> ('d, 'o) client_env \<Rightarrow> ('d, 'o, 'p) client_protocol \<Rightarrow> ('d, 'o, 'p) mmc_commands \<Rightarrow> zend_arrays \<Rightarrow> nat \<Rightarrow>
   bool \<Rightarrow> bool \<Rightarrow> ('d, 'o, ('d, 'o) php_call) value_fun \<Rightarrow> nat \<times> buf \<Rightarrow> 64 word \<Rightarrow> 64 word \<Rightarrow> bool \<Rightarrow> 64 word \<Rightarrow>
   ('d, 'o, 'p) client \<Rightarrow> (int \<times> ('d, 'o, 'p) client) option" where
  "numeric_one ops env pr cmd z redundancy deleted invert value_fun key amount defval defval_used exptime w =
     (let (r, w) = mmc_pool_request pr False mmc_pool_response_handler_null mmc_failover_key w;
          w = upd_req r (\<lambda>req. req\<lparr>r_value := value_fun\<rparr>) w in
      do {
        prepared \<leftarrow> mmc_prepare_key env (snd key);
        case prepared of
          None \<Rightarrow> Some (MMC_REQUEST_FAILURE, warn ''Invalid key'' (mmc_pool_release r w))
        | Some k \<Rightarrow>
            (let w = upd_req r (\<lambda>req. req\<lparr>r_response := mmc_numeric_response_handler z k return_value\<rparr>) (upd_proto r (pr_set_key pr k) w);
                 w = upd_proto r (\<lambda>p.
                       if deleted then cmd_delete cmd p k (ucast exptime)
                       else cmd_mutate cmd p (fst key) k (if invert then - amount else amount) defval defval_used (ucast exptime)) w
             in mmc_pool_schedule_key ops env pr k r redundancy w)
      })"

fun numeric_all ::
  "('d, 'o, 'p) client_ops \<Rightarrow> ('d, 'o) client_env \<Rightarrow> ('d, 'o, 'p) client_protocol \<Rightarrow> ('d, 'o, 'p) mmc_commands \<Rightarrow> zend_arrays \<Rightarrow> nat \<Rightarrow>
   bool \<Rightarrow> bool \<Rightarrow> (nat \<times> buf) list \<Rightarrow> 64 word \<Rightarrow> 64 word \<Rightarrow> bool \<Rightarrow> 64 word \<Rightarrow> ('d, 'o, 'p) client \<Rightarrow> ('d, 'o, 'p) client option" where
  "numeric_all ops env pr cmd z redundancy deleted invert [] amount defval defval_used exptime w = Some w"
| "numeric_all ops env pr cmd z redundancy deleted invert (key # keys) amount defval defval_used exptime w =
     do {
       (result, w) \<leftarrow> numeric_one ops env pr cmd z redundancy deleted invert (mmc_value_handler_multi z False False) key
                         amount defval defval_used exptime w;
       w \<leftarrow> (if result \<noteq> MMC_OK then Some w else op_select ops w);
       numeric_all ops env pr cmd z redundancy deleted invert keys amount defval defval_used exptime w
     }"

datatype user_keys = KeyArray "(nat \<times> buf) list" | OneKey "nat \<times> buf"

definition php_mmc_numeric ::
  "('d, 'o, 'p) client_ops \<Rightarrow> ('d, 'o) client_env \<Rightarrow> ('d, 'o, 'p) client_protocol \<Rightarrow> ('d, 'o, 'p) mmc_commands \<Rightarrow> zend_arrays \<Rightarrow> nat \<Rightarrow>
   bool \<Rightarrow> bool \<Rightarrow> user_keys \<Rightarrow> 64 word \<Rightarrow> 64 word \<Rightarrow> bool \<Rightarrow> 64 word \<Rightarrow> ('d, 'o, 'p) client \<Rightarrow> ('d, 'o, 'p) client option" where
  "php_mmc_numeric ops env pr cmd z redundancy deleted invert keys amount defval defval_used exptime w =
     (if p_servers w = [] then Some (return_to (Val IS_FALSE) w)
      else
        case keys of
          KeyArray ks \<Rightarrow>
            do {
              w \<leftarrow> numeric_all ops env pr cmd z redundancy deleted invert ks amount defval defval_used exptime
                     (return_to (if deleted then Val IS_NULL else Arr []) w);
              map_option null_to_false (mmc_pool_run ops pr w)
            }
        | OneKey key \<Rightarrow>
            do {
              (result, w) \<leftarrow> numeric_one ops env pr cmd z redundancy deleted invert (mmc_value_handler_single False False) key
                                amount defval defval_used exptime (return_to (Val IS_NULL) w);
              if result \<noteq> MMC_OK then Some (return_to (Val IS_FALSE) w)
              else map_option null_to_false (mmc_pool_run ops pr w)
            })"

text \<open>The second argument of a delete is parsed into \<^verbatim>\<open>value\<close>, which a delete does not use.\<close>

definition memcache_delete where
  "memcache_delete ops env pr cmd z redundancy keys amount = php_mmc_numeric ops env pr cmd z redundancy True False keys amount 0 False 0"
definition memcache_increment where
  "memcache_increment ops env pr cmd z redundancy = php_mmc_numeric ops env pr cmd z redundancy False False"
definition memcache_decrement where
  "memcache_decrement ops env pr cmd z redundancy = php_mmc_numeric ops env pr cmd z redundancy False True"

subsection \<open>Reading\<close>

fun get_all ::
  "('d, 'o, 'p) client_ops \<Rightarrow> ('d, 'o) client_env \<Rightarrow> ('d, 'o, 'p) client_protocol \<Rightarrow> bool \<Rightarrow>
   ('d, 'o, ('d, 'o) php_call) value_fun \<Rightarrow> failover_handler \<Rightarrow> (nat \<times> buf) list \<Rightarrow> ('d, 'o, 'p) client \<Rightarrow>
   ('d, 'o, 'p) client option" where
  "get_all ops env pr want_cas value_fun failover [] w = Some w"
| "get_all ops env pr want_cas value_fun failover (key # keys) w =
     do {
       (_, w) \<leftarrow> mmc_pool_schedule_get ops env pr True (if want_cas then MMC_OP_GETS else MMC_OP_GET) key value_fun failover None w;
       get_all ops env pr want_cas value_fun failover keys w
     }"

definition get_one ::
  "('d, 'o, 'p) client_ops \<Rightarrow> ('d, 'o) client_env \<Rightarrow> ('d, 'o, 'p) client_protocol \<Rightarrow> ('d, 'o, 'p) mmc_commands \<Rightarrow>
   bool \<Rightarrow> bool \<Rightarrow> nat \<times> buf \<Rightarrow> ('d, 'o, 'p) client \<Rightarrow> (int \<times> ('d, 'o, 'p) client) option" where
  "get_one ops env pr cmd want_flags want_cas key w =
     (let (r, w) = mmc_pool_request_get pr False (mmc_value_handler_single want_flags want_cas) mmc_failover_key w in
      do {
        prepared \<leftarrow> mmc_prepare_key env (snd key);
        case prepared of
          None \<Rightarrow> Some (MMC_REQUEST_FAILURE, warn ''Invalid key'' (mmc_pool_release r w))
        | Some k \<Rightarrow>
            (let w = upd_proto r (\<lambda>p. cmd_get cmd (pr_set_key pr k p) (if want_cas then MMC_OP_GETS else MMC_OP_GET) (fst key) k) w
             in mmc_pool_schedule_key ops env pr k r 1 w)
      })"

definition memcache_get ::
  "('d, 'o, 'p) client_ops \<Rightarrow> ('d, 'o) client_env \<Rightarrow> ('d, 'o, 'p) client_protocol \<Rightarrow> ('d, 'o, 'p) mmc_commands \<Rightarrow> zend_arrays \<Rightarrow>
   bool \<Rightarrow> bool \<Rightarrow> user_keys \<Rightarrow> ('d, 'o, 'p) client \<Rightarrow> ('d, 'o, 'p) client option" where
  "memcache_get ops env pr cmd z want_flags want_cas keys w =
     (if p_servers w = [] then Some (return_to (Val IS_FALSE) w)
      else
        case keys of
          KeyArray ks \<Rightarrow>
            do {
              w \<leftarrow> get_all ops env pr want_cas (mmc_value_handler_multi z want_flags want_cas) (mmc_failover_value ks want_cas) ks
                     (return_to (Arr []) w);
              map_option null_to_false (mmc_pool_run ops pr w)
            }
        | OneKey key \<Rightarrow>
            do {
              (result, w) \<leftarrow> get_one ops env pr cmd want_flags want_cas key (return_to (Val IS_FALSE) w);
              if result \<noteq> MMC_OK then Some (return_to (Val IS_FALSE) w)
              else map_option null_to_false (mmc_pool_run ops pr w)
            })"

subsection \<open>Commands for every server\<close>

text \<open>One request for one server; the result is \<open>MMC_OK\<close> when it was scheduled.\<close>

definition ask_server ::
  "('d, 'o, 'p) client_ops \<Rightarrow> ('d, 'o, 'p) client_protocol \<Rightarrow> ('d, 'o) php_call response_fun \<Rightarrow> ('p \<Rightarrow> 'p) \<Rightarrow> nat \<Rightarrow>
   ('d, 'o, 'p) client \<Rightarrow> (int \<times> ('d, 'o, 'p) client) option" where
  "ask_server ops pr response command mmc w =
     (let (r, w) = mmc_pool_request pr False response mmc_failover_null w
      in op_schedule ops mmc r (upd_proto r command w))"

text \<open>The loops of version and stats, which stop at the first server that answered.\<close>

fun ask_until ::
  "('d, 'o, 'p) client_ops \<Rightarrow> ('d, 'o, 'p) client_protocol \<Rightarrow> ('d, 'o) php_call response_fun \<Rightarrow> ('p \<Rightarrow> 'p) \<Rightarrow>
   (('d, 'o) php_value \<Rightarrow> bool) \<Rightarrow> nat list \<Rightarrow> ('d, 'o, 'p) client \<Rightarrow> ('d, 'o, 'p) client option" where
  "ask_until ops pr response command answered [] w = Some w"
| "ask_until ops pr response command answered (mmc # servers) w =
     do {
       (result, w) \<leftarrow> ask_server ops pr response command mmc w;
       if result = MMC_OK then do {
         w \<leftarrow> mmc_pool_run ops pr w;
         if answered (c_return (p_user w)) then Some w else ask_until ops pr response command answered servers w
       }
       else ask_until ops pr response command answered servers w
     }"

definition is_string :: "('d, 'o) php_value \<Rightarrow> bool" where
  "is_string v = (case v of Val (IS_STRING s) \<Rightarrow> True | _ \<Rightarrow> False)"

definition memcache_get_version ::
  "('d, 'o, 'p) client_ops \<Rightarrow> ('d, 'o, 'p) client_protocol \<Rightarrow> ('d, 'o, 'p) mmc_commands \<Rightarrow> ('d, 'o, 'p) client \<Rightarrow>
   ('d, 'o, 'p) client option" where
  "memcache_get_version ops pr cmd w =
     (if p_servers w = [] then Some (return_to (Val IS_FALSE) w)
      else map_option null_to_false
        (ask_until ops pr (mmc_version_handler return_value) (cmd_version cmd) is_string (p_servers w) (return_to (Val IS_FALSE) w)))"

definition memcache_get_stats ::
  "('d, 'o, 'p) client_ops \<Rightarrow> ('d, 'o, 'p) client_protocol \<Rightarrow> ('d, 'o, 'p) mmc_commands \<Rightarrow> zend_arrays \<Rightarrow> buf option \<Rightarrow> int \<Rightarrow> int \<Rightarrow>
   ('d, 'o, 'p) client \<Rightarrow> ('d, 'o, 'p) client option" where
  "memcache_get_stats ops pr cmd z type slabid limit w =
     (if p_servers w = [] then Some (return_to (Val IS_FALSE) w)
      else if \<not> mmc_stats_checktype type then Some (return_to (Val IS_FALSE) (warn ''Invalid stats type'' w))
      else do {
        w \<leftarrow> ask_until ops pr (mmc_stats_handler z return_value) (\<lambda>p. cmd_stats cmd p type slabid limit)
               (\<lambda>v. v \<noteq> Val IS_FALSE) (p_servers w) (return_to (Val IS_FALSE) w);
        map_option null_to_false (mmc_pool_run ops pr w)
      })"

text \<open>\<^verbatim>\<open>"%s:%u"\<close> of a server, the key of its entry, and a pointer to that entry.\<close>

definition server_name :: "mmc_t \<Rightarrow> buf" where
  "server_name mmc = c_string (m_host mmc) @ 58 # dec (st_port (m_tcp mmc))"

definition entry_ptr :: "array_key \<Rightarrow> ('d, 'o) zval_ptr" where
  "entry_ptr k =
     \<lparr>deref = (\<lambda>c. case map_of (entries (c_return c)) k of Some v \<Rightarrow> v | None \<Rightarrow> Val IS_NULL),
      assign = (\<lambda>v c. c\<lparr>c_return := Arr (arr_update k v (entries (c_return c)))\<rparr>)\<rparr>"

fun extended_stats ::
  "('d, 'o, 'p) client_ops \<Rightarrow> ('d, 'o, 'p) client_protocol \<Rightarrow> zend_arrays \<Rightarrow> ('p \<Rightarrow> 'p) \<Rightarrow> nat list \<Rightarrow> ('d, 'o, 'p) client \<Rightarrow>
   ('d, 'o, 'p) client option" where
  "extended_stats ops pr z command [] w = Some w"
| "extended_stats ops pr z command (mmc # servers) w =
     (let name = server_name (p_mmc w mmc);
          w = upd_call (\<lambda>c. c\<lparr>c_return := Arr (add_assoc z name (Val IS_FALSE) (entries (c_return c)))\<rparr>) w in
      do {
        (result, w) \<leftarrow> ask_server ops pr (mmc_stats_handler z (entry_ptr (symtable_key z name))) command mmc w;
        w \<leftarrow> (if result = MMC_OK then mmc_pool_run ops pr w else Some w);
        extended_stats ops pr z command servers w
      })"

definition memcache_get_extended_stats ::
  "('d, 'o, 'p) client_ops \<Rightarrow> ('d, 'o, 'p) client_protocol \<Rightarrow> ('d, 'o, 'p) mmc_commands \<Rightarrow> zend_arrays \<Rightarrow> buf option \<Rightarrow> int \<Rightarrow> int \<Rightarrow>
   ('d, 'o, 'p) client \<Rightarrow> ('d, 'o, 'p) client option" where
  "memcache_get_extended_stats ops pr cmd z type slabid limit w =
     (if p_servers w = [] then Some (return_to (Val IS_FALSE) w)
      else if \<not> mmc_stats_checktype type then Some (return_to (Val IS_FALSE) (warn ''Invalid stats type'' w))
      else do {
        w \<leftarrow> extended_stats ops pr z (\<lambda>p. cmd_stats cmd p type slabid limit) (p_servers w) (return_to (Arr []) w);
        map_option null_to_false (mmc_pool_run ops pr w)
      })"

text \<open>The delay is cut to an \<^verbatim>\<open>unsigned int\<close>; the number of answers is compared as one.\<close>

fun flush_all ::
  "('d, 'o, 'p) client_ops \<Rightarrow> ('d, 'o, 'p) client_protocol \<Rightarrow> ('p \<Rightarrow> 'p) \<Rightarrow> nat list \<Rightarrow> ('d, 'o, 'p) client \<Rightarrow> ('d, 'o, 'p) client option" where
  "flush_all ops pr command [] w = Some w"
| "flush_all ops pr command (mmc # servers) w =
     do {
       (result, w) \<leftarrow> ask_server ops pr mmc_flush_handler command mmc w;
       w \<leftarrow> (if result = MMC_OK then op_select ops w else Some w);
       flush_all ops pr command servers w
     }"

definition memcache_flush ::
  "('d, 'o, 'p) client_ops \<Rightarrow> ('d, 'o, 'p) client_protocol \<Rightarrow> ('d, 'o, 'p) mmc_commands \<Rightarrow> 64 word \<Rightarrow> ('d, 'o, 'p) client \<Rightarrow>
   ('d, 'o, 'p) client option" where
  "memcache_flush ops pr cmd delay w =
     do {
       w \<leftarrow> flush_all ops pr (\<lambda>p. cmd_flush cmd p (ucast delay)) (p_servers w) (upd_call (\<lambda>c. c\<lparr>c_responses := 0\<rparr>) w);
       w \<leftarrow> mmc_pool_run ops pr w;
       Some (return_to (Val (if unat (c_responses (p_user w)) < length (p_servers w) then IS_FALSE else IS_TRUE)) w)
     }"

text \<open>\<^verbatim>\<open>MemcachePool::findServer\<close>, with the port printed by \<^verbatim>\<open>"%d"\<close>.\<close>

definition memcache_pool_findserver :: "('d, 'o) client_env \<Rightarrow> buf \<Rightarrow> ('d, 'o, 'p) client \<Rightarrow> ('d, 'o, 'p) client option" where
  "memcache_pool_findserver env zkey w =
     (if p_servers w = [] then Some (return_to (Val IS_FALSE) w)
      else do {
        prepared \<leftarrow> mmc_prepare_key env zkey;
        case prepared of
          None \<Rightarrow> Some (return_to (Val IS_FALSE) (warn ''Invalid key'' w))
        | Some key \<Rightarrow>
            do {
              (mmc, w) \<leftarrow> mmc_pool_find env key w;
              Some (return_to (Val (IS_STRING (server_name (p_mmc w mmc)))) w)
            }
      })"

end
