(* ===== verification/Mmc_Settings.thy ===== *)
theory Mmc_Settings
  imports Mmc_Pool
begin

text \<open>
  The settings of the module: the checks that \<^verbatim>\<open>src/memcache.c\<close> makes when an INI entry is
  changed, the initial values, and the compression settings of a pool.

  A check gets the text of the new value and the settings; \<open>None\<close> is FAILURE, with a warning
  and the settings as they were. \<open>zend_atol\<close> is the conversion that PHP's \<^verbatim>\<open>OnUpdateLong\<close> makes.
\<close>

subsection \<open>The settings\<close>

record mmc_globals =
  g_chunk_size :: int
  g_protocol :: int
  g_hash_strategy :: int
  g_hash_function :: int
  g_failover_attempts :: int
  g_redundancy :: int
  g_session_redundancy :: int
  g_compress_threshold :: int
  g_lock_timeout :: int
  g_select_api :: int
  g_session_prefix_static_key :: "buf option"
  g_prefix_static_key :: "buf option"

definition MMC_ASCII_PROTOCOL :: int where [mmc_consts]: "MMC_ASCII_PROTOCOL = 1"
definition MMC_BINARY_PROTOCOL :: int where [mmc_consts]: "MMC_BINARY_PROTOCOL = 2"

subsection \<open>Numbers\<close>

text \<open>
  \<^verbatim>\<open>strtol(text, &endptr, 10)\<close> of a C string: the value and what \<^verbatim>\<open>endptr\<close> points to, which is
  the whole text when it has no digit.
\<close>

definition strtol_end :: "buf \<Rightarrow> int \<times> buf" where
  "strtol_end text =
     (case scan_int (c_string text) of
        None \<Rightarrow> (0, c_string text)
      | Some (v, rest) \<Rightarrow> (max (- (2 ^ 63)) (min (2 ^ 63 - 1) v), rest))"

text \<open>The common check: the text is a number that is at least \<open>least\<close>.\<close>

definition number_at_least :: "int \<Rightarrow> buf \<Rightarrow> bool" where
  "number_at_least least text = (let (val, rest) = strtol_end text in \<not> (rest \<noteq> [] \<or> val < least))"

definition OnUpdateChunkSize :: "(buf \<Rightarrow> int) \<Rightarrow> buf \<Rightarrow> mmc_globals \<Rightarrow> mmc_globals option" where
  "OnUpdateChunkSize zend_atol text g =
     (if number_at_least 1 text then Some (g\<lparr>g_chunk_size := zend_atol text\<rparr>) else None)"

definition OnUpdateFailoverAttempts :: "(buf \<Rightarrow> int) \<Rightarrow> buf \<Rightarrow> mmc_globals \<Rightarrow> mmc_globals option" where
  "OnUpdateFailoverAttempts zend_atol text g =
     (if number_at_least 1 text then Some (g\<lparr>g_failover_attempts := zend_atol text\<rparr>) else None)"

text \<open>One check for two entries.\<close>

definition OnUpdateRedundancy :: "(buf \<Rightarrow> int) \<Rightarrow> bool \<Rightarrow> buf \<Rightarrow> mmc_globals \<Rightarrow> mmc_globals option" where
  "OnUpdateRedundancy zend_atol session text g =
     (if number_at_least 1 text
      then Some (if session then g\<lparr>g_session_redundancy := zend_atol text\<rparr> else g\<lparr>g_redundancy := zend_atol text\<rparr>)
      else None)"

definition OnUpdateCompressThreshold :: "(buf \<Rightarrow> int) \<Rightarrow> buf \<Rightarrow> mmc_globals \<Rightarrow> mmc_globals option" where
  "OnUpdateCompressThreshold zend_atol text g =
     (if number_at_least 0 text then Some (g\<lparr>g_compress_threshold := zend_atol text\<rparr>) else None)"

definition OnUpdateLockTimeout :: "(buf \<Rightarrow> int) \<Rightarrow> buf \<Rightarrow> mmc_globals \<Rightarrow> mmc_globals option" where
  "OnUpdateLockTimeout zend_atol text g =
     (if number_at_least 1 text then Some (g\<lparr>g_lock_timeout := zend_atol text\<rparr>) else None)"

subsection \<open>Names and prefixes\<close>

definition strcasecmp_eq :: "buf \<Rightarrow> string \<Rightarrow> bool" where
  "strcasecmp_eq text name \<longleftrightarrow> map tolower (c_string text) = map tolower (bytes name)"

definition OnUpdateProtocol :: "buf \<Rightarrow> mmc_globals \<Rightarrow> mmc_globals option" where
  "OnUpdateProtocol text g =
     (if strcasecmp_eq text ''ascii'' then Some (g\<lparr>g_protocol := MMC_ASCII_PROTOCOL\<rparr>)
      else if strcasecmp_eq text ''binary'' then Some (g\<lparr>g_protocol := MMC_BINARY_PROTOCOL\<rparr>)
      else None)"

definition OnUpdateHashStrategy :: "buf \<Rightarrow> mmc_globals \<Rightarrow> mmc_globals option" where
  "OnUpdateHashStrategy text g =
     (if strcasecmp_eq text ''standard'' then Some (g\<lparr>g_hash_strategy := MMC_STANDARD_HASH\<rparr>)
      else if strcasecmp_eq text ''consistent'' then Some (g\<lparr>g_hash_strategy := MMC_CONSISTENT_HASH\<rparr>)
      else None)"

definition OnUpdateHashFunction :: "buf \<Rightarrow> mmc_globals \<Rightarrow> mmc_globals option" where
  "OnUpdateHashFunction text g =
     (if strcasecmp_eq text ''crc32'' then Some (g\<lparr>g_hash_function := MMC_HASH_CRC32\<rparr>)
      else if strcasecmp_eq text ''fnv'' then Some (g\<lparr>g_hash_function := MMC_HASH_FNV1A\<rparr>)
      else None)"

text \<open>The variant of systems other than Windows.\<close>

definition OnUpdateSelectApi :: "buf \<Rightarrow> mmc_globals \<Rightarrow> mmc_globals option" where
  "OnUpdateSelectApi text g =
     (if strcasecmp_eq text ''select'' then Some (g\<lparr>g_select_api := MMC_API_SELECT\<rparr>)
      else if strcasecmp_eq text ''poll'' then Some (g\<lparr>g_select_api := MMC_API_POLL\<rparr>)
      else None)"

text \<open>One check for two entries; without a new value the entry becomes NULL.\<close>

definition OnUpdatePrefixStaticKey :: "bool \<Rightarrow> buf option \<Rightarrow> mmc_globals \<Rightarrow> mmc_globals option" where
  "OnUpdatePrefixStaticKey session text g =
     (if (case text of None \<Rightarrow> False | Some t \<Rightarrow> 46 \<in> set t) then None
      else Some (if session then g\<lparr>g_session_prefix_static_key := text\<rparr> else g\<lparr>g_prefix_static_key := text\<rparr>))"

subsection \<open>Initial values\<close>

definition php_memcache_init_globals :: "mmc_globals \<Rightarrow> mmc_globals" where
  "php_memcache_init_globals g =
     g\<lparr>g_hash_strategy := MMC_STANDARD_HASH, g_hash_function := MMC_HASH_CRC32, g_select_api := MMC_API_SELECT\<rparr>"

text \<open>The defaults of the INI entries are put through the same checks when they are registered.\<close>

definition ini_defaults :: "(buf \<Rightarrow> int) \<Rightarrow> mmc_globals \<Rightarrow> mmc_globals option" where
  "ini_defaults zend_atol g =
     do {
       let g = php_memcache_init_globals g;
       g \<leftarrow> OnUpdateFailoverAttempts zend_atol (bytes ''20'') g;
       g \<leftarrow> OnUpdateChunkSize zend_atol (bytes ''32768'') g;
       g \<leftarrow> OnUpdateProtocol (bytes ''ascii'') g;
       g \<leftarrow> OnUpdateHashStrategy (bytes ''consistent'') g;
       g \<leftarrow> OnUpdateHashFunction (bytes ''crc32'') g;
       g \<leftarrow> OnUpdateRedundancy zend_atol False (bytes ''1'') g;
       g \<leftarrow> OnUpdateRedundancy zend_atol True (bytes ''2'') g;
       g \<leftarrow> OnUpdateCompressThreshold zend_atol (bytes ''20000'') g;
       g \<leftarrow> OnUpdateLockTimeout zend_atol (bytes ''15'') g;
       g \<leftarrow> OnUpdateSelectApi (bytes ''select'') g;
       g \<leftarrow> OnUpdatePrefixStaticKey True None g;
       OnUpdatePrefixStaticKey False None g
     }"

subsection \<open>Every sequence of changes\<close>

datatype ini_change =
    Set_chunk_size buf | Set_failover_attempts buf | Set_redundancy bool buf | Set_compress_threshold buf | Set_lock_timeout buf
  | Set_protocol buf | Set_hash_strategy buf | Set_hash_function buf | Set_select_api buf | Set_prefix_static_key bool "buf option"

fun apply_change :: "(buf \<Rightarrow> int) \<Rightarrow> ini_change \<Rightarrow> mmc_globals \<Rightarrow> mmc_globals option" where
  "apply_change zend_atol (Set_chunk_size t) = OnUpdateChunkSize zend_atol t"
| "apply_change zend_atol (Set_failover_attempts t) = OnUpdateFailoverAttempts zend_atol t"
| "apply_change zend_atol (Set_redundancy s t) = OnUpdateRedundancy zend_atol s t"
| "apply_change zend_atol (Set_compress_threshold t) = OnUpdateCompressThreshold zend_atol t"
| "apply_change zend_atol (Set_lock_timeout t) = OnUpdateLockTimeout zend_atol t"
| "apply_change zend_atol (Set_protocol t) = OnUpdateProtocol t"
| "apply_change zend_atol (Set_hash_strategy t) = OnUpdateHashStrategy t"
| "apply_change zend_atol (Set_hash_function t) = OnUpdateHashFunction t"
| "apply_change zend_atol (Set_select_api t) = OnUpdateSelectApi t"
| "apply_change zend_atol (Set_prefix_static_key s t) = OnUpdatePrefixStaticKey s t"

text \<open>A change that fails leaves the settings as they were.\<close>

definition ini_changes :: "(buf \<Rightarrow> int) \<Rightarrow> ini_change list \<Rightarrow> mmc_globals \<Rightarrow> mmc_globals" where
  "ini_changes zend_atol = fold (\<lambda>c g. case apply_change zend_atol c g of None \<Rightarrow> g | Some g \<Rightarrow> g)"

text \<open>What the rest of the extension relies on.\<close>

definition settings_ok :: "mmc_globals \<Rightarrow> bool" where
  "settings_ok g \<longleftrightarrow>
     g_chunk_size g > 0 \<and> g_failover_attempts g > 0 \<and> g_redundancy g > 0 \<and> g_session_redundancy g > 0 \<and>
     g_compress_threshold g \<ge> 0 \<and> g_lock_timeout g > 0 \<and>
     g_protocol g \<in> {MMC_ASCII_PROTOCOL, MMC_BINARY_PROTOCOL} \<and> g_hash_strategy g \<in> {MMC_STANDARD_HASH, MMC_CONSISTENT_HASH} \<and>
     g_hash_function g \<in> {MMC_HASH_CRC32, MMC_HASH_FNV1A} \<and> g_select_api g \<in> {MMC_API_SELECT, MMC_API_POLL} \<and>
     (\<forall>p. g_session_prefix_static_key g = Some p \<longrightarrow> 46 \<notin> set p) \<and> (\<forall>p. g_prefix_static_key g = Some p \<longrightarrow> 46 \<notin> set p)"

text \<open>PHP converts a text that is a number as a whole to that number.\<close>

definition atol_reads :: "(buf \<Rightarrow> int) \<Rightarrow> bool" where
  "atol_reads zend_atol \<longleftrightarrow> (\<forall>text. snd (strtol_end text) = [] \<longrightarrow> zend_atol text = fst (strtol_end text))"

lemmas ini_checks =
  OnUpdateChunkSize_def OnUpdateFailoverAttempts_def OnUpdateRedundancy_def OnUpdateCompressThreshold_def OnUpdateLockTimeout_def
  OnUpdateProtocol_def OnUpdateHashStrategy_def OnUpdateHashFunction_def OnUpdateSelectApi_def OnUpdatePrefixStaticKey_def

lemma number_at_least_atol: "atol_reads zend_atol \<Longrightarrow> number_at_least least text \<Longrightarrow> zend_atol text \<ge> least"
  by (auto simp: atol_reads_def number_at_least_def split: prod.splits)

lemma settings_numbers:
  assumes "settings_ok g"
  shows "v \<ge> 1 \<Longrightarrow> settings_ok (g\<lparr>g_chunk_size := v\<rparr>)" "v \<ge> 1 \<Longrightarrow> settings_ok (g\<lparr>g_failover_attempts := v\<rparr>)"
    "v \<ge> 1 \<Longrightarrow> settings_ok (g\<lparr>g_redundancy := v\<rparr>)" "v \<ge> 1 \<Longrightarrow> settings_ok (g\<lparr>g_session_redundancy := v\<rparr>)"
    "v \<ge> 0 \<Longrightarrow> settings_ok (g\<lparr>g_compress_threshold := v\<rparr>)" "v \<ge> 1 \<Longrightarrow> settings_ok (g\<lparr>g_lock_timeout := v\<rparr>)"
  using assms by (simp_all add: settings_ok_def)

lemma settings_names:
  assumes "settings_ok g"
  shows "settings_ok (g\<lparr>g_protocol := MMC_ASCII_PROTOCOL\<rparr>)" "settings_ok (g\<lparr>g_protocol := MMC_BINARY_PROTOCOL\<rparr>)"
    "settings_ok (g\<lparr>g_hash_strategy := MMC_STANDARD_HASH\<rparr>)" "settings_ok (g\<lparr>g_hash_strategy := MMC_CONSISTENT_HASH\<rparr>)"
    "settings_ok (g\<lparr>g_hash_function := MMC_HASH_CRC32\<rparr>)" "settings_ok (g\<lparr>g_hash_function := MMC_HASH_FNV1A\<rparr>)"
    "settings_ok (g\<lparr>g_select_api := MMC_API_SELECT\<rparr>)" "settings_ok (g\<lparr>g_select_api := MMC_API_POLL\<rparr>)"
    "\<forall>p. text = Some p \<longrightarrow> 46 \<notin> set p \<Longrightarrow> settings_ok (g\<lparr>g_session_prefix_static_key := text\<rparr>)"
    "\<forall>p. text = Some p \<longrightarrow> 46 \<notin> set p \<Longrightarrow> settings_ok (g\<lparr>g_prefix_static_key := text\<rparr>)"
  using assms by (simp_all add: settings_ok_def)

lemma ini_change_ok:
  assumes "atol_reads zend_atol" and "settings_ok g" and "apply_change zend_atol c g = Some g'"
  shows "settings_ok g'"
  using assms(3) number_at_least_atol [OF assms(1)]
  by (cases c) (auto simp: ini_checks settings_numbers [OF assms(2)] settings_names [OF assms(2)] split: if_splits option.splits)

lemma ini_changes_ok: "atol_reads zend_atol \<Longrightarrow> settings_ok g \<Longrightarrow> settings_ok (ini_changes zend_atol cs g)"
  by (induction cs arbitrary: g) (auto simp: ini_changes_def intro: ini_change_ok split: option.splits)

lemma defaults_numbers:
  "strtol_end (bytes ''20'') = (20, [])" "strtol_end (bytes ''32768'') = (32768, [])" "strtol_end (bytes ''1'') = (1, [])"
  "strtol_end (bytes ''2'') = (2, [])" "strtol_end (bytes ''20000'') = (20000, [])" "strtol_end (bytes ''15'') = (15, [])"
  by (simp_all add: strtol_end_def scan_int_def c_string_def bytes_def of_char_def is_space_def is_digit_def word_le_nat_alt Let_def)

lemma defaults_names:
  "strcasecmp_eq (bytes ''ascii'') ''ascii''" "\<not> strcasecmp_eq (bytes ''consistent'') ''standard''"
  "strcasecmp_eq (bytes ''consistent'') ''consistent''" "strcasecmp_eq (bytes ''crc32'') ''crc32''"
  "strcasecmp_eq (bytes ''select'') ''select''"
  by (simp_all add: strcasecmp_eq_def c_string_def bytes_def of_char_def tolower_def)

lemma defaults_ok: "atol_reads zend_atol \<Longrightarrow> \<exists>g0. ini_defaults zend_atol g = Some g0 \<and> settings_ok g0"
  by (simp add: ini_defaults_def ini_checks number_at_least_def defaults_numbers defaults_names settings_ok_def atol_reads_def)

text \<open>
  The settings stay valid: the defaults pass their own checks, and after any sequence of
  changes, accepted or not, the chunk size, the numbers of attempts and copies and the lock
  timeout are positive, the threshold is not negative, protocol, hash strategy, hash function
  and select API are ones the pool knows, and no prefix has a dot.
\<close>

theorem settings_stay_valid:
  assumes "atol_reads zend_atol"
  shows "\<exists>g0. ini_defaults zend_atol g = Some g0 \<and> settings_ok (ini_changes zend_atol cs g0)"
  using defaults_ok [OF assms, of g] ini_changes_ok [OF assms] by blast

theorem settings_stay_valid_witness:
  "\<exists>g0. ini_defaults (\<lambda>t. fst (strtol_end t)) \<lparr>g_chunk_size = 0, g_protocol = 0, g_hash_strategy = 0, g_hash_function = 0,
        g_failover_attempts = 0, g_redundancy = 0, g_session_redundancy = 0, g_compress_threshold = 0, g_lock_timeout = 0,
        g_select_api = 0, g_session_prefix_static_key = None, g_prefix_static_key = None\<rparr> = Some g0 \<and>
     settings_ok (ini_changes (\<lambda>t. fst (strtol_end t)) [Set_chunk_size (bytes ''-5''), Set_protocol (bytes ''Binary'')] g0)"
proof -
  have "atol_reads (\<lambda>t. fst (strtol_end t))" by (simp add: atol_reads_def)
  from settings_stay_valid [OF this] show ?thesis by blast
qed

end
