(* ===== verification/Mmc_Servers.thy ===== *)
theory Mmc_Servers
  imports Mmc_Client Mmc_Settings
begin

text \<open>
  The functions of \<^verbatim>\<open>src/memcache.c\<close> that add servers to a pool and change them: the list of
  persistent servers, \<^verbatim>\<open>addServer\<close> and \<^verbatim>\<open>connect\<close> in their variants, the server parameters and
  status, closing, the compression settings and the credentials.
\<close>

subsection \<open>Persistent servers\<close>

text \<open>
  The list maps a name to an entry, which is a server or something else. \<open>addr\<close> is the address
  that an allocation gives.
\<close>

datatype persistent_entry = Server_entry nat | Other_entry

type_synonym persistent_list = "buf \<Rightarrow> persistent_entry option"

definition persistent_key :: "buf \<Rightarrow> nat \<Rightarrow> nat \<Rightarrow> buf" where
  "persistent_key host port udp_port =
     bytes ''memcache:server:'' @ c_string host @ 58 # dec port @ 58 # dec udp_port"

text \<open>
  A server that is found is asked to prove its connection before it is failed over. The name is
  made of the C string \<open>host\<close>, a new server gets its first \<open>host_len\<close> bytes.
\<close>

definition unknown_status :: "mmc_stream_t \<Rightarrow> mmc_stream_t" where
  "unknown_status io = (if st_status io = MMC_STATUS_CONNECTED then io\<lparr>st_status := MMC_STATUS_UNKNOWN\<rparr> else io)"

definition reuse_server :: "int \<Rightarrow> int \<Rightarrow> mmc_t \<Rightarrow> mmc_t" where
  "reuse_server timeout retry_interval mmc =
     mmc\<lparr>m_timeout := timeout, m_tcp := unknown_status ((m_tcp mmc)\<lparr>st_retry_interval := retry_interval\<rparr>),
         m_udp := unknown_status (m_udp mmc)\<rparr>"

definition mmc_find_persistent ::
  "int \<Rightarrow> nat \<Rightarrow> buf \<Rightarrow> nat \<Rightarrow> nat \<Rightarrow> nat \<Rightarrow> int \<Rightarrow> int \<Rightarrow> persistent_list \<Rightarrow> ('d, 'o, 'p) client \<Rightarrow>
   nat \<times> persistent_list \<times> ('d, 'o, 'p) client" where
  "mmc_find_persistent chunk_size addr host host_len port udp_port timeout retry_interval pl w =
     (let key = persistent_key host port udp_port in
      case pl key of
        Some (Server_entry m) \<Rightarrow> (m, pl, upd_mmc m (reuse_server timeout retry_interval) w)
      | _ \<Rightarrow> (addr, pl(key \<mapsto> Server_entry addr),
               upd_mmc addr (\<lambda>_. mmc_server_new chunk_size (take host_len host) port udp_port True timeout retry_interval) w))"

subsection \<open>Credentials\<close>

text \<open>
  The answer to the authentication is stored through a pointer to a local variable of the
  function that has returned by then.
\<close>

definition dead_variable :: "('d, 'o) zval_ptr" where
  "dead_variable = \<lparr>deref = (\<lambda>c. Val IS_NULL), assign = (\<lambda>v c. c\<lparr>c_fault := True\<rparr>)\<rparr>"

text \<open>
  The key of the request is \<^verbatim>\<open>"PLAIN"\<close> and its length 0: the hash is taken of no byte at all,
  the failover sequence of the C string.
\<close>

definition schedule_auth ::
  "('d, 'o, 'p) client_ops \<Rightarrow> ('d, 'o) client_env \<Rightarrow> ('d, 'o, 'p) client_protocol \<Rightarrow> nat \<Rightarrow> nat \<Rightarrow> ('d, 'o, 'p) client \<Rightarrow>
   (int \<times> ('d, 'o, 'p) client) option" where
  "schedule_auth ops env pr r redundancy w =
     do {
       (mmc, w) \<leftarrow> find_server env [] w;
       (mmc, w) \<leftarrow> (if \<not> server_valid env w mmc \<and> g_allow_failover env then find_valid env (bytes ''PLAIN'') 0 w else Some (mmc, w));
       (result, w) \<leftarrow> op_schedule ops mmc r w;
       w \<leftarrow> (if redundancy > 1
             then schedule_clones ops env pr (bytes ''PLAIN'') r (min (redundancy - 1) (length (p_servers w) - 1)) mmc fq_zero 0 w
             else Some w);
       Some (result, w)
     }"

definition authenticate ::
  "('d, 'o, 'p) client_ops \<Rightarrow> ('d, 'o) client_env \<Rightarrow> ('d, 'o, 'p) client_protocol \<Rightarrow> ('d, 'o, 'p) mmc_commands \<Rightarrow> nat \<Rightarrow> buf \<Rightarrow> buf \<Rightarrow>
   ('d, 'o, 'p) client \<Rightarrow> (int \<times> ('d, 'o, 'p) client) option" where
  "authenticate ops env pr cmd redundancy username password w =
     (let (r, w) = mmc_pool_request pr False (mmc_stored_handler dead_variable) mmc_failover_key w
      in schedule_auth ops env pr r redundancy (upd_proto r (\<lambda>p. cmd_sasl cmd p username password) w))"

subsection \<open>Adding a server\<close>

text \<open>What a caller asks for; the ports, the weight and the interval are \<^verbatim>\<open>long\<close>.\<close>

record server_args =
  sa_host :: buf
  sa_tcp_port :: int
  sa_udp_port :: int
  sa_weight :: int
  sa_persistent :: bool
  sa_timeout :: int
  sa_retry_interval :: int
  sa_status :: bool

definition unsigned_short :: "int \<Rightarrow> nat" where
  "unsigned_short i = nat (i mod 65536)"

definition failed_mode :: "mmc_t \<Rightarrow> mmc_t" where
  "failed_mode mmc = mmc\<lparr>m_tcp := (m_tcp mmc)\<lparr>st_status := MMC_STATUS_FAILED\<rparr>, m_udp := (m_udp mmc)\<lparr>st_status := MMC_STATUS_FAILED\<rparr>\<rparr>"

text \<open>The server, new or found, before it joins the pool.\<close>

definition make_server ::
  "int \<Rightarrow> nat \<Rightarrow> server_args \<Rightarrow> int \<Rightarrow> persistent_list \<Rightarrow> ('d, 'o, 'p) client \<Rightarrow> nat \<times> persistent_list \<times> ('d, 'o, 'p) client" where
  "make_server chunk_size addr sa udp_port pl w =
     (let tcp = unsigned_short (sa_tcp_port sa); udp = unsigned_short udp_port;
          (mmc, pl, w) =
            (if sa_persistent sa \<and> sa_status sa
             then mmc_find_persistent chunk_size addr (sa_host sa) (length (sa_host sa)) tcp udp (sa_timeout sa) (sa_retry_interval sa) pl w
             else (addr, pl, upd_mmc addr (\<lambda>_. mmc_server_new chunk_size (sa_host sa) tcp udp False (sa_timeout sa) (sa_retry_interval sa)) w))
      in (mmc, pl, if sa_status sa then w else upd_mmc mmc failed_mode w))"

text \<open>
  The result is the server, or nothing (NULL). \<open>auth\<close> is the credentials of the object when
  both are strings; the ones of a single byte are not used.
\<close>

definition php_mmc_pool_addserver ::
  "('d, 'o, 'p) client_ops \<Rightarrow> ('d, 'o) client_env \<Rightarrow> ('d, 'o, 'p) client_protocol \<Rightarrow> ('d, 'o, 'p) mmc_commands \<Rightarrow> nat \<Rightarrow> bool \<Rightarrow>
   int \<Rightarrow> nat \<Rightarrow> (buf \<times> buf) option \<Rightarrow> server_args \<Rightarrow> persistent_list \<Rightarrow> ('d, 'o, 'p) client \<Rightarrow>
   (nat option \<times> persistent_list \<times> ('d, 'o, 'p) client) option" where
  "php_mmc_pool_addserver ops env pr cmd redundancy binary chunk_size addr auth sa pl w =
     (if sa_weight sa < 1 then Some (None, pl, warn ''weight must be a positive integer'' w)
      else if sa_tcp_port sa > 65635 \<or> sa_tcp_port sa < 0 then Some (None, pl, warn ''invalid tcp port number'' w)
      else if sa_udp_port sa > 65635 \<or> sa_udp_port sa < 0 then Some (None, pl, warn ''invalid udp port number'' w)
      else
        let (udp_port, w) =
              (if sa_udp_port sa \<noteq> 0 \<and> binary
               then (0, warn ''binary protocol is not supported over UDP, defaulting to TCP'' w) else (sa_udp_port sa, w));
            (mmc, pl, w) = make_server chunk_size addr sa udp_port pl w
        in do {
          w \<leftarrow> mmc_pool_add mmc (word_of_int (sa_weight sa)) w;
          case auth of
            Some (username, password) \<Rightarrow>
              (if binary \<and> length username > 1 \<and> length password > 1 then
                 do {
                   (result, w) \<leftarrow> authenticate ops env pr cmd redundancy username password w;
                   Some (if result \<noteq> MMC_OK then None else Some mmc, pl, w)
                 }
               else Some (Some mmc, pl, w))
          | None \<Rightarrow> Some (Some mmc, pl, w)
        })"

text \<open>
  \<^verbatim>\<open>MemcachePool::addServer\<close> and \<^verbatim>\<open>memcache_add_server\<close>, whose callback is checked first. A
  callback is missing, NULL, or given and callable or not; it is changed or cleared.
\<close>

datatype callback_arg = NoCallback | NullCallback | Callback bool

datatype callback_change = KeepCallback | ClearCallback | SetCallback

definition memcache_pool_addserver ::
  "('d, 'o, 'p) client_ops \<Rightarrow> ('d, 'o) client_env \<Rightarrow> ('d, 'o, 'p) client_protocol \<Rightarrow> ('d, 'o, 'p) mmc_commands \<Rightarrow> nat \<Rightarrow> bool \<Rightarrow>
   int \<Rightarrow> nat \<Rightarrow> (buf \<times> buf) option \<Rightarrow> server_args \<Rightarrow> persistent_list \<Rightarrow> ('d, 'o, 'p) client \<Rightarrow>
   (persistent_list \<times> ('d, 'o, 'p) client) option" where
  "memcache_pool_addserver ops env pr cmd redundancy binary chunk_size addr auth sa pl w =
     do {
       (mmc, pl, w) \<leftarrow> php_mmc_pool_addserver ops env pr cmd redundancy binary chunk_size addr auth sa pl w;
       Some (pl, return_to (Val (if mmc = None then IS_FALSE else IS_TRUE)) w)
     }"

definition memcache_add_server ::
  "('d, 'o, 'p) client_ops \<Rightarrow> ('d, 'o) client_env \<Rightarrow> ('d, 'o, 'p) client_protocol \<Rightarrow> ('d, 'o, 'p) mmc_commands \<Rightarrow> nat \<Rightarrow> bool \<Rightarrow>
   int \<Rightarrow> nat \<Rightarrow> (buf \<times> buf) option \<Rightarrow> server_args \<Rightarrow> callback_arg \<Rightarrow> persistent_list \<Rightarrow> ('d, 'o, 'p) client \<Rightarrow>
   (callback_change \<times> persistent_list \<times> ('d, 'o, 'p) client) option" where
  "memcache_add_server ops env pr cmd redundancy binary chunk_size addr auth sa callback pl w =
     (if callback = Callback False then Some (KeepCallback, pl, return_to (Val IS_FALSE) (warn ''Invalid failure callback'' w))
      else do {
        (mmc, pl, w) \<leftarrow> php_mmc_pool_addserver ops env pr cmd redundancy binary chunk_size addr auth (sa\<lparr>sa_udp_port := 0\<rparr>) pl w;
        if mmc = None then Some (KeepCallback, pl, return_to (Val IS_FALSE) w)
        else Some (if callback = Callback True then SetCallback else KeepCallback, pl, return_to (Val IS_TRUE) w)
      })"

text \<open>
  \<^verbatim>\<open>MemcachePool::connect\<close>: a persistent connection at its end is closed, and the server is
  connected now. \<^verbatim>\<open>memcache_connect\<close> and \<^verbatim>\<open>memcache_pconnect\<close> do it with fewer arguments; without
  an object they return the new one where the method returns TRUE.
\<close>

definition memcache_pool_connect ::
  "('d, 'o, 'p) client_ops \<Rightarrow> ('d, 'o) client_env \<Rightarrow> ('d, 'o, 'p) client_protocol \<Rightarrow> ('d, 'o, 'p) mmc_commands \<Rightarrow> nat \<Rightarrow> bool \<Rightarrow>
   int \<Rightarrow> nat \<Rightarrow> (buf \<times> buf) option \<Rightarrow> server_args \<Rightarrow> persistent_list \<Rightarrow> ('d, 'o, 'p) client \<Rightarrow>
   (persistent_list \<times> ('d, 'o, 'p) client) option" where
  "memcache_pool_connect ops env pr cmd redundancy binary chunk_size addr auth sa pl w =
     do {
       (mmc, pl, w) \<leftarrow> php_mmc_pool_addserver ops env pr cmd redundancy binary chunk_size addr auth (sa\<lparr>sa_status := True\<rparr>) pl w;
       case mmc of
         None \<Rightarrow> Some (pl, return_to (Val IS_FALSE) w)
       | Some m \<Rightarrow>
           (let w = (if st_stream (m_tcp (p_mmc w m)) = None then w
                     else if e_eof env (p_calls w) then upd_mmc m (mmc_server_disconnect False) (tick w) else tick w)
            in do {
              (result, w) \<leftarrow> mmc_pool_open ops env pr m False w;
              Some (pl, if result \<noteq> MMC_OK then return_to (Val IS_FALSE) (warn ''Cannot connect'' w) else return_to (Val IS_TRUE) w)
            })
     }"

definition php_mmc_connect ::
  "('d, 'o, 'p) client_ops \<Rightarrow> ('d, 'o) client_env \<Rightarrow> ('d, 'o, 'p) client_protocol \<Rightarrow> ('d, 'o, 'p) mmc_commands \<Rightarrow> nat \<Rightarrow> bool \<Rightarrow>
   int \<Rightarrow> nat \<Rightarrow> (buf \<times> buf) option \<Rightarrow> buf \<Rightarrow> int \<Rightarrow> int \<Rightarrow> bool \<Rightarrow> persistent_list \<Rightarrow> ('d, 'o, 'p) client \<Rightarrow>
   (persistent_list \<times> ('d, 'o, 'p) client) option" where
  "php_mmc_connect ops env pr cmd redundancy binary chunk_size addr auth host tcp_port timeout persistent =
     memcache_pool_connect ops env pr cmd redundancy binary chunk_size addr auth
       \<lparr>sa_host = host, sa_tcp_port = tcp_port, sa_udp_port = 0, sa_weight = 1, sa_persistent = persistent, sa_timeout = timeout,
        sa_retry_interval = 15, sa_status = True\<rparr>"

subsection \<open>Server parameters and status\<close>

text \<open>\<^verbatim>\<open>strcmp\<close> of the host and the port of the tcp stream.\<close>

definition is_server :: "buf \<Rightarrow> int \<Rightarrow> mmc_t \<Rightarrow> bool" where
  "is_server host tcp_port mmc \<longleftrightarrow> c_string (m_host mmc) = c_string host \<and> int (st_port (m_tcp mmc)) = tcp_port"

definition server_in_pool :: "buf \<Rightarrow> int \<Rightarrow> ('d, 'o, 'p) client \<Rightarrow> nat option" where
  "server_in_pool host tcp_port w = find (\<lambda>m. is_server host tcp_port (p_mmc w m)) (p_servers w)"

definition set_status :: "bool \<Rightarrow> mmc_stream_t \<Rightarrow> mmc_stream_t" where
  "set_status status io =
     (if \<not> status then io\<lparr>st_status := MMC_STATUS_FAILED\<rparr>
      else if st_status io = MMC_STATUS_FAILED then io\<lparr>st_status := MMC_STATUS_DISCONNECTED\<rparr>
      else io)"

definition memcache_set_server_params ::
  "buf \<Rightarrow> int \<Rightarrow> int \<Rightarrow> int \<Rightarrow> bool \<Rightarrow> callback_arg \<Rightarrow> ('d, 'o, 'p) client \<Rightarrow> callback_change \<times> ('d, 'o, 'p) client" where
  "memcache_set_server_params host tcp_port timeout retry_interval status callback w =
     (case server_in_pool host tcp_port w of
        None \<Rightarrow> (KeepCallback, return_to (Val IS_FALSE) (warn ''Server not found in pool'' w))
      | Some m \<Rightarrow>
          if callback = Callback False then (KeepCallback, return_to (Val IS_FALSE) (warn ''Invalid failure callback'' w))
          else
            let w = upd_mmc m (\<lambda>mmc. mmc\<lparr>m_timeout := timeout, m_tcp := (m_tcp mmc)\<lparr>st_retry_interval := retry_interval\<rparr>\<rparr>) w;
                w = (if timeout < p_timeout w then w\<lparr>p_timeout := timeout\<rparr> else w);
                w = upd_mmc m (\<lambda>mmc. mmc\<lparr>m_tcp := set_status status (m_tcp mmc), m_udp := set_status status (m_udp mmc)\<rparr>) w
            in (case callback of NoCallback \<Rightarrow> KeepCallback | NullCallback \<Rightarrow> ClearCallback | Callback _ \<Rightarrow> SetCallback,
                return_to (Val IS_TRUE) w))"

definition memcache_set_failure_callback :: "callback_arg \<Rightarrow> ('d, 'o, 'p) client \<Rightarrow> callback_change \<times> ('d, 'o, 'p) client" where
  "memcache_set_failure_callback callback w =
     (if callback = Callback False then (KeepCallback, return_to (Val IS_FALSE) (warn ''Invalid failure callback'' w))
      else (if callback = Callback True then SetCallback else ClearCallback, return_to (Val IS_TRUE) w))"

definition memcache_get_server_status :: "buf \<Rightarrow> int \<Rightarrow> ('d, 'o, 'p) client \<Rightarrow> ('d, 'o, 'p) client" where
  "memcache_get_server_status host tcp_port w =
     (case server_in_pool host tcp_port w of
        None \<Rightarrow> return_to (Val IS_FALSE) (warn ''Server not found in pool'' w)
      | Some m \<Rightarrow> return_to (Val (IS_LONG (if st_status (m_tcp (p_mmc w m)) > MMC_STATUS_FAILED then 1 else 0))) w)"

definition memcache_close :: "pool_settings \<Rightarrow> ('d, 'o, 'p) client \<Rightarrow> ('d, 'o, 'p) client" where
  "memcache_close gs w = return_to (Val IS_TRUE) (mmc_pool_close gs w)"

text \<open>
  The compression settings of a pool; the savings are a \<^verbatim>\<open>double\<close>, of which the code compares
  and stores the value: \<open>valid\<close> says whether it is in the range from 0 to 1, or the default.
\<close>

definition memcache_set_compress_threshold ::
  "64 word \<Rightarrow> bool \<Rightarrow> (nat \<Rightarrow> nat) \<Rightarrow> compress_settings \<Rightarrow> ('d, 'o, 'p) client \<Rightarrow> compress_settings \<times> ('d, 'o, 'p) client" where
  "memcache_set_compress_threshold threshold valid room cs w =
     (if sint threshold < 0 then (cs, return_to (Val IS_FALSE) (warn ''threshold must be a positive integer'' w))
      else if \<not> valid then
        (cs\<lparr>compress_threshold := ucast threshold\<rparr>, return_to (Val IS_FALSE) (warn ''min_savings must be a float in the 0..1 range'' w))
      else (cs\<lparr>compress_threshold := ucast threshold, savings_room := room\<rparr>, return_to (Val IS_TRUE) w))"

text \<open>The credentials become properties of the object.\<close>

definition memcache_set_sasl_auth_data ::
  "buf \<Rightarrow> buf \<Rightarrow> (buf \<times> buf) option \<Rightarrow> ('d, 'o, 'p) client \<Rightarrow> (buf \<times> buf) option \<times> ('d, 'o, 'p) client" where
  "memcache_set_sasl_auth_data user password auth w =
     (if length user < 1 \<or> length password < 1 then (auth, return_to (Val IS_FALSE) w)
      else (Some (user, password), return_to (Val IS_TRUE) w))"

subsection \<open>Names of persistent servers\<close>

text \<open>A server is the one that a name stands for; every entry of the list holds the server of its name.\<close>

definition server_of :: "buf \<Rightarrow> nat \<Rightarrow> nat \<Rightarrow> mmc_t \<Rightarrow> bool" where
  "server_of host port udp_port mmc \<longleftrightarrow>
     c_string (m_host mmc) = c_string host \<and> st_port (m_tcp mmc) = port \<and> st_port (m_udp mmc) = udp_port"

definition persistent_ok :: "persistent_list \<Rightarrow> ('d, 'o, 'p) client \<Rightarrow> bool" where
  "persistent_ok pl w \<longleftrightarrow>
     (\<forall>key m. pl key = Some (Server_entry m) \<longrightarrow>
        (\<exists>host port udp_port. key = persistent_key host port udp_port \<and> server_of host port udp_port (p_mmc w m)))"

definition unlisted :: "nat \<Rightarrow> persistent_list \<Rightarrow> bool" where
  "unlisted addr pl \<longleftrightarrow> (\<forall>key. pl key \<noteq> Some (Server_entry addr))"

lemma colon_not_in_dec: "58 \<notin> set (rev (dec n))"
  using dec_digits [of n] by (auto simp: is_digit_def)

lemma persistent_key_rev:
  "rev (persistent_key host port udp_port) =
     rev (dec udp_port) @ 58 # rev (dec port) @ 58 # rev (c_string host) @ rev (bytes ''memcache:server:'')"
  by (simp add: persistent_key_def)

lemma persistent_key_eq_iff:
  "persistent_key h p u = persistent_key h' p' u' \<longleftrightarrow> c_string h = c_string h' \<and> p = p' \<and> u = u'"
proof
  assume "persistent_key h p u = persistent_key h' p' u'"
  then have "rev (persistent_key h p u) = rev (persistent_key h' p' u')" by simp
  note split_first_unique [OF colon_not_in_dec colon_not_in_dec this [unfolded persistent_key_rev]]
  moreover from this have "rev (dec p) = rev (dec p') \<and>
      rev (c_string h) @ rev (bytes ''memcache:server:'') = rev (c_string h') @ rev (bytes ''memcache:server:'')"
    by (intro split_first_unique [OF colon_not_in_dec colon_not_in_dec]) simp
  ultimately show "c_string h = c_string h' \<and> p = p' \<and> u = u'" by (simp add: dec_inj)
qed (simp add: persistent_key_def)

lemma server_of_new: "server_of host port udp_port (mmc_server_new cs host port udp_port pers timeout retry)"
  by (simp add: server_of_def mmc_server_new_def)

lemma server_of_reuse [simp]: "server_of host port udp_port (reuse_server timeout retry mmc) = server_of host port udp_port mmc"
  by (simp add: server_of_def reuse_server_def unknown_status_def)

lemma server_of_failed [simp]: "server_of host port udp_port (failed_mode mmc) = server_of host port udp_port mmc"
  by (simp add: server_of_def failed_mode_def)

lemma server_of_unique:
  "server_of h p u mmc \<Longrightarrow> server_of h' p' u' mmc \<Longrightarrow> persistent_key h p u = persistent_key h' p' u'"
  by (auto simp: server_of_def persistent_key_eq_iff)

lemma persistent_ok_entry:
  "persistent_ok pl w \<Longrightarrow> pl (persistent_key h p u) = Some (Server_entry m) \<Longrightarrow> server_of h p u (p_mmc w m)"
  by (drule persistent_ok_def [THEN iffD1, rule_format]) (auto simp: persistent_key_eq_iff server_of_def)

lemma persistent_ok_upd:
  assumes "persistent_ok pl w" and "\<And>h p u. server_of h p u (p_mmc w m) \<Longrightarrow> server_of h p u (f (p_mmc w m))"
  shows "persistent_ok pl (upd_mmc m f w)"
  using assms unfolding persistent_ok_def upd_mmc_def by fastforce

lemma persistent_ok_new:
  assumes "persistent_ok pl w" and "unlisted addr pl"
  shows "persistent_ok pl (upd_mmc addr f w)"
  using assms unfolding persistent_ok_def unlisted_def upd_mmc_def by fastforce

lemma persistent_ok_list:
  assumes "persistent_ok pl w" and "server_of h p u (p_mmc w m)"
  shows "persistent_ok (pl(persistent_key h p u \<mapsto> Server_entry m)) w"
  using assms unfolding persistent_ok_def by (auto split: if_splits)

lemma unlisted_list [simp]: "a \<noteq> addr \<Longrightarrow> unlisted a pl \<Longrightarrow> unlisted a (pl(key \<mapsto> Server_entry addr))"
  by (simp add: unlisted_def)

lemma unlistedD [simp]: "unlisted a pl \<Longrightarrow> pl key \<noteq> Some (Server_entry a)"
  by (simp add: unlisted_def)

lemma upd_mmc_same [simp]: "p_mmc (upd_mmc m f w) m = f (p_mmc w m)"
  by (simp add: upd_mmc_def)

text \<open>One search: what the list holds afterwards, and that it only grew.\<close>

lemma find_persistent_cases:
  assumes "mmc_find_persistent cs addr host (length host) port udp_port timeout retry pl w = (m, pl', w')"
  shows "pl (persistent_key host port udp_port) = Some (Server_entry m) \<and> pl' = pl \<and> w' = upd_mmc m (reuse_server timeout retry) w \<or>
    (\<forall>a. pl (persistent_key host port udp_port) \<noteq> Some (Server_entry a)) \<and> m = addr \<and>
    pl' = pl(persistent_key host port udp_port \<mapsto> Server_entry addr) \<and>
    w' = upd_mmc addr (\<lambda>_. mmc_server_new cs host port udp_port True timeout retry) w"
  using assms by (auto simp: mmc_find_persistent_def Let_def split: option.splits persistent_entry.splits)

lemma find_persistent_ok:
  assumes "mmc_find_persistent cs addr host (length host) port udp_port timeout retry pl w = (m, pl', w')"
    and "persistent_ok pl w" and "unlisted addr pl"
  shows "persistent_ok pl' w'" and "pl' (persistent_key host port udp_port) = Some (Server_entry m)"
    and "pl key = Some (Server_entry a) \<Longrightarrow> pl' key = Some (Server_entry a)"
    and "a \<noteq> addr \<Longrightarrow> unlisted a pl \<Longrightarrow> unlisted a pl'"
  using find_persistent_cases [OF assms(1)] assms(2,3)
  by (auto simp: server_of_new intro!: persistent_ok_list intro: persistent_ok_upd persistent_ok_new)

text \<open>Requests for persistent servers one after the other; each brings the address an allocation would give.\<close>

fun find_persistent_all ::
  "int \<Rightarrow> (nat \<times> (buf \<times> nat \<times> nat) \<times> int \<times> int) list \<Rightarrow> persistent_list \<Rightarrow> ('d, 'o, 'p) client \<Rightarrow>
   nat list \<times> persistent_list \<times> ('d, 'o, 'p) client" where
  "find_persistent_all cs [] pl w = ([], pl, w)"
| "find_persistent_all cs ((addr, (host, port, udp_port), timeout, retry) # rs) pl w =
     (let (m, pl, w) = mmc_find_persistent cs addr host (length host) port udp_port timeout retry pl w;
          (ms, pl, w) = find_persistent_all cs rs pl w
      in (m # ms, pl, w))"

definition same_server :: "buf \<times> nat \<times> nat \<Rightarrow> buf \<times> nat \<times> nat \<Rightarrow> bool" where
  "same_server a b \<longleftrightarrow> c_string (fst a) = c_string (fst b) \<and> snd a = snd b"

lemma find_persistent_all_listed:
  assumes "find_persistent_all cs rs pl w = (ms, pl', w')" and "persistent_ok pl w"
    and "distinct (map fst rs)" and "\<forall>r \<in> set rs. unlisted (fst r) pl"
  shows "persistent_ok pl' w' \<and> (\<forall>key a. pl key = Some (Server_entry a) \<longrightarrow> pl' key = Some (Server_entry a)) \<and>
    list_all2 (\<lambda>(_, (h, p, u), _) m. pl' (persistent_key h p u) = Some (Server_entry m)) rs ms"
  using assms
proof (induction cs rs pl w arbitrary: ms rule: find_persistent_all.induct)
  case (2 cs addr host port udp_port timeout retry rs pl w)
  obtain m pl1 w1 where f: "mmc_find_persistent cs addr host (length host) port udp_port timeout retry pl w = (m, pl1, w1)"
    by (metis prod_cases3)
  obtain ms' where r: "find_persistent_all cs rs pl1 w1 = (ms', pl', w')" and ms: "ms = m # ms'"
    using "2.prems"(1) f by (auto split: prod.splits)
  note ok = find_persistent_ok [OF f "2.prems"(2)]
  have fresh: "unlisted addr pl" using "2.prems"(4) by simp
  have fresh': "\<forall>r \<in> set rs. unlisted (fst r) pl1"
  proof
    fix r assume "r \<in> set rs"
    moreover from this have "fst r \<noteq> addr" using "2.prems"(3) by auto
    ultimately show "unlisted (fst r) pl1" using "2.prems"(4) ok(4) [OF fresh] by simp
  qed
  note IH = "2.IH" [OF f [symmetric] refl refl r ok(1) [OF fresh] _ fresh']
  then show ?case using "2.prems"(3) ms ok(2,3) [OF fresh] by auto
qed auto

text \<open>Adding a server without credentials: what is refused, and what joins the pool.\<close>

definition args_accepted :: "server_args \<Rightarrow> bool" where
  "args_accepted sa \<longleftrightarrow> sa_weight sa \<ge> 1 \<and> sa_tcp_port sa \<in> {0..65635} \<and> sa_udp_port sa \<in> {0..65635}"

definition udp_used :: "bool \<Rightarrow> server_args \<Rightarrow> int" where
  "udp_used binary sa = (if binary then 0 else sa_udp_port sa)"

lemma warn_keeps [simp]: "p_mmc (warn text w) = p_mmc w" "p_servers (warn text w) = p_servers w"
  by (simp_all add: warn_def upd_call_def)

lemma upd_mmc_servers [simp]: "p_servers (upd_mmc m f w) = p_servers w"
  by (simp add: upd_mmc_def)

lemma persistent_ok_cong: "p_mmc w' = p_mmc w \<Longrightarrow> persistent_ok pl w' = persistent_ok pl w"
  by (simp add: persistent_ok_def)

lemma persistent_ok_warn [simp]: "persistent_ok pl (warn text w) = persistent_ok pl w"
  by (rule persistent_ok_cong) simp

lemma pool_add_servers:
  assumes "mmc_pool_add m weight w = Some w'"
  shows "p_servers w' = p_servers w @ [m]" and "p_mmc w' = p_mmc w"
  using assms by (auto simp: mmc_pool_add_def split: Option.bind_splits)

lemma find_persistent_servers: "mmc_find_persistent cs addr host (length host) port udp_port timeout retry pl w = (m, pl', w') \<Longrightarrow> p_servers w' = p_servers w"
  by (drule find_persistent_cases) auto

lemma make_server_ok:
  assumes "make_server cs addr sa udp_port pl w = (m, pl', w')" and "persistent_ok pl w" and "unlisted addr pl"
  shows "persistent_ok pl' w' \<and> p_servers w' = p_servers w \<and>
    server_of (sa_host sa) (unsigned_short (sa_tcp_port sa)) (unsigned_short udp_port) (p_mmc w' m)"
proof (cases "sa_persistent sa \<and> sa_status sa")
  case True
  with assms(1) have f: "mmc_find_persistent cs addr (sa_host sa) (length (sa_host sa)) (unsigned_short (sa_tcp_port sa)) (unsigned_short udp_port)
      (sa_timeout sa) (sa_retry_interval sa) pl w = (m, pl', w')"
    by (auto simp: make_server_def split: prod.splits)
  show ?thesis
    using find_persistent_ok(1,2) [OF f assms(2,3)] persistent_ok_entry find_persistent_servers [OF f] by blast
next
  case False
  with assms show ?thesis
    by (auto simp: make_server_def Let_def server_of_new intro: persistent_ok_new persistent_ok_upd split: if_splits)
qed

lemma addserver_ok:
  assumes "php_mmc_pool_addserver ops env pr cmd redundancy binary cs addr None sa pl w = Some (r, pl', w')"
    and "persistent_ok pl w" and "unlisted addr pl"
  shows "persistent_ok pl' w' \<and>
    (if args_accepted sa
     then \<exists>m. r = Some m \<and> p_servers w' = p_servers w @ [m] \<and>
            server_of (sa_host sa) (unsigned_short (sa_tcp_port sa)) (unsigned_short (udp_used binary sa)) (p_mmc w' m)
     else r = None \<and> p_servers w' = p_servers w)"
proof (cases "args_accepted sa")
  case True
  obtain w0 where w0: "(if sa_udp_port sa \<noteq> 0 \<and> binary
      then (0, warn ''binary protocol is not supported over UDP, defaulting to TCP'' w) else (sa_udp_port sa, w)) = (udp_used binary sa, w0)"
    and keep: "persistent_ok pl w0" "p_servers w0 = p_servers w"
    using assms(2) by (cases "sa_udp_port sa \<noteq> 0 \<and> binary") (auto simp: udp_used_def)
  obtain m pl1 w1 where made: "make_server cs addr sa (udp_used binary sa) pl w0 = (m, pl1, w1)"
    by (metis prod_cases3)
  have limits: "\<not> sa_weight sa < 1" "\<not> (sa_tcp_port sa > 65635 \<or> sa_tcp_port sa < 0)" "\<not> (sa_udp_port sa > 65635 \<or> sa_udp_port sa < 0)"
    using True by (auto simp: args_accepted_def)
  have "mmc_pool_add m (word_of_int (sa_weight sa)) w1 = Some w' \<and> r = Some m \<and> pl' = pl1"
    using assms(1) unfolding php_mmc_pool_addserver_def if_not_P [OF limits(1)] if_not_P [OF limits(2)] if_not_P [OF limits(3)] w0
    by (auto simp: made split: Option.bind_splits)
  then show ?thesis
    using True make_server_ok [OF made keep(1) assms(3)] pool_add_servers [of m _ w1 w'] keep(2) persistent_ok_cong [of w' w1] by auto
next
  case False
  then show ?thesis using assms by (auto simp: php_mmc_pool_addserver_def args_accepted_def split: if_splits)
qed

definition example_client :: "(unit, unit, mmc_ascii_request) client" where
  "example_client =
     mmc_pool_new \<lparr>gs_hash_strategy = MMC_STANDARD_HASH, gs_hash_function = MMC_HASH_FNV1A, gs_crc_step = (\<lambda>c b. c),
         gs_select_api = MMC_API_SELECT\<rparr>
       (\<lambda>m. mmc_server_new 8192 [] 11211 0 False 1000000 15) (\<lambda>r. new_request (mmc_ascii_protocol plain_runtime)) example_call"

definition example_args :: server_args where
  "example_args = \<lparr>sa_host = [104], sa_tcp_port = 65600, sa_udp_port = 0, sa_weight = 1, sa_persistent = True, sa_timeout = 1000000,
     sa_retry_interval = 15, sa_status = True\<rparr>"

subsection \<open>The properties\<close>

text \<open>
  C21: Persistent servers are shared exactly by name: whatever requests were made, with whatever
  time limits, two of them get the same server if and only if they ask for the same host and
  the same two ports, every one gets a server of its host and ports, and every entry of the
  list is the server of its name.
\<close>

theorem persistent_servers_shared:
  assumes "find_persistent_all cs rs pl w = (ms, pl', w')" and "persistent_ok pl w"
    and "distinct (map fst rs)" and "\<forall>r \<in> set rs. unlisted (fst r) pl"
  shows "persistent_ok pl' w' \<and> length ms = length rs \<and>
    (\<forall>i < length rs. case fst (snd (rs ! i)) of (host, port, udp_port) \<Rightarrow> server_of host port udp_port (p_mmc w' (ms ! i))) \<and>
    (\<forall>i < length rs. \<forall>j < length rs. ms ! i = ms ! j \<longleftrightarrow> same_server (fst (snd (rs ! i))) (fst (snd (rs ! j))))"
proof -
  note all = find_persistent_all_listed [OF assms]
  have len: "length ms = length rs" using conjunct2 [OF conjunct2 [OF all]] by (rule list_all2_lengthD [symmetric])
  define name where "name i = (case fst (snd (rs ! i)) of (h, p, u) \<Rightarrow> persistent_key h p u)" for i
  have listed: "pl' (name i) = Some (Server_entry (ms ! i))" if "i < length rs" for i
    using list_all2_nthD [OF conjunct2 [OF conjunct2 [OF all]] that] by (auto simp: name_def split: prod.splits)
  have own: "case fst (snd (rs ! i)) of (h, p, u) \<Rightarrow> server_of h p u (p_mmc w' (ms ! i))" if "i < length rs" for i
    using persistent_ok_entry [OF conjunct1 [OF all]] listed [OF that] by (auto simp: name_def split: prod.splits)
  have same: "name i = name j \<longleftrightarrow> same_server (fst (snd (rs ! i))) (fst (snd (rs ! j)))" for i j
    by (auto simp: name_def persistent_key_eq_iff same_server_def split: prod.splits)
  have "ms ! i = ms ! j \<longleftrightarrow> name i = name j" if "i < length rs" "j < length rs" for i j
    using listed [OF that(1)] listed [OF that(2)] own [OF that(1)] own [OF that(2)]
    by (auto simp: name_def split: prod.splits dest: server_of_unique)
  then show ?thesis using all len own same by blast
qed

theorem persistent_servers_shared_witness:
  "\<exists>ms pl' w'. find_persistent_all 8192 [(3, ([104], 11211, 0), 1, 15), (4, ([104], 11212, 0), 1, 15), (5, ([104, 0, 105], 11211, 0), 2, 15)]
      Map.empty example_client = (ms, pl', w') \<and> ms ! 0 = ms ! 2 \<and> ms ! 0 \<noteq> ms ! 1"
proof -
  let ?rs = "[(3, ([104], 11211, 0), 1, 15), (4, ([104], 11212, 0), 1, 15), (5, ([104, 0, 105], 11211, 0), 2, 15)]
    :: (nat \<times> (buf \<times> nat \<times> nat) \<times> int \<times> int) list"
  obtain ms pl' w' where run: "find_persistent_all 8192 ?rs Map.empty example_client = (ms, pl', w')"
    by (metis prod_cases3)
  have "\<forall>i < length ?rs. \<forall>j < length ?rs. ms ! i = ms ! j \<longleftrightarrow> same_server (fst (snd (?rs ! i))) (fst (snd (?rs ! j)))"
    using persistent_servers_shared [OF run] by (simp add: persistent_ok_def unlisted_def)
  from this [rule_format, of 0 2] this [rule_format, of 0 1]
  have "ms ! 0 = ms ! 2 \<and> ms ! 0 \<noteq> ms ! 1" by (simp add: same_server_def c_string_def)
  with run show ?thesis by blast
qed

text \<open>
  A server that is added is the one that was asked for: the call is refused exactly when the
  weight is not positive or a port is outside 0 to 65635, and then the pool is as before;
  otherwise the new last server of the pool has the host, and the ports as \<^verbatim>\<open>unsigned short\<close>. So
  the tcp port of the server is the given one exactly when that is at most 65535: the ports
  65536 to 65635 are accepted and become 0 to 99.
\<close>

theorem added_server_port:
  assumes "php_mmc_pool_addserver ops env pr cmd redundancy binary cs addr None sa pl w = Some (r, pl', w')"
    and "persistent_ok pl w" and "unlisted addr pl"
  shows "persistent_ok pl' w' \<and>
    (case r of
       None \<Rightarrow> \<not> args_accepted sa \<and> p_servers w' = p_servers w
     | Some m \<Rightarrow> args_accepted sa \<and> p_servers w' = p_servers w @ [m] \<and> c_string (m_host (p_mmc w' m)) = c_string (sa_host sa) \<and>
         (int (st_port (m_tcp (p_mmc w' m))) = sa_tcp_port sa \<longleftrightarrow> sa_tcp_port sa \<le> 65535) \<and>
         (int (st_port (m_udp (p_mmc w' m))) = sa_udp_port sa \<longleftrightarrow> sa_udp_port sa = 0 \<or> \<not> (binary \<or> sa_udp_port sa > 65535)))"
proof (cases "args_accepted sa")
  case True
  then have limits: "0 \<le> sa_tcp_port sa" "sa_tcp_port sa \<le> 65635" "0 \<le> sa_udp_port sa" "sa_udp_port sa \<le> 65635"
    by (auto simp: args_accepted_def)
  have cut: "int (unsigned_short i) = i \<longleftrightarrow> i \<le> 65535" if "0 \<le> i" for i
    using that by (auto simp: unsigned_short_def mod_pos_pos_trivial dest: sym [THEN ord_eq_le_trans])
  obtain m where m: "r = Some m" "p_servers w' = p_servers w @ [m]"
    "server_of (sa_host sa) (unsigned_short (sa_tcp_port sa)) (unsigned_short (udp_used binary sa)) (p_mmc w' m)"
    using addserver_ok [OF assms] True by auto
  have "int (unsigned_short (udp_used binary sa)) = sa_udp_port sa \<longleftrightarrow> sa_udp_port sa = 0 \<or> \<not> (binary \<or> sa_udp_port sa > 65535)"
    using cut [OF limits(3)] by (auto simp: udp_used_def unsigned_short_def)
  then show ?thesis using addserver_ok [OF assms] True m cut [OF limits(1)] by (simp add: server_of_def)
next
  case False
  then show ?thesis using addserver_ok [OF assms] by simp
qed

theorem added_server_port_witness:
  "\<forall>(ops :: (unit, unit, mmc_ascii_request) client_ops) env pr cmd. \<exists>m pl' w'.
     php_mmc_pool_addserver ops env pr cmd 1 False 8192 0 None example_args Map.empty example_client = Some (Some m, pl', w') \<and>
     int (st_port (m_tcp (p_mmc w' m))) \<noteq> sa_tcp_port example_args"
proof (intro allI)
  fix ops :: "(unit, unit, mmc_ascii_request) client_ops" and env pr cmd
  have "php_mmc_pool_addserver ops env pr cmd 1 False 8192 0 None example_args Map.empty example_client \<noteq> None"
    by (simp add: php_mmc_pool_addserver_def example_args_def make_server_def mmc_find_persistent_def mmc_pool_add_def hash_add_server_def
        example_client_def mmc_pool_new_def mmc_pool_init_hash_def upd_mmc_def mmc_consts Let_def del: not_None_eq)
  then obtain r pl' w' where added: "php_mmc_pool_addserver ops env pr cmd 1 False 8192 0 None example_args Map.empty example_client = Some (r, pl', w')"
    by auto
  have "args_accepted example_args" by (simp add: args_accepted_def example_args_def)
  moreover have "sa_tcp_port example_args = 65600" by (simp add: example_args_def)
  ultimately show "\<exists>m pl' w'. php_mmc_pool_addserver ops env pr cmd 1 False 8192 0 None example_args Map.empty example_client = Some (Some m, pl', w') \<and>
     int (st_port (m_tcp (p_mmc w' m))) \<noteq> sa_tcp_port example_args"
    using added added_server_port [OF added] by (cases r) (auto simp: persistent_ok_def unlisted_def)
qed

end
