(* ===== verification/Mmc_Wire.thy ===== *)
theory Mmc_Wire
  imports Mmc_Run Mmc_Servers
begin

text \<open>
  Commands on a healthy connection, for any protocol: from the call of the PHP function over
  scheduling, sending and reading to the value that it returns, for a pool without other work
  when the server that is found for the key is connected.

  What the client needs of a protocol is the locale \<open>wire_protocol\<close>: its commands leave a request
  that waits for an answer of some kind, and its parser makes of the bytes of such an answer the
  calls of the handlers that the answer stands for.
\<close>

subsection \<open>A connection without work\<close>

text \<open>
  Stream \<open>s\<close> of server \<open>m\<close> is connected with descriptor \<open>fd\<close>; every byte that came on it was
  read, and neither the server nor the pool has anything to do.
\<close>

definition idle_connection :: "'u mmc_env \<Rightarrow> nat \<Rightarrow> int \<Rightarrow> nat \<Rightarrow> ('d, 'o, 'u, 'p) mmc_pool_t \<Rightarrow> bool" where
  "idle_connection env s fd m w \<longleftrightarrow>
     (let mmc = p_mmc w m; io = m_tcp mmc in
      st_status io = MMC_STATUS_CONNECTED \<and> st_stream io = Some s \<and> \<not> st_buffered io \<and> st_fd io = fd \<and> 0 \<le> fd \<and> fd < FD_SETSIZE \<and>
      io_ok (st_io io) \<and> unread (st_io io) = [] \<and> io_input (st_io io) = [] \<and> st_taken io \<le> length (e_arrived env (p_calls w) s) \<and>
      m_sendreq mmc = None \<and> m_readreq mmc = None \<and> fq_list (m_sendqueue mmc) = [] \<and> fq_list (m_readqueue mmc) = [] \<and>
      p_servers w \<noteq> [] \<and> \<not> p_in_select w \<and> p_select_api w \<noteq> MMC_API_POLL \<and> fq_list (p_pending w) = [] \<and>
      fq_list (sending (p_first w) w) = [] \<and> fq_list (reading (p_first w) w) = [])"

text \<open>What an allocation or a change of a request leaves alone, and what userspace sees.\<close>

definition same_work :: "('d, 'o, 'u, 'p) mmc_pool_t \<Rightarrow> ('d, 'o, 'u, 'p) mmc_pool_t \<Rightarrow> bool" where
  "same_work w w' \<longleftrightarrow>
     p_mmc w' = p_mmc w \<and> p_servers w' = p_servers w \<and> p_hash_state w' = p_hash_state w \<and> p_in_select w' = p_in_select w \<and>
     p_first w' = p_first w \<and> p_select_api w' = p_select_api w \<and> p_pending w' = p_pending w \<and> p_calls w' = p_calls w \<and>
     p_sending1 w' = p_sending1 w \<and> p_sending2 w' = p_sending2 w \<and> p_reading1 w' = p_reading1 w \<and> p_reading2 w' = p_reading2 w"

lemma same_work_refl [simp]: "same_work w w"
  by (simp add: same_work_def)

lemma same_work_trans [trans]: "same_work w w' \<Longrightarrow> same_work w' w'' \<Longrightarrow> same_work w w''"
  by (simp add: same_work_def)

lemma same_work_upd [simp]:
  "same_work w (upd_req r f w') = same_work w w'" "same_work w (w'\<lparr>p_free_requests := q\<rparr>) = same_work w w'"
  "same_work w (w'\<lparr>p_fresh := n\<rparr>) = same_work w w'" "same_work w (w'\<lparr>p_user := u\<rparr>) = same_work w w'"
  by (simp_all add: same_work_def upd_req_def)

lemma same_work_call [simp]: "same_work w (upd_call f w') = same_work w w'" "same_work w (return_to v w') = same_work w w'"
  "same_work w (upd_proto r g w') = same_work w w'"
  by (simp_all add: upd_call_def return_to_def upd_proto_def)

lemma idle_same_work: "same_work w w' \<Longrightarrow> idle_connection env s fd m w' = idle_connection env s fd m w"
  by (simp add: same_work_def idle_connection_def sending_def reading_def)

lemma upd_req_at [simp]: "p_req (upd_req r f w) r = f (p_req w r)"
  by (simp add: upd_req_def)

lemma upd_req_user [simp]: "p_user (upd_req r f w) = p_user w"
  by (simp add: upd_req_def)

text \<open>
  The protocol's part of a request that was allocated: new, or that of a free request, one that is
  \<open>usable\<close>, after its reset.
\<close>

definition blank_proto :: "('d, 'o, 'u, 'p) mmc_protocol_t \<Rightarrow> ('p \<Rightarrow> bool) \<Rightarrow> 'p \<Rightarrow> bool" where
  "blank_proto pr usable p \<longleftrightarrow>
     p = pr_create pr \<or> (\<exists>p0. usable p0 \<and> p = pr_set_key pr [] (pr_set_sendbuf pr [] (pr_reset pr p0)))"

definition all_usable :: "('p \<Rightarrow> bool) \<Rightarrow> ('d, 'o, 'u, 'p) mmc_pool_t \<Rightarrow> bool" where
  "all_usable usable w \<longleftrightarrow> (\<forall>r. usable (r_proto (p_req w r)))"

lemma request_allocated:
  assumes "mmc_pool_request pr False response failover w = (r, w')"
  shows "same_work w w'" and "p_user w' = p_user w" and "\<not> r_protocol_udp (p_req w' r)" and "r_response (p_req w' r) = response"
    and "r_failover (p_req w' r) = failover" and "all_usable usable w \<Longrightarrow> blank_proto pr usable (r_proto (p_req w' r))"
  using assms
  by (auto simp: mmc_pool_request_def mmc_pool_request_alloc_def blank_proto_def all_usable_def new_request_def mmc_request_reset_def
      split: option.splits)

lemma get_request_allocated:
  assumes "mmc_pool_request_get pr False vf failover w = (r, w')"
  shows "same_work w w'" and "p_user w' = p_user w" and "\<not> r_protocol_udp (p_req w' r)"
    and "r_response (p_req w' r) = mmc_pool_response_handler_null" and "r_value (p_req w' r) = vf"
    and "all_usable usable w \<Longrightarrow> blank_proto pr usable (r_proto (p_req w' r))"
proof -
  obtain w1 where w1: "mmc_pool_request pr False mmc_pool_response_handler_null failover w = (r, w1)"
    and w': "w' = upd_req r (\<lambda>req. req\<lparr>r_value := vf\<rparr>) w1"
    using assms by (auto simp: mmc_pool_request_get_def split: prod.splits)
  note a = request_allocated [OF w1]
  show "same_work w w'" "p_user w' = p_user w" "\<not> r_protocol_udp (p_req w' r)" "r_response (p_req w' r) = mmc_pool_response_handler_null"
    "r_value (p_req w' r) = vf"
    using a by (simp_all add: w')
  show "all_usable usable w \<Longrightarrow> blank_proto pr usable (r_proto (p_req w' r))" using a(6) by (simp add: w')
qed

subsection \<open>Finding the server and scheduling\<close>

lemma connected_valid: "st_status (m_tcp (p_mmc w m)) = MMC_STATUS_CONNECTED \<Longrightarrow> server_valid env w m"
  by (simp add: server_valid_def mmc_server_valid_def mmc_consts)

text \<open>The choice of a server looks at the hash state, the servers and the time only.\<close>

definition same_servers :: "('d, 'o, 'u, 'p) mmc_pool_t \<Rightarrow> ('d, 'o, 'u, 'p) mmc_pool_t \<Rightarrow> bool" where
  "same_servers w w' \<longleftrightarrow> p_mmc w' = p_mmc w \<and> p_hash_state w' = p_hash_state w \<and> p_calls w' = p_calls w"

lemma same_work_servers: "same_work w w' \<Longrightarrow> same_servers w w'"
  by (simp add: same_work_def same_servers_def)

lemma find_server_same:
  assumes "find_server env key w = Some (m, w1)" and "same_servers w w'"
  shows "\<exists>hs. find_server env key w' = Some (m, w'\<lparr>p_hash_state := hs\<rparr>) \<and> w1 = w\<lparr>p_hash_state := hs\<rparr>"
  using assms
  by (auto simp: find_server_def same_servers_def split: hash_state.splits intro: exI [of _ "p_hash_state w"])

lemma same_servers_hash: "same_servers w w' \<Longrightarrow> same_servers (w\<lparr>p_hash_state := hs\<rparr>) (w'\<lparr>p_hash_state := hs\<rparr>)"
  by (simp add: same_servers_def)

lemma same_servers_valid: "same_servers w w' \<Longrightarrow> server_valid env w' m = server_valid env w m"
  by (simp add: same_servers_def server_valid_def)

lemma find_next_same:
  assumes "mmc_pool_find_next env key skip i w = Some (m, j, w1)" and "same_servers w w'"
  shows "\<exists>hs. mmc_pool_find_next env key skip i w' = Some (m, j, w'\<lparr>p_hash_state := hs\<rparr>) \<and> w1 = w\<lparr>p_hash_state := hs\<rparr>"
  using assms
proof (induction env key skip i w arbitrary: w' rule: mmc_pool_find_next.induct)
  case (1 env key skip i w)
  from "1.prems"(1) obtain m1 w2 where f: "find_server env (failover_key key i) w = Some (m1, w2)"
    by (subst (asm) mmc_pool_find_next.simps) (auto simp: bind_eq_Some_conv)
  obtain hs where hs: "find_server env (failover_key key i) w' = Some (m1, w'\<lparr>p_hash_state := hs\<rparr>)" "w2 = w\<lparr>p_hash_state := hs\<rparr>"
    using find_server_same [OF f "1.prems"(2)] by blast
  let ?again = "(case skip of None \<Rightarrow> False | Some q \<Rightarrow> fq_contains q m1) \<and> int (i + 1) < g_max_failover_attempts env"
  have step: "mmc_pool_find_next env key skip i v = (if ?again then mmc_pool_find_next env key skip (i + 1) v1 else Some (m1, i + 1, v1))"
    if "find_server env (failover_key key i) v = Some (m1, v1)" for v v1
    using that by (subst mmc_pool_find_next.simps) simp
  show ?case
  proof (cases ?again)
    case True
    have "mmc_pool_find_next env key skip (i + 1) w2 = Some (m, j, w1)" using "1.prems"(1) step [OF f] True by simp
    from "1.IH" [OF f refl True this, of "w'\<lparr>p_hash_state := hs\<rparr>"] same_servers_hash [OF "1.prems"(2)] show ?thesis
      using step [OF hs(1)] True hs(2) by auto
  next
    case False
    then show ?thesis using step [OF f] step [OF hs(1)] "1.prems"(1) hs(2) by auto
  qed
qed

lemma find_valid_same:
  assumes "find_valid env key i w = Some (m, w1)" and "same_servers w w'"
  shows "\<exists>hs. find_valid env key i w' = Some (m, w'\<lparr>p_hash_state := hs\<rparr>) \<and> w1 = w\<lparr>p_hash_state := hs\<rparr>"
  using assms
proof (induction env key i w arbitrary: w' rule: find_valid.induct)
  case (1 env key i w)
  from "1.prems"(1) obtain m1 j w2 where f: "mmc_pool_find_next env key None i w = Some (m1, j, w2)"
    by (subst (asm) find_valid.simps) (auto simp: bind_eq_Some_conv)
  obtain hs where hs: "mmc_pool_find_next env key None i w' = Some (m1, j, w'\<lparr>p_hash_state := hs\<rparr>)" "w2 = w\<lparr>p_hash_state := hs\<rparr>"
    using find_next_same [OF f "1.prems"(2)] by blast
  have same: "same_servers w2 (w'\<lparr>p_hash_state := hs\<rparr>)" using same_servers_hash [OF "1.prems"(2)] hs(2) by simp
  let ?again = "\<not> server_valid env w2 m1 \<and> int j < g_max_failover_attempts env"
  have step: "find_valid env key i v = (if ?again then find_valid env key j v1 else Some (m1, v1))"
    if "mmc_pool_find_next env key None i v = Some (m1, j, v1)" "same_servers w2 v1" for v v1
    using that same_servers_valid [OF that(2)] by (subst find_valid.simps) simp
  have refl2: "same_servers w2 w2" by (simp add: same_servers_def)
  show ?case
  proof (cases ?again)
    case True
    have "find_valid env key j w2 = Some (m, w1)" using "1.prems"(1) step [OF f refl2] True by simp
    from "1.IH" [OF f refl refl True this same] show ?thesis using step [OF hs(1) same] True hs(2) by auto
  next
    case False
    then show ?thesis using step [OF f refl2] step [OF hs(1) same] "1.prems"(1) hs(2) by auto
  qed
qed

lemma pool_find_same:
  assumes "mmc_pool_find env key w = Some (m, w1)" and "same_servers w w'"
  shows "\<exists>hs. mmc_pool_find env key w' = Some (m, w'\<lparr>p_hash_state := hs\<rparr>)"
proof -
  from assms(1) obtain m1 w2 where f: "find_server env key w = Some (m1, w2)" by (auto simp: mmc_pool_find_def bind_eq_Some_conv)
  obtain hs where hs: "find_server env key w' = Some (m1, w'\<lparr>p_hash_state := hs\<rparr>)" "w2 = w\<lparr>p_hash_state := hs\<rparr>"
    using find_server_same [OF f assms(2)] by blast
  have same: "same_servers w2 (w'\<lparr>p_hash_state := hs\<rparr>)" using same_servers_hash [OF assms(2)] hs(2) by simp
  show ?thesis
  proof (cases "\<not> server_valid env w2 m1 \<and> g_allow_failover env")
    case True
    have "find_valid env key 0 w2 = Some (m, w1)" using assms(1) f True by (simp add: mmc_pool_find_def)
    from find_valid_same [OF this same] show ?thesis
      using True hs(1) same_servers_valid [OF same] by (auto simp: mmc_pool_find_def)
  next
    case False
    then have "m1 = m" using assms(1) f by (auto simp: mmc_pool_find_def split: if_splits)
    then show ?thesis using False hs(1) same_servers_valid [OF same] by (auto simp: mmc_pool_find_def)
  qed
qed

definition scheduled_request where
  "scheduled_request pr m req =
     req\<lparr>r_send_idx := 0, r_proto := pr_reset_readbuf pr (r_proto req), r_io := Some (m, False), r_read_udp := False\<rparr>"

lemma schedule_idle:
  assumes "idle_connection env s fd m w" and "\<not> r_protocol_udp (p_req w r)"
    and "int (length (pr_sendbuf pr (pr_reset_readbuf pr (r_proto (p_req w r))))) \<le> st_chunk_size (m_tcp (p_mmc w m))"
  shows "\<exists>w'. mmc_pool_schedule ops env pr m r w = Some (MMC_OK, w') \<and>
    p_req w' r = scheduled_request pr m (p_req w r) \<and> m_tcp (p_mmc w' m) = m_tcp (p_mmc w m) \<and> p_user w' = p_user w \<and>
    asking env s fd m r (handlers_of False (p_req w r)) pr w'"
proof -
  let ?w1 = "upd_req r (\<lambda>req. req\<lparr>r_send_idx := 0, r_proto := pr_reset_readbuf pr (r_proto req)\<rparr>) w"
  let ?w2 = "set_sendreq m (Some r) (slot_tcp m r ?w1)"
  let ?w3 = "schedule_read m r (map_sending (p_first w) (\<lambda>q. fq_push q m) ?w2)"
  have i: "st_status (m_tcp (p_mmc w m)) = MMC_STATUS_CONNECTED" "m_sendreq (p_mmc w m) = None" "m_readreq (p_mmc w m) = None"
    using assms(1) by (simp_all add: idle_connection_def Let_def)
  have sent: "mmc_pool_slot_send ops env pr m (Some r) False ?w1 = Some (MMC_OK, ?w2)"
    using i(1) assms(2) by (simp add: mmc_pool_slot_send_def upd_req_def mmc_pool_open_def stream_of_def mmc_consts)
  have "mmc_pool_schedule ops env pr m r w = Some (MMC_OK, ?w3)"
  proof -
    have "m_sendreq (p_mmc ?w1 m) = None" "p_first ?w2 = p_first w"
      using i(2) by (simp_all add: upd_req_def set_sendreq_def slot_tcp_def upd_mmc_def)
    then show ?thesis using connected_valid [of w m env] i(1) sent by (simp add: mmc_pool_schedule_def Let_def mmc_consts)
  qed
  moreover have "p_req ?w3 r = scheduled_request pr m (p_req w r)"
    using assms(2) i(3) by (simp add: scheduled_request_def schedule_read_def set_readreq_def map_reading_def map_sending_def set_sendreq_def
        slot_tcp_def upd_mmc_def upd_req_def)
  moreover have "m_tcp (p_mmc ?w3 m) = m_tcp (p_mmc w m)" "p_user ?w3 = p_user w"
    using i(3) by (simp_all add: schedule_read_def set_readreq_def map_reading_def map_sending_def set_sendreq_def slot_tcp_def upd_mmc_def upd_req_def)
  moreover have "asking env s fd m r (handlers_of False (p_req w r)) pr ?w3"
    using assms
    by (cases "p_first w") (simp_all add: asking_def waiting_def idle_connection_def schedule_read_def set_readreq_def map_reading_def map_sending_def set_sendreq_def
        slot_tcp_def upd_mmc_def upd_req_def handlers_of_def sending_def reading_def Let_def fun_eq_iff)
  ultimately show ?thesis by blast
qed

subsection \<open>One command\<close>

definition idle_io :: "mmc_io \<Rightarrow> bool" where
  "idle_io io \<longleftrightarrow> io_ok io \<and> unread io = [] \<and> io_input io = []"

text \<open>
  The network while the command runs: the connection is never at its end, takes what is written
  to it, and is reported as readable once the whole answer, \<open>answer\<close>, is there.
\<close>

definition answers :: "'u mmc_env \<Rightarrow> nat \<Rightarrow> int \<Rightarrow> nat \<Rightarrow> nat \<Rightarrow> ('d, 'o, 'u, 'p) mmc_pool_t \<Rightarrow> nat \<Rightarrow> buf \<Rightarrow> bool" where
  "answers env s fd m N w len answer \<longleftrightarrow>
     (\<exists>full. delivers env s full N \<and> drop (st_taken (m_tcp (p_mmc w m))) full = answer) \<and> select_works env fd N \<and>
     sends_all env fd len \<and> (\<forall>n. \<not> e_eof env n)"

lemma schedule_and_run:
  assumes idle: "idle_connection env s fd m w0" and same: "same_work w0 w" and found: "mmc_pool_find env key w0 = Some (m, w1)"
    and udp: "\<not> r_protocol_udp (p_req w r)" and net: "answers env s fd m N w0 len answer"
    and room: "length (pr_sendbuf pr (pr_reset_readbuf pr (r_proto (p_req w r)))) \<le> len" "int len \<le> st_chunk_size (m_tcp (p_mmc w0 m))"
    and inc: "incremental_parser (pool_step pr (handlers_of False (p_req w r))) pool_recv ok"
    and ks: "keeps_server (pool_step pr (handlers_of False (p_req w r)))"
    and ok: "\<forall>io mmc. idle_io io \<longrightarrow> ok (pr_reset_readbuf pr (r_proto (p_req w r)), io, mmc, p_user w)"
    and parse: "\<forall>io mmc. idle_io io \<longrightarrow>
        (\<exists>y. parse_loop (pool_step pr (handlers_of False (p_req w r)))
           (pr_reset_readbuf pr (r_proto (p_req w r)), receive io answer, mmc, p_user w) = Some (Some (MMC_REQUEST_DONE, y)) \<and>
           snd (snd (snd y)) = user)"
    and red: "redundancy \<le> 1"
  shows "\<exists>w1 w'. mmc_pool_schedule_key (pool_ops env pr (Suc n)) env pr key r redundancy w = Some (MMC_OK, w1) \<and>
    mmc_pool_run (pool_ops env pr (Suc n)) pr w1 = Some w' \<and> p_user w' = user"
proof -
  let ?pro = "pr_reset_readbuf pr (r_proto (p_req w r))" and ?h = "handlers_of False (p_req w r)"
  obtain full where full: "delivers env s full N" "drop (st_taken (m_tcp (p_mmc w0 m))) full = answer" "select_works env fd N"
    "sends_all env fd len" "\<forall>n. \<not> e_eof env n" using net by (auto simp: answers_def)
  obtain hs where hs: "mmc_pool_find env key w = Some (m, w\<lparr>p_hash_state := hs\<rparr>)" using pool_find_same [OF found same_work_servers [OF same]] by blast
  let ?w = "w\<lparr>p_hash_state := hs\<rparr>"
  have i: "idle_connection env s fd m ?w"
    using idle same by (cases "p_first w0") (simp_all add: idle_connection_def same_work_def sending_def reading_def Let_def)
  have mm: "p_mmc w = p_mmc w0" using same by (simp add: same_work_def)
  obtain w2 where w2: "mmc_pool_schedule (pool_ops env pr n) env pr m r ?w = Some (MMC_OK, w2)"
    "p_req w2 r = scheduled_request pr m (p_req w r)" "m_tcp (p_mmc w2 m) = m_tcp (p_mmc w m)" "p_user w2 = p_user w"
    "asking env s fd m r ?h pr w2"
    using schedule_idle [OF i, of r pr "pool_ops env pr n"] udp room by (auto simp: mm)
  have sched: "mmc_pool_schedule_key (pool_ops env pr (Suc n)) env pr key r redundancy w = Some (MMC_OK, w2)"
    using red hs w2(1) by (simp add: mmc_pool_schedule_key_def)
  have pro: "r_proto (p_req w2 r) = ?pro" by (simp add: w2(2) scheduled_request_def)
  have io: "io_ok (st_io (m_tcp (p_mmc w2 m))) \<and> unread (st_io (m_tcp (p_mmc w2 m))) = [] \<and> io_input (st_io (m_tcp (p_mmc w2 m))) = []"
    "to_come full m w2 = answer"
    using idle full(2) by (simp_all add: to_come_def w2(3) mm idle_connection_def Let_def)
  have snds: "sends_all env fd (length (pr_sendbuf pr (r_proto (p_req w2 r))))"
    using full(4) room(1) unfolding sends_all_def pro by (auto split: send_result.splits intro: order_trans)
  have "\<exists>w'. mmc_pool_run (pool_ops env pr (Suc n)) pr w2 = Some w' \<and> answered m r user w'"
    by (rule run_asking [OF inc full(1) ks full(5,3) snds w2(5)]) (use ok parse io in \<open>simp_all add: pro w2(4) idle_io_def\<close>)
  then show ?thesis using sched by (auto simp: answered_def)
qed

text \<open>What is sent for a key of the user.\<close>

definition key_prefix_of :: "'u mmc_env \<Rightarrow> buf" where
  "key_prefix_of env = (case g_key_prefix env of None \<Rightarrow> [] | Some p \<Rightarrow> p)"

definition sent_key :: "'u mmc_env \<Rightarrow> buf \<Rightarrow> buf" where
  "sent_key env key = take MMC_MAX_KEY_LEN (map key_byte (key_prefix_of env @ key))"

lemma prepare_sent_key:
  assumes "key \<noteq> []" and "length (key_prefix_of env) \<le> MMC_MAX_KEY_LEN"
  shows "mmc_prepare_key env key = Some (Some (sent_key env key))" and "word_bytes (sent_key env key)"
    and "length (sent_key env key) \<le> MMC_MAX_KEY_LEN"
proof -
  have buffer: "key_buffer (replicate (MMC_MAX_KEY_LEN + 1) 0)" by (simp add: key_buffer_def)
  from prepare_key_ex_prepared [OF assms(1) buffer assms(2) key_prefix_of_def] obtain mem n where
    p: "mmc_prepare_key_ex key (replicate (MMC_MAX_KEY_LEN + 1) 0) (g_key_prefix env) = Some (MMC_OK, mem, Some n)"
      "take n mem = sent_key env key" "sent_key env key \<noteq> []" "length (sent_key env key) \<le> MMC_MAX_KEY_LEN"
      "\<forall>b \<in> set (sent_key env key). 32 < b"
    by (auto simp: prepared_key_def sent_key_def)
  show "mmc_prepare_key env key = Some (Some (sent_key env key))" using p(1,2) by (simp add: mmc_prepare_key_def)
  have "\<not> is_space b \<and> b \<noteq> 0" if "32 < b" for b :: u8
    using that by (auto simp: is_space_def word_less_nat_alt word_le_nat_alt)
  then show "word_bytes (sent_key env key)" using p(3,5) by (auto simp: word_bytes_def)
  show "length (sent_key env key) \<le> MMC_MAX_KEY_LEN" by (rule p(4))
qed

lemma single_value_request:
  "r_response req = mmc_pool_response_handler_null \<Longrightarrow> r_value req = mmc_value_handler_single want_flags want_cas \<Longrightarrow> get_request req"
  by (simp add: get_request_def mmc_value_handler_single_def Let_def)

text \<open>The value of \<^verbatim>\<open>return_value\<close> after the answer of a single get.\<close>

lemma single_value_result:
  assumes "php_runtime_ok rt" and "length k \<le> MMC_MAX_KEY_LEN" and "\<And>d. v = IS_DOUBLE d \<Longrightarrow> scanf_lg rt (printf_g14 rt d) = d"
    and "mmc_pack_value rt cs [] v flags = (MMC_OK, body, flags')"
    and "deliver_value rt (user_handlers (mmc_value_handler_single want_flags want_cas)) k flags' cas body u = Some (x, u')"
  shows "c_return u' = Val v"
proof -
  have "mmc_unpack_value rt k flags' cas body = UnpackDeliver k v flags' cas"
    using pack_unpack_any [OF assms(1-4), of cas] by simp
  then show ?thesis using assms(5) by (auto simp: deliver_value_def user_handlers_def mmc_value_handler_single_def Let_def)
qed

lemma null_to_false_return: "c_return (p_user (null_to_false w)) = (if c_return (p_user w) = Val IS_NULL then Val IS_FALSE else c_return (p_user w))"
  by (simp add: null_to_false_def return_to_def upd_call_def)

subsection \<open>Callbacks that do not fail the connection\<close>

definition values_taken :: "('d, 'o, 'u, 'p) mmc_request_t \<Rightarrow> bool" where
  "values_taken req \<longleftrightarrow> (\<forall>k v f c u. fst (r_value req k v f c u) = MMC_REQUEST_DONE)"

definition quiet_response :: "'u response_fun \<Rightarrow> bool" where
  "quiet_response f \<longleftrightarrow>
     (\<forall>a b c x. fst (f False a b c x) \<in> {MMC_REQUEST_FAILURE, MMC_REQUEST_RETRY, MMC_REQUEST_DONE} \<and>
        (fst (f False a b c x) = MMC_REQUEST_DONE \<longrightarrow> fst (snd (f False a b c x)) = fst x))"

lemma quiet_responses:
  "quiet_response (mmc_stored_handler result)" "quiet_response (mmc_numeric_response_handler z key result)"
  by (auto simp: quiet_response_def mmc_stored_handler_def mmc_numeric_response_handler_def fail_request_def mmc_request_failure_def
      mmc_server_failure_def mmc_consts case_prod_unfold Let_def split: php_value.splits)

lemma command_handlers:
  assumes "quiet_response (r_response req)" and "values_taken req"
  shows "quiet_handlers (handlers_of False req)" and "handlers_no_more (handlers_of False req)"
proof -
  have v: "value_handler (handlers_of False req) k v f c x = (MMC_REQUEST_DONE, fst x, snd (r_value req k v f c (snd x)))" for k v f c x
    using assms(2) by (simp add: handlers_of_def values_taken_def case_prod_unfold Let_def)
  have f: "fst (server_failure (handlers_of False req) a x) \<in> {MMC_REQUEST_FAILURE, MMC_REQUEST_RETRY}" for a x
    by (simp add: handlers_of_def mmc_server_failure_def case_prod_unfold Let_def)
  have r: "fst (response_handler (handlers_of False req) a b c x) \<in> {MMC_REQUEST_FAILURE, MMC_REQUEST_RETRY, MMC_REQUEST_DONE}"
    "fst (response_handler (handlers_of False req) a b c x) = MMC_REQUEST_DONE \<Longrightarrow> fst (snd (response_handler (handlers_of False req) a b c x)) = fst x"
    for a b c x
    using assms(1) by (simp_all add: quiet_response_def handlers_of_def del: split_paired_All)
  have "fst (response_handler (handlers_of False req) a b c (mmc, u)) \<in> {MMC_REQUEST_FAILURE, MMC_REQUEST_RETRY} \<or>
        fst (snd (response_handler (handlers_of False req) a b c (mmc, u))) = mmc" for a b c mmc u
    using r [of a b c "(mmc, u)"] by auto
  then show "quiet_handlers (handlers_of False req)" using v f by (simp add: quiet_handlers_def)
  have "fst (response_handler (handlers_of False req) a b c x) \<noteq> MMC_REQUEST_MORE" for a b c x
    using r(1) [of a b c x] by (auto simp: mmc_consts)
  moreover have "fst (server_failure (handlers_of False req) a x) \<noteq> MMC_REQUEST_MORE" for a x
    using f [of a x] by (auto simp: mmc_consts)
  ultimately show "handlers_no_more (handlers_of False req)" using v by (simp add: handlers_no_more_def mmc_consts)
qed

lemma request_allocated_values:
  assumes "mmc_pool_request pr False response failover w = (r, w')" and "\<forall>r. values_taken (p_req w r)"
  shows "values_taken (p_req w' r)"
  using assms
  by (auto simp: mmc_pool_request_def mmc_pool_request_alloc_def new_request_def mmc_request_reset_def values_taken_def split: option.splits)

subsection \<open>The interface of a protocol\<close>

text \<open>
  \<open>awaits_value\<close>, \<open>awaits_number\<close> and \<open>awaits_status\<close> are the states of a request whose command was
  built, for the key with the given address; \<open>value_reply key flags body\<close>, \<open>missing_reply\<close>,
  \<open>number_reply n\<close> and \<open>status_reply code\<close> are the bytes of the answers. Every short command has at
  most \<open>command_room\<close> bytes.
\<close>

definition command_room :: nat where
  "command_room = MMC_MAX_KEY_LEN + 64"

locale wire_protocol =
  fixes pr :: "('d, 'o, 'p) client_protocol" and cmd :: "('d, 'o, 'p) mmc_commands" and rt :: "('d, 'o) php_runtime"
    and usable :: "'p \<Rightarrow> bool" and known_key :: "nat \<Rightarrow> bool" and ok :: "'p \<times> mmc_io \<times> mmc_t \<times> ('d, 'o) php_call \<Rightarrow> bool"
    and awaits_status :: "'p \<Rightarrow> bool" and awaits_value :: "nat \<Rightarrow> 'p \<Rightarrow> bool" and awaits_number :: "nat \<Rightarrow> 'p \<Rightarrow> bool"
    and status_reply :: "int \<Rightarrow> buf \<Rightarrow> bool" and value_reply :: "buf \<Rightarrow> u32 \<Rightarrow> buf \<Rightarrow> buf \<Rightarrow> bool"
    and missing_reply :: "buf \<Rightarrow> bool" and number_reply :: "u64 \<Rightarrow> buf \<Rightarrow> bool"
  assumes parser_incremental:
      "quiet_handlers h \<Longrightarrow> handlers_no_more h \<Longrightarrow> incremental_parser (pool_step pr h) pool_recv ok"
    and parser_keeps_server: "quiet_handlers h \<Longrightarrow> keeps_server (pool_step pr h)"
    and parser_ready: "awaits_status p \<or> awaits_value zkey p \<or> awaits_number zkey p \<Longrightarrow> idle_io io \<Longrightarrow> ok (p, io, mmc, u)"
    and build_get: "blank_proto pr usable p \<Longrightarrow> known_key zkey \<Longrightarrow> length k \<le> MMC_MAX_KEY_LEN \<Longrightarrow> p' = cmd_get cmd (pr_set_key pr k p) op zkey k \<Longrightarrow>
      awaits_value zkey (pr_reset_readbuf pr p') \<and> length (pr_sendbuf pr (pr_reset_readbuf pr p')) \<le> command_room"
    and build_store: "blank_proto pr usable p \<Longrightarrow> cmd_store cmd (pr_create pr) op k flags exptime cas v = (MMC_OK, command) \<Longrightarrow>
      \<exists>p'. cmd_store cmd (pr_set_key pr k p) op k flags exptime cas v = (MMC_OK, p') \<and>
        awaits_status (pr_reset_readbuf pr p') \<and> pr_sendbuf pr (pr_reset_readbuf pr p') = pr_sendbuf pr command"
    and build_delete: "blank_proto pr usable p \<Longrightarrow> length k \<le> MMC_MAX_KEY_LEN \<Longrightarrow> p' = cmd_delete cmd (pr_set_key pr k p) k exptime \<Longrightarrow>
      awaits_status (pr_reset_readbuf pr p') \<and> length (pr_sendbuf pr (pr_reset_readbuf pr p')) \<le> command_room"
    and build_mutate: "blank_proto pr usable p \<Longrightarrow> known_key zkey \<Longrightarrow> length k \<le> MMC_MAX_KEY_LEN \<Longrightarrow>
      p' = cmd_mutate cmd (pr_set_key pr k p) zkey k amount defval defval_used exptime \<Longrightarrow>
      awaits_number zkey (pr_reset_readbuf pr p') \<and> length (pr_sendbuf pr (pr_reset_readbuf pr p')) \<le> command_room"
    and parse_status: "awaits_status p \<or> awaits_number zkey p \<Longrightarrow> status_reply code bs \<Longrightarrow> idle_io io \<Longrightarrow>
      (\<And>msg len. response_handler h code msg len (mmc, u) = (MMC_REQUEST_DONE, mmc, u')) \<Longrightarrow>
      \<exists>y. parse_loop (pool_step pr h) (p, receive io (bs @ rest), mmc, u) = Some (Some (MMC_REQUEST_DONE, y)) \<and> snd (snd (snd y)) = u'"
    and parse_value: "awaits_value zkey p \<Longrightarrow> known_key zkey \<Longrightarrow> value_reply k flags body bs \<Longrightarrow> length body + 4 < 2 ^ 32 \<Longrightarrow>
      get_request (req :: ('d, 'o, ('d, 'o) php_call, 'p) mmc_request_t) \<Longrightarrow>
      \<exists>key cas u'. length key \<le> MMC_MAX_KEY_LEN \<and>
        deliver_value rt (user_handlers (r_value req)) key flags cas body u = Some (MMC_REQUEST_DONE, u') \<and>
        (\<forall>io mmc. idle_io io \<longrightarrow> (\<exists>y. parse_loop (pool_step pr (handlers_of False req)) (p, receive io (bs @ rest), mmc, u) =
            Some (Some (MMC_REQUEST_DONE, y)) \<and> snd (snd (snd y)) = u'))"
    and parse_missing: "awaits_value zkey p \<Longrightarrow> missing_reply bs \<Longrightarrow> get_request (req :: ('d, 'o, ('d, 'o) php_call, 'p) mmc_request_t) \<Longrightarrow> idle_io io \<Longrightarrow>
      \<exists>y. parse_loop (pool_step pr (handlers_of False req)) (p, receive io (bs @ rest), mmc, u) = Some (Some (MMC_REQUEST_DONE, y)) \<and>
        snd (snd (snd y)) = u"
    and parse_number: "awaits_number zkey p \<Longrightarrow> number_reply n bs \<Longrightarrow> idle_io io \<Longrightarrow>
      (\<And>key f c. value_handler h key (IS_LONG n) f c (mmc, u) = (MMC_REQUEST_DONE, mmc, u')) \<Longrightarrow>
      \<exists>y. parse_loop (pool_step pr h) (p, receive io (bs @ rest), mmc, u) = Some (Some (MMC_REQUEST_DONE, y)) \<and> snd (snd (snd y)) = u'"
begin

text \<open>A command whose request was built, from its scheduling to the end of its answer.\<close>

lemma command_runs:
  fixes w :: "('d, 'o, 'p) client" and r :: nat and zkey :: nat
  defines "p \<equiv> pr_reset_readbuf pr (r_proto (p_req w r))" and "h \<equiv> handlers_of False (p_req w r)"
  assumes idle: "idle_connection env s fd m w0" "same_work w0 w" "mmc_pool_find env key w0 = Some (m, w1)"
    and req: "\<not> r_protocol_udp (p_req w r)" "awaits_status p \<or> awaits_value zkey p \<or> awaits_number zkey p"
    and h: "quiet_handlers h" "handlers_no_more h"
    and net: "answers env s fd m N w0 len (bs @ rest)" "length (pr_sendbuf pr p) \<le> len" "int len \<le> st_chunk_size (m_tcp (p_mmc w0 m))"
    and parse: "\<And>io mmc. idle_io io \<Longrightarrow>
      \<exists>y. parse_loop (pool_step pr h) (p, receive io (bs @ rest), mmc, p_user w) = Some (Some (MMC_REQUEST_DONE, y)) \<and> snd (snd (snd y)) = user"
    and red: "redundancy \<le> 1"
  shows "\<exists>w1 w'. mmc_pool_schedule_key (pool_ops env pr (Suc n)) env pr key r redundancy w = Some (MMC_OK, w1) \<and>
    mmc_pool_run (pool_ops env pr (Suc n)) pr w1 = Some w' \<and> p_user w' = user"
proof -
  have "\<forall>io mmc. idle_io io \<longrightarrow> ok (p, io, mmc, p_user w)" using parser_ready [OF req(2)] by blast
  moreover have "\<forall>io mmc. idle_io io \<longrightarrow>
      (\<exists>y. parse_loop (pool_step pr h) (p, receive io (bs @ rest), mmc, p_user w) = Some (Some (MMC_REQUEST_DONE, y)) \<and> snd (snd (snd y)) = user)"
    using parse by blast
  ultimately show ?thesis
    using schedule_and_run [OF idle req(1) net(1) net(2,3) [unfolded p_def] parser_incremental [OF h, unfolded h_def]
        parser_keeps_server [OF h(1), unfolded h_def] _ _ red] unfolding p_def h_def by blast
qed

lemma get_returns:
  fixes w :: "('d, 'o, 'p) client"
  assumes idle: "idle_connection env s fd m w" "mmc_pool_find env (sent_key env (snd key)) w = Some (m, w1)"
    and key: "snd key \<noteq> []" "length (key_prefix_of env) \<le> MMC_MAX_KEY_LEN" "known_key (fst key)" and usable: "all_usable usable w"
    and pack: "php_runtime_ok rt" "\<And>d. v = IS_DOUBLE d \<Longrightarrow> scanf_lg rt (printf_g14 rt d) = d"
      "mmc_pack_value rt cs [] v flags = (MMC_OK, body, flags')" "length body + 4 < 2 ^ 32"
    and answer: "if stored then value_reply (sent_key env (snd key)) flags' body bs else missing_reply bs"
    and net: "answers env s fd m N w command_room (bs @ rest)" "int command_room \<le> st_chunk_size (m_tcp (p_mmc w m))"
  shows "\<exists>w'. memcache_get (pool_ops env pr (Suc n)) env pr cmd z want_flags want_cas (OneKey key) w = Some w' \<and>
    c_return (p_user w') = Val (if stored \<and> v \<noteq> IS_NULL then v else IS_FALSE)"
proof -
  let ?w0 = "return_to (Val IS_FALSE) w" and ?k = "sent_key env (snd key)" and ?op = "if want_cas then MMC_OP_GETS else MMC_OP_GET"
  let ?vh = "mmc_value_handler_single want_flags want_cas :: ('d, 'o, ('d, 'o) php_call) value_fun"
  obtain r wa where alloc: "mmc_pool_request_get pr False ?vh mmc_failover_key ?w0 = (r, wa)" by fastforce
  have "all_usable usable ?w0" using usable by (simp add: all_usable_def return_to_def upd_call_def)
  note a = get_request_allocated(1-5) [OF alloc] get_request_allocated(6) [OF alloc this]
  define wb where "wb = upd_proto r (\<lambda>p. cmd_get cmd (pr_set_key pr ?k p) ?op (fst key) ?k) wa"
  have one: "get_one (pool_ops env pr (Suc n)) env pr cmd want_flags want_cas key ?w0 = mmc_pool_schedule_key (pool_ops env pr (Suc n)) env pr ?k r 1 wb"
    using alloc prepare_sent_key(1) [OF key(1,2)] by (simp add: get_one_def wb_def)
  have same: "same_work w wb" using a(1) by (simp add: wb_def same_work_def upd_proto_def upd_req_def return_to_def upd_call_def)
  have req: "r_value (p_req wb r) = ?vh" "r_response (p_req wb r) = mmc_pool_response_handler_null" "\<not> r_protocol_udp (p_req wb r)"
    "p_user wb = (p_user w)\<lparr>c_return := Val IS_FALSE\<rparr>"
    using a(2-5) by (simp_all add: wb_def upd_proto_def return_to_def upd_call_def)
  let ?p = "pr_reset_readbuf pr (r_proto (p_req wb r))"
  have "r_proto (p_req wb r) = cmd_get cmd (pr_set_key pr ?k (r_proto (p_req wa r))) ?op (fst key) ?k"
    by (simp add: wb_def upd_proto_def)
  from build_get [OF a(6) key(3) prepare_sent_key(3) [OF key(1,2)] this]
  have proto: "awaits_value (fst key) ?p" "length (pr_sendbuf pr ?p) \<le> command_room" by simp_all
  have g: "get_request (p_req wb r)" by (rule single_value_request [OF req(2,1)])
  have "\<exists>u'. c_return u' = Val (if stored then v else IS_FALSE) \<and> (\<forall>io mmc. idle_io io \<longrightarrow>
      (\<exists>y. parse_loop (pool_step pr (handlers_of False (p_req wb r))) (?p, receive io (bs @ rest), mmc, p_user wb) =
         Some (Some (MMC_REQUEST_DONE, y)) \<and> snd (snd (snd y)) = u'))"
  proof (cases stored)
    case True
    then have "value_reply ?k flags' body bs" using answer by simp
    from parse_value [OF proto(1) key(3) this pack(4) g] obtain k cas u' where
      d: "length k \<le> MMC_MAX_KEY_LEN" "deliver_value rt (user_handlers (r_value (p_req wb r))) k flags' cas body (p_user wb) = Some (MMC_REQUEST_DONE, u')"
        "\<forall>io mmc. idle_io io \<longrightarrow> (\<exists>y. parse_loop (pool_step pr (handlers_of False (p_req wb r))) (?p, receive io (bs @ rest), mmc, p_user wb) =
            Some (Some (MMC_REQUEST_DONE, y)) \<and> snd (snd (snd y)) = u')" by blast
    have "c_return u' = Val v" by (rule single_value_result [OF pack(1) d(1) pack(2,3) d(2) [unfolded req(1)]])
    then show ?thesis using d(3) True by auto
  next
    case False
    then have "missing_reply bs" using answer by simp
    from parse_missing [OF proto(1) this g] show ?thesis
      using False req(4) by (intro exI [of _ "p_user wb"]) simp
  qed
  then obtain u' where u': "c_return u' = Val (if stored then v else IS_FALSE)" and parse: "\<And>io mmc. idle_io io \<Longrightarrow>
      \<exists>y. parse_loop (pool_step pr (handlers_of False (p_req wb r))) (?p, receive io (bs @ rest), mmc, p_user wb) =
         Some (Some (MMC_REQUEST_DONE, y)) \<and> snd (snd (snd y)) = u'" by blast
  have waits: "awaits_status ?p \<or> awaits_value (fst key) ?p \<or> awaits_number (fst key) ?p" using proto(1) by simp
  from command_runs [OF idle(1) same idle(2) req(3) waits get_request_handlers(1,3) [OF g] net(1) proto(2) net(2) parse order.refl]
  obtain w1 w' where "mmc_pool_schedule_key (pool_ops env pr (Suc n)) env pr ?k r 1 wb = Some (MMC_OK, w1)"
    "mmc_pool_run (pool_ops env pr (Suc n)) pr w1 = Some w'" "p_user w' = u'" by blast
  then have "memcache_get (pool_ops env pr (Suc n)) env pr cmd z want_flags want_cas (OneKey key) w = Some (null_to_false w')"
    using idle(1) one by (simp add: memcache_get_def idle_connection_def Let_def)
  then show ?thesis using u' \<open>p_user w' = u'\<close> by (auto simp: null_to_false_return)
qed

lemma status_command_runs:
  fixes w :: "('d, 'o, 'p) client" and zkey :: nat
  assumes idle: "idle_connection env s fd m w0" "same_work w0 w" "mmc_pool_find env key w0 = Some (m, w1)"
    and req: "\<not> r_protocol_udp (p_req w r)" "quiet_response (r_response (p_req w r))" "values_taken (p_req w r)"
    and waits: "awaits_status (pr_reset_readbuf pr (r_proto (p_req w r))) \<or> awaits_number zkey (pr_reset_readbuf pr (r_proto (p_req w r)))"
    and answer: "status_reply code bs" "\<And>mmc msg len. r_response (p_req w r) False code msg len (mmc, p_user w) = (MMC_REQUEST_DONE, mmc, user)"
    and net: "answers env s fd m N w0 len (bs @ rest)" "length (pr_sendbuf pr (pr_reset_readbuf pr (r_proto (p_req w r)))) \<le> len"
      "int len \<le> st_chunk_size (m_tcp (p_mmc w0 m))"
    and red: "redundancy \<le> 1"
  shows "\<exists>w1 w'. mmc_pool_schedule_key (pool_ops env pr (Suc n)) env pr key r redundancy w = Some (MMC_OK, w1) \<and>
    mmc_pool_run (pool_ops env pr (Suc n)) pr w1 = Some w' \<and> p_user w' = user"
proof -
  have waits': "awaits_status (pr_reset_readbuf pr (r_proto (p_req w r))) \<or> awaits_value zkey (pr_reset_readbuf pr (r_proto (p_req w r))) \<or>
      awaits_number zkey (pr_reset_readbuf pr (r_proto (p_req w r)))" using waits by blast
  have "response_handler (handlers_of False (p_req w r)) code msg len (mmc, p_user w) = (MMC_REQUEST_DONE, mmc, user)" for msg len mmc
    using answer(2) by (simp add: handlers_of_def)
  from parse_status [OF waits answer(1) _ this] show ?thesis
    by (intro command_runs [OF idle req(1) waits' command_handlers [OF req(2,3)] net _ red])
qed

lemma store_returns:
  fixes w :: "('d, 'o, 'p) client"
  assumes idle: "idle_connection env s fd m w" "mmc_pool_find env (sent_key env key) w = Some (m, w1)"
    and key: "key \<noteq> []" "length (key_prefix_of env) \<le> MMC_MAX_KEY_LEN"
    and usable: "all_usable usable w" "\<forall>r. values_taken (p_req w r)"
    and store: "cmd_store cmd (pr_create pr) op (sent_key env key) (ucast flags) (ucast exptime) cas v = (MMC_OK, command)"
    and answer: "status_reply code bs" "code \<in> {MMC_OK, MMC_RESPONSE_EXISTS}"
    and net: "answers env s fd m N w (length (pr_sendbuf pr command)) (bs @ rest)" "int (length (pr_sendbuf pr command)) \<le> st_chunk_size (m_tcp (p_mmc w m))"
    and red: "redundancy \<le> 1"
  shows "\<exists>w'. php_mmc_store (pool_ops env pr (Suc n)) env pr cmd redundancy op (StoreKey key (Some v)) flags exptime cas w = Some w' \<and>
    c_return (p_user w') = Val (if code = MMC_OK then IS_TRUE else IS_FALSE)"
proof -
  let ?w0 = "return_to (Val IS_NULL) w" and ?k = "sent_key env key"
  let ?sh = "mmc_stored_handler return_value :: ('d, 'o) php_call response_fun"
  let ?u = "(p_user w)\<lparr>c_return := Val (if code = MMC_OK then IS_TRUE else IS_FALSE)\<rparr>"
  obtain r wa where alloc: "mmc_pool_request pr False ?sh mmc_failover_key ?w0 = (r, wa)" by fastforce
  have "all_usable usable ?w0" "\<forall>r. values_taken (p_req ?w0 r)" using usable by (simp_all add: all_usable_def return_to_def upd_call_def)
  note a = request_allocated(1-5) [OF alloc] request_allocated(6) [OF alloc this(1)] request_allocated_values [OF alloc this(2)]
  from build_store [OF a(6) store] obtain p where
    p: "cmd_store cmd (pr_set_key pr ?k (r_proto (p_req wa r))) op ?k (ucast flags) (ucast exptime) cas v = (MMC_OK, p)"
      "awaits_status (pr_reset_readbuf pr p)" "pr_sendbuf pr (pr_reset_readbuf pr p) = pr_sendbuf pr command" by blast
  define wb where "wb = upd_proto r (\<lambda>_. p) (upd_proto r (pr_set_key pr ?k) wa)"
  have one: "store_one (pool_ops env pr (Suc n)) env pr cmd redundancy op key v flags exptime cas ?w0 =
      mmc_pool_schedule_key (pool_ops env pr (Suc n)) env pr ?k r redundancy wb"
    using alloc prepare_sent_key(1) [OF key] p(1) by (simp add: store_one_def wb_def upd_proto_def)
  have same: "same_work w wb" using a(1) by (simp add: wb_def same_work_def upd_proto_def upd_req_def return_to_def upd_call_def)
  have req: "r_response (p_req wb r) = ?sh" "\<not> r_protocol_udp (p_req wb r)" "p_user wb = (p_user w)\<lparr>c_return := Val IS_NULL\<rparr>"
    "r_proto (p_req wb r) = p" "values_taken (p_req wb r)"
    using a(2-4,7) by (simp_all add: wb_def upd_proto_def return_to_def upd_call_def values_taken_def)
  have h: "r_response (p_req wb r) False code msg len (mmc, p_user wb) = (MMC_REQUEST_DONE, mmc, ?u)" for mmc msg len
    using answer(2) by (auto simp: req(1,3) mmc_stored_handler_def return_value_def mmc_consts)
  have "\<exists>w1 w'. mmc_pool_schedule_key (pool_ops env pr (Suc n)) env pr ?k r redundancy wb = Some (MMC_OK, w1) \<and>
      mmc_pool_run (pool_ops env pr (Suc n)) pr w1 = Some w' \<and> p_user w' = ?u"
    by (rule status_command_runs [OF idle(1) same idle(2) req(2) _ req(5) _ answer(1) h net(1) _ net(2) red])
      (use p(2,3) quiet_responses(1) in \<open>simp_all add: req(1,4)\<close>)
  then obtain w' where "php_mmc_store (pool_ops env pr (Suc n)) env pr cmd redundancy op (StoreKey key (Some v)) flags exptime cas w =
      Some (null_to_false w')" "p_user w' = ?u"
    using idle(1) one by (auto simp: php_mmc_store_def idle_connection_def Let_def)
  then show ?thesis by (simp add: null_to_false_return)
qed

text \<open>An increment, a decrement or a delete of one key, from its scheduling.\<close>

lemma numeric_scheduled:
  fixes w :: "('d, 'o, 'p) client" and key :: "nat \<times> buf"
  defines "k \<equiv> \<lambda>env. sent_key env (snd key)"
  assumes idle: "idle_connection env s fd m w" and key: "snd key \<noteq> []" "length (key_prefix_of env) \<le> MMC_MAX_KEY_LEN" "known_key (fst key)"
    and usable: "all_usable usable w"
  shows "\<exists>r wb. numeric_one ops env pr cmd z redundancy deleted invert (mmc_value_handler_single False False) key amount defval
        defval_used exptime (return_to (Val IS_NULL) w) = mmc_pool_schedule_key ops env pr (k env) r redundancy wb \<and>
    same_work w wb \<and> \<not> r_protocol_udp (p_req wb r) \<and> values_taken (p_req wb r) \<and>
    r_response (p_req wb r) = mmc_numeric_response_handler z (k env) return_value \<and>
    r_value (p_req wb r) = mmc_value_handler_single False False \<and> p_user wb = (p_user w)\<lparr>c_return := Val IS_NULL\<rparr> \<and>
    length (pr_sendbuf pr (pr_reset_readbuf pr (r_proto (p_req wb r)))) \<le> command_room \<and>
    (if deleted then awaits_status (pr_reset_readbuf pr (r_proto (p_req wb r))) else awaits_number (fst key) (pr_reset_readbuf pr (r_proto (p_req wb r))))"
proof -
  let ?w0 = "return_to (Val IS_NULL) w" and ?vh = "mmc_value_handler_single False False :: ('d, 'o, ('d, 'o) php_call) value_fun"
  obtain r wa where alloc: "mmc_pool_request pr False mmc_pool_response_handler_null mmc_failover_key ?w0 = (r, wa)" by fastforce
  have "all_usable usable ?w0" using usable by (simp add: all_usable_def return_to_def upd_call_def)
  note a = request_allocated(1-5) [OF alloc] request_allocated(6) [OF alloc this]
  define p where "p = (if deleted then cmd_delete cmd (pr_set_key pr (k env) (r_proto (p_req wa r))) (k env) (ucast exptime)
     else cmd_mutate cmd (pr_set_key pr (k env) (r_proto (p_req wa r))) (fst key) (k env) (if invert then - amount else amount) defval
            defval_used (ucast exptime))"
  define wb where "wb = upd_proto r (\<lambda>_. p) (upd_req r (\<lambda>req. req\<lparr>r_response := mmc_numeric_response_handler z (k env) return_value\<rparr>)
     (upd_proto r (pr_set_key pr (k env)) (upd_req r (\<lambda>req. req\<lparr>r_value := ?vh\<rparr>) wa)))"
  have "numeric_one ops env pr cmd z redundancy deleted invert ?vh key amount defval defval_used exptime ?w0 =
      mmc_pool_schedule_key ops env pr (k env) r redundancy wb"
    using alloc prepare_sent_key(1) [OF key(1,2)] by (simp add: numeric_one_def wb_def p_def k_def upd_proto_def upd_req_def)
  moreover have "same_work w wb"
    using a(1) by (simp add: wb_def same_work_def upd_proto_def upd_req_def return_to_def upd_call_def)
  moreover have "r_proto (p_req wb r) = p" "\<not> r_protocol_udp (p_req wb r)" "values_taken (p_req wb r)"
    "r_response (p_req wb r) = mmc_numeric_response_handler z (k env) return_value" "r_value (p_req wb r) = ?vh"
    "p_user wb = (p_user w)\<lparr>c_return := Val IS_NULL\<rparr>"
    using a(2,3) by (simp_all add: wb_def upd_proto_def return_to_def upd_call_def values_taken_def mmc_value_handler_single_def Let_def)
  moreover have "length (pr_sendbuf pr (pr_reset_readbuf pr p)) \<le> command_room \<and>
      (if deleted then awaits_status (pr_reset_readbuf pr p) else awaits_number (fst key) (pr_reset_readbuf pr p))"
    using build_delete [OF a(6) prepare_sent_key(3) [OF key(1,2)] refl] build_mutate [OF a(6) key(3) prepare_sent_key(3) [OF key(1,2)] refl]
    by (simp add: p_def k_def)
  ultimately show ?thesis by (intro exI [of _ r] exI [of _ wb]) simp
qed

lemma numeric_status_returns:
  fixes w :: "('d, 'o, 'p) client"
  assumes idle: "idle_connection env s fd m w" "mmc_pool_find env (sent_key env (snd key)) w = Some (m, w1)"
    and key: "snd key \<noteq> []" "length (key_prefix_of env) \<le> MMC_MAX_KEY_LEN" "known_key (fst key)" and usable: "all_usable usable w"
    and answer: "status_reply code bs" "code \<in> {MMC_OK, MMC_RESPONSE_NOT_FOUND}"
    and net: "answers env s fd m N w command_room (bs @ rest)" "int command_room \<le> st_chunk_size (m_tcp (p_mmc w m))" and red: "redundancy \<le> 1"
  shows "\<exists>w'. php_mmc_numeric (pool_ops env pr (Suc n)) env pr cmd z redundancy deleted invert (OneKey key) amount defval defval_used exptime w = Some w' \<and>
    c_return (p_user w') = Val (if code = MMC_OK then IS_TRUE else IS_FALSE)"
proof -
  let ?u = "(p_user w)\<lparr>c_return := Val (if code = MMC_OK then IS_TRUE else IS_FALSE)\<rparr>"
  from numeric_scheduled [OF idle(1) key usable, of "pool_ops env pr (Suc n)" z redundancy deleted invert amount defval defval_used exptime]
  obtain r wb where b: "numeric_one (pool_ops env pr (Suc n)) env pr cmd z redundancy deleted invert (mmc_value_handler_single False False) key amount
        defval defval_used exptime (return_to (Val IS_NULL) w) = mmc_pool_schedule_key (pool_ops env pr (Suc n)) env pr (sent_key env (snd key)) r redundancy wb"
      "same_work w wb" "\<not> r_protocol_udp (p_req wb r)" "values_taken (p_req wb r)"
      "r_response (p_req wb r) = mmc_numeric_response_handler z (sent_key env (snd key)) return_value" "p_user wb = (p_user w)\<lparr>c_return := Val IS_NULL\<rparr>"
      "length (pr_sendbuf pr (pr_reset_readbuf pr (r_proto (p_req wb r)))) \<le> command_room"
      "if deleted then awaits_status (pr_reset_readbuf pr (r_proto (p_req wb r))) else awaits_number (fst key) (pr_reset_readbuf pr (r_proto (p_req wb r)))"
    by blast
  have waits: "awaits_status (pr_reset_readbuf pr (r_proto (p_req wb r))) \<or> awaits_number (fst key) (pr_reset_readbuf pr (r_proto (p_req wb r)))"
    using b(8) by (simp split: if_splits)
  have h: "r_response (p_req wb r) False code msg len (mmc, p_user wb) = (MMC_REQUEST_DONE, mmc, ?u)" for mmc msg len
    using answer(2) by (auto simp: b(5,6) mmc_numeric_response_handler_def return_value_def mmc_consts)
  have quiet: "quiet_response (r_response (p_req wb r))" unfolding b(5) by (rule quiet_responses)
  from status_command_runs [where n = n, OF idle(1) b(2) idle(2) b(3) quiet b(4) waits answer(1) h net(1) b(7) net(2) red]
  obtain w' where "php_mmc_numeric (pool_ops env pr (Suc n)) env pr cmd z redundancy deleted invert (OneKey key) amount defval defval_used exptime w =
      Some (null_to_false w')" "p_user w' = ?u"
    using idle(1) b(1) by (fastforce simp: php_mmc_numeric_def idle_connection_def Let_def)
  then show ?thesis by (simp add: null_to_false_return)
qed

lemma number_returns:
  fixes w :: "('d, 'o, 'p) client"
  assumes idle: "idle_connection env s fd m w" "mmc_pool_find env (sent_key env (snd key)) w = Some (m, w1)"
    and key: "snd key \<noteq> []" "length (key_prefix_of env) \<le> MMC_MAX_KEY_LEN" "known_key (fst key)" and usable: "all_usable usable w"
    and answer: "number_reply v bs"
    and net: "answers env s fd m N w command_room (bs @ rest)" "int command_room \<le> st_chunk_size (m_tcp (p_mmc w m))" and red: "redundancy \<le> 1"
  shows "\<exists>w'. php_mmc_numeric (pool_ops env pr (Suc n)) env pr cmd z redundancy False invert (OneKey key) amount defval defval_used exptime w = Some w' \<and>
    c_return (p_user w') = Val (IS_LONG v)"
proof -
  let ?u = "(p_user w)\<lparr>c_return := Val (IS_LONG v)\<rparr>"
  from numeric_scheduled [OF idle(1) key usable, of "pool_ops env pr (Suc n)" z redundancy False invert amount defval defval_used exptime]
  obtain r wb where b: "numeric_one (pool_ops env pr (Suc n)) env pr cmd z redundancy False invert (mmc_value_handler_single False False) key amount
        defval defval_used exptime (return_to (Val IS_NULL) w) = mmc_pool_schedule_key (pool_ops env pr (Suc n)) env pr (sent_key env (snd key)) r redundancy wb"
      "same_work w wb" "\<not> r_protocol_udp (p_req wb r)" "values_taken (p_req wb r)"
      "r_response (p_req wb r) = mmc_numeric_response_handler z (sent_key env (snd key)) return_value" "p_user wb = (p_user w)\<lparr>c_return := Val IS_NULL\<rparr>"
      "length (pr_sendbuf pr (pr_reset_readbuf pr (r_proto (p_req wb r)))) \<le> command_room"
      "awaits_number (fst key) (pr_reset_readbuf pr (r_proto (p_req wb r)))" "r_value (p_req wb r) = mmc_value_handler_single False False"
    by auto
  let ?p = "pr_reset_readbuf pr (r_proto (p_req wb r))" and ?h = "handlers_of False (p_req wb r)"
  have waits: "awaits_status ?p \<or> awaits_value (fst key) ?p \<or> awaits_number (fst key) ?p" using b(8) by simp
  have h: "value_handler ?h k (IS_LONG v) f c (mmc, p_user wb) = (MMC_REQUEST_DONE, mmc, ?u)" for mmc k f c
    by (simp add: handlers_of_def b(6,9) mmc_value_handler_single_def Let_def)
  have quiet: "quiet_response (r_response (p_req wb r))" unfolding b(5) by (rule quiet_responses)
  have parse: "\<exists>y. parse_loop (pool_step pr ?h) (?p, receive io (bs @ rest), mmc, p_user wb) = Some (Some (MMC_REQUEST_DONE, y)) \<and>
      snd (snd (snd y)) = ?u" if "idle_io io" for io mmc
    by (rule parse_number [OF b(8) answer that h])
  from command_runs [where n = n, OF idle(1) b(2) idle(2) b(3) waits command_handlers [OF quiet b(4)] net(1) b(7) net(2) parse red]
  obtain w' where "php_mmc_numeric (pool_ops env pr (Suc n)) env pr cmd z redundancy False invert (OneKey key) amount defval defval_used exptime w =
      Some (null_to_false w')" "p_user w' = ?u"
    using idle(1) b(1) by (fastforce simp: php_mmc_numeric_def idle_connection_def Let_def)
  then show ?thesis by (simp add: null_to_false_return)
qed

end

end
