(* ===== verification/Mmc_Exchange.thy ===== *)
theory Mmc_Exchange
  imports Mmc_Wire
begin

text \<open>
  Whole commands on a healthy connection for the two protocols: each is an instance of the
  interface \<open>wire_protocol\<close>, so what \<open>memcache_get\<close>, \<open>memcache_set\<close>, \<open>memcache_delete\<close>,
  \<open>memcache_increment\<close> and their relatives return is what the answer of the server says. Last,
  an answer that takes a healthy server down.
\<close>

subsection \<open>The ascii protocol\<close>

lemma idle_line_io: "idle_io io \<Longrightarrow> line_io io"
  by (simp add: line_io_def idle_io_def)

lemma ascii_ok_start: "a_readbuf p = [] \<Longrightarrow> idle_io io \<Longrightarrow> ascii_ok (p, io, mmc, u)"
  by (simp add: ascii_ok_def idle_line_io)

lemma ascii_values_parse:
  assumes req: "get_request req" and its: "\<forall>it \<in> set its. item_ok it" and p: "a_parse p = PARSE_VALUE" "a_readbuf p = []" "av_cas p = 0"
    and io: "idle_io io"
  shows "\<exists>y. parse_loop (pool_step (mmc_ascii_protocol rt) (handlers_of False req)) (p, receive io (value_stream its @ rest), mmc, u) =
      Some (Some (MMC_REQUEST_DONE, y)) \<and> snd (snd (snd y)) = deliver_all rt (user_handlers (r_value req)) 0 its u"
proof -
  let ?h = "handlers_of False req" and ?io = "receive io (value_stream its @ rest)"
  have l: "line_io ?io" "unread ?io = value_stream its @ rest" "io_input ?io = []"
    using io idle_line_io [OF io] by (simp_all add: line_io_receive unread_receive line_io_read idle_io_def)
  have "awaits_line p ?io 0 [] its rest" using p l by (simp add: awaits_line_def line_io_def)
  from loop_from_line [OF get_request_handlers(2) [OF req, of False] its this, where rt = rt and s = "(mmc, u)"] obtain req' io' where
    "ascii_parse_loop rt ?h p ?io (mmc, u) = Some (Some (MMC_REQUEST_DONE, req', io', deliver_all rt ?h 0 its (mmc, u)))"
    by (auto simp: loop_result_def waits_def awaits_line_def awaits_body_def value_stream_nl)
  then show ?thesis by (auto simp: pool_step_ascii ascii_parse_loop_def deliver_all_user)
qed

lemma received_line:
  assumes io: "idle_io io" and line: "10 \<notin> set l" "length l + 2 < MMC_BUFFER_SIZE"
  shows "\<exists>io'. mmc_stream_get_line (receive io ((l @ crlf) @ rest)) = (Some (l @ crlf), io')"
proof -
  let ?io = "receive io ((l @ crlf) @ rest)"
  have r: "line_io ?io" "unread ?io = l @ crlf @ rest" "io_input ?io = []"
    using io idle_line_io [OF io] by (simp_all add: line_io_receive unread_receive line_io_read idle_io_def)
  have "10 \<notin> set (l @ [13])" "unread ?io = (l @ [13]) @ 10 # rest" "length (io_input ?io) + length (l @ [13]) + 1 < MMC_BUFFER_SIZE"
    using line r by (simp_all add: crlf_def)
  from get_line_complete [OF _ this] show ?thesis using r by (auto simp: line_io_def crlf_def)
qed

lemma store_sendbuf:
  assumes "mmc_ascii_store rt cs (mmc_ascii_create_request []) op k flags exptime cas v = (MMC_OK, command)" and "a_sendbuf p = []"
  shows "\<exists>p'. mmc_ascii_store rt cs p op k flags exptime cas v = (MMC_OK, p') \<and> a_sendbuf p' = a_sendbuf command \<and>
    a_parse p' = PARSE_RESPONSE \<and> a_readbuf p' = a_readbuf p \<and> av_cas p' = av_cas p"
  using assms
  by (auto simp: mmc_ascii_store_def append_send_def mmc_ascii_create_request_def Let_def split: prod.splits if_splits option.splits)

text \<open>The answers: one line with a status or a number, or the values and \<^verbatim>\<open>END\<close>.\<close>

definition ascii_status_reply :: "int \<Rightarrow> buf \<Rightarrow> bool" where
  "ascii_status_reply code bs \<longleftrightarrow>
     (\<exists>l. bs = l @ crlf \<and> 10 \<notin> set l \<and> length l + 2 < MMC_BUFFER_SIZE \<and> fst (mmc_request_check_response (l @ crlf)) = code \<and>
        code \<noteq> MMC_RESPONSE_UNKNOWN)"

lemma ascii_status_line:
  "10 \<notin> set l \<Longrightarrow> length l + 2 < MMC_BUFFER_SIZE \<Longrightarrow> fst (mmc_request_check_response (l @ crlf)) = code \<Longrightarrow> code \<noteq> MMC_RESPONSE_UNKNOWN \<Longrightarrow>
   ascii_status_reply code (l @ crlf)"
  by (auto simp: ascii_status_reply_def)

definition ascii_value_reply :: "buf \<Rightarrow> u32 \<Rightarrow> buf \<Rightarrow> buf \<Rightarrow> bool" where
  "ascii_value_reply key flags body bs \<longleftrightarrow> word_bytes key \<and> length key \<le> MMC_MAX_KEY_LEN \<and>
     (\<exists>cas. bs = value_stream [\<lparr>vi_key = key, vi_flags = flags, vi_cas = cas, vi_payload = body\<rparr>])"

definition ascii_number_reply :: "u64 \<Rightarrow> buf \<Rightarrow> bool" where
  "ascii_number_reply n bs \<longleftrightarrow> n < 2 ^ 63 \<and> bs = dec (unat n) @ crlf"

definition ascii_awaits :: "ascii_parser \<Rightarrow> mmc_ascii_request \<Rightarrow> bool" where
  "ascii_awaits parser p \<longleftrightarrow> a_parse p = parser \<and> a_readbuf p = [] \<and> av_cas p = 0"

lemma ascii_blank:
  "blank_proto (mmc_ascii_protocol rt) usable p \<Longrightarrow> a_sendbuf p = [] \<and> a_readbuf p = [] \<and> av_cas p = 0"
  by (auto simp: blank_proto_def mmc_ascii_protocol_def mmc_ascii_create_request_def mmc_ascii_reset_request_def)

lemma ascii_status_line_parse:
  assumes p: "ascii_awaits PARSE_RESPONSE p \<or> ascii_awaits PARSE_MUTATE p" and io: "idle_io io" and line: "10 \<notin> set l" "length l + 2 < MMC_BUFFER_SIZE"
    and code: "fst (mmc_request_check_response (l @ crlf)) \<noteq> MMC_RESPONSE_UNKNOWN"
    and h: "\<And>msg len. response_handler h (fst (mmc_request_check_response (l @ crlf))) msg len (mmc, u) = (MMC_REQUEST_DONE, mmc, u')"
  shows "\<exists>y. parse_loop (pool_step (mmc_ascii_protocol rt) h) (p, receive io ((l @ crlf) @ rest), mmc, u) =
      Some (Some (MMC_REQUEST_DONE, y)) \<and> snd (snd (snd y)) = u'"
proof -
  obtain io' where l: "mmc_stream_get_line (receive io ((l @ crlf) @ rest)) = (Some (l @ crlf), io')"
    using received_line [OF io line, of rest] by auto
  obtain code msg where c: "mmc_request_check_response (l @ crlf) = (code, msg)" by fastforce
  have "pool_step (mmc_ascii_protocol rt) h (p, receive io ((l @ crlf) @ rest), mmc, u) = Some (MMC_REQUEST_DONE, p, io', mmc, u')"
    using p l c h code
    by (auto simp: ascii_awaits_def pool_step_ascii ascii_step_def ascii_parse_def mmc_request_parse_response_def mmc_request_parse_mutate_def)
  then show ?thesis by (simp add: parse_loop_step mmc_consts)
qed

lemma number_line:
  "mmc_request_check_response (dec n @ crlf) = (MMC_RESPONSE_UNKNOWN, dec n @ [0, 10])"
proof -
  obtain d ds where d: "dec n = d # ds" by (cases "dec n") auto
  then have "is_digit d" using dec_digits [of n] by simp
  then have "d \<notin> {79, 83, 68, 78, 69, 67}" by (auto simp: is_digit_def)
  then show ?thesis
    by (simp add: mmc_request_check_response_def mmc_str_left_def d bytes_def of_char_def Let_def nth_append list_update_append)
qed

lemma scan_number: "n < 2 ^ 63 \<Longrightarrow> scan_ld (dec n @ [0, 10]) = Some (int n)"
proof -
  assume n: "n < 2 ^ 63"
  have "scan_int (dec n) = scan_int (32 # dec n @ [])" by (simp add: scan_int_def)
  also have "\<dots> = Some (int n, [])" by (rule scan_int_dec) simp
  finally have "scan_int (dec n) = Some (int n, [])" .
  moreover have "c_string (dec n @ [0, 10]) = dec n"
    using dec_no(1) [of n] by (simp add: c_string_def takeWhile_append)
  moreover have "max (- (2 ^ 63)) (min (2 ^ 63 - 1) (int n)) = int n" using n by simp
  ultimately show ?thesis by (simp add: scan_ld_def)
qed

lemma ascii_number_parse:
  assumes p: "ascii_awaits PARSE_MUTATE p" and io: "idle_io io" and n: "n < 2 ^ 63"
    and h: "value_handler h (a_key p) (IS_LONG n) 0 0 (mmc, u) = (MMC_REQUEST_DONE, mmc, u')"
  shows "\<exists>y. parse_loop (pool_step (mmc_ascii_protocol rt) h) (p, receive io ((dec (unat n) @ crlf) @ rest), mmc, u) =
      Some (Some (MMC_REQUEST_DONE, y)) \<and> snd (snd (snd y)) = u'"
proof -
  have "length (dec (unat n)) \<le> 20" using unat_u64_less [of n] by (intro dec_length_u64) simp
  then have len: "length (dec (unat n)) + 2 < MMC_BUFFER_SIZE" by (simp add: MMC_BUFFER_SIZE_def)
  obtain io' where l: "mmc_stream_get_line (receive io ((dec (unat n) @ crlf) @ rest)) = (Some (dec (unat n) @ crlf), io')"
    using received_line [OF io _ len, of rest] by auto
  have "unat n < 2 ^ 63" using n by (simp add: word_less_nat_alt)
  note s = scan_number [OF this]
  have "pool_step (mmc_ascii_protocol rt) h (p, receive io ((dec (unat n) @ crlf) @ rest), mmc, u) = Some (MMC_REQUEST_DONE, p, io', mmc, u')"
    using p l h number_line [of "unat n"] s
    by (simp add: ascii_awaits_def pool_step_ascii ascii_step_def ascii_parse_def mmc_request_parse_mutate_def del: crlf_no_nl)
  then show ?thesis by (simp add: parse_loop_step mmc_consts)
qed

interpretation ascii_wire: wire_protocol "mmc_ascii_protocol rt" "mmc_ascii_commands rt cs" rt "\<lambda>p. True" "\<lambda>z. True" ascii_ok
  "ascii_awaits PARSE_RESPONSE" "\<lambda>z. ascii_awaits PARSE_VALUE" "\<lambda>z. ascii_awaits PARSE_MUTATE"
  ascii_status_reply ascii_value_reply "\<lambda>bs. bs = value_stream []" ascii_number_reply for rt cs
proof (rule wire_protocol.intro, goal_cases)
  case (1 h)
  then show ?case unfolding pool_step_ascii pool_recv_ascii by (intro ascii_incremental)
next
  case (2 h)
  then show ?case unfolding pool_step_ascii by (rule ascii_keeps_server)
next
  case (3 p io mmc u zkey)
  then show ?case by (auto simp: ascii_awaits_def intro: ascii_ok_start)
next
  case (4 p zkey k p' op)
  then show ?case using ascii_blank [OF 4(1)]
    by (simp add: ascii_awaits_def mmc_ascii_protocol_def mmc_ascii_commands_def mmc_ascii_get_def mmc_ascii_begin_get_def
        mmc_ascii_append_get_def mmc_ascii_end_get_def append_send_def bytes_def command_room_def)
next
  case (5 p op k flags exptime cas v command)
  have "a_sendbuf (p\<lparr>a_key := k\<rparr>) = []" using ascii_blank [OF 5(1)] by simp
  from store_sendbuf [OF _ this, of rt cs op k flags exptime cas v command] show ?case
    using 5(2) ascii_blank [OF 5(1)] by (auto simp: ascii_awaits_def mmc_ascii_protocol_def mmc_ascii_commands_def)
next
  case (6 p k p' exptime)
  have "length (dec (unat exptime)) \<le> 20" using unat_u32_less [of exptime] by (intro dec_length_u64) simp
  then show ?case using 6 ascii_blank [OF 6(1)]
    by (simp add: ascii_awaits_def mmc_ascii_protocol_def mmc_ascii_commands_def mmc_ascii_delete_def append_send_def bytes_def command_room_def)
next
  case (7 p zkey k p' amount defval defval_used exptime)
  have "length (dec (unat x)) \<le> 20" for x :: u64 using unat_u64_less [of x] by (intro dec_length_u64) simp
  from this [of amount] this [of "- amount"] show ?case using 7 ascii_blank [OF 7(1)]
    by (simp add: ascii_awaits_def mmc_ascii_protocol_def mmc_ascii_commands_def mmc_ascii_mutate_def append_send_def bytes_def command_room_def)
next
  case (8 p zkey code bs io h mmc u u' rest)
  obtain l where l: "bs = l @ crlf" "10 \<notin> set l" "length l + 2 < MMC_BUFFER_SIZE" "fst (mmc_request_check_response (l @ crlf)) = code"
    "code \<noteq> MMC_RESPONSE_UNKNOWN" using 8(2) by (auto simp only: ascii_status_reply_def)
  show ?case
    unfolding l(1) by (rule ascii_status_line_parse [OF 8(1,3) l(2,3)]) (use l(4,5) 8(4) in simp_all)
next
  case (9 zkey p k flags body bs req u rest)
  obtain c where c: "word_bytes k" "length k \<le> MMC_MAX_KEY_LEN" "bs = value_stream [\<lparr>vi_key = k, vi_flags = flags, vi_cas = c, vi_payload = body\<rparr>]"
    using 9(3) by (auto simp: ascii_value_reply_def)
  let ?it = "\<lparr>vi_key = k, vi_flags = flags, vi_cas = c, vi_payload = body\<rparr>"
  have "value_handler_done (user_handlers (r_value req))" using 9(5) by (simp add: get_request_def value_handler_done_def user_handlers_def)
  from deliver_value_done [OF this c(2)] obtain u' where
    d: "deliver_value rt (user_handlers (r_value req)) k flags (item_cas 0 ?it) body u = Some (MMC_REQUEST_DONE, u')" by blast
  have it: "\<forall>it \<in> set [?it]. item_ok it" using c(1,2) 9(4) by (simp add: item_ok_def)
  have p: "a_parse p = PARSE_VALUE" "a_readbuf p = []" "av_cas p = 0" using 9(1) by (simp_all add: ascii_awaits_def)
  have "\<exists>y. parse_loop (pool_step (mmc_ascii_protocol rt) (handlers_of False req)) (p, receive io (bs @ rest), mmc, u) =
      Some (Some (MMC_REQUEST_DONE, y)) \<and> snd (snd (snd y)) = u'" if "idle_io io" for io mmc
    using ascii_values_parse [OF 9(5) it p that, of rt rest mmc u] d unfolding c(3) by simp
  then show ?case using c(2) d by blast
next
  case (10 zkey p bs req io rest mmc u)
  have p: "a_parse p = PARSE_VALUE" "a_readbuf p = []" "av_cas p = 0" using 10(1) by (simp_all add: ascii_awaits_def)
  show ?case using ascii_values_parse [OF 10(3) _ p 10(4), of "[]" rt rest mmc u] unfolding 10(2) by simp
next
  case (11 zkey p n bs io h mmc u u' rest)
  have "n < 2 ^ 63" "bs = dec (unat n) @ crlf" using 11(2) by (simp_all add: ascii_number_reply_def)
  then show ?case using ascii_number_parse [OF 11(1,3) _ 11(4)] by simp
qed

subsection \<open>The binary protocol\<close>

text \<open>
  The answers: a header with a status and its message, or with the flags and the value, or with
  the number. \<open>zstr\<close> gives the string of a key that a request points to, which must fit \<^verbatim>\<open>key_tmp\<close>.
\<close>

definition binary_status_reply :: "int \<Rightarrow> buf \<Rightarrow> bool" where
  "binary_status_reply code bs \<longleftrightarrow>
     (\<exists>opcode extras status cas body. bs = bin_reply opcode extras status cas body \<and> code = status_code status \<and>
        (word_of_int opcode :: u8) \<noteq> word_of_int MMC_OP_NOOP \<and> length body + 1 < 2 ^ 32 \<and> (status = 0 \<longrightarrow> body = []))"

lemma binary_status:
  "code = status_code status \<Longrightarrow> (word_of_int opcode :: u8) \<noteq> word_of_int MMC_OP_NOOP \<Longrightarrow> length body + 1 < 2 ^ 32 \<Longrightarrow> status = 0 \<longrightarrow> body = [] \<Longrightarrow>
   binary_status_reply code (bin_reply opcode extras status cas body)"
  unfolding binary_status_reply_def by blast

definition binary_value_reply :: "u32 \<Rightarrow> buf \<Rightarrow> buf \<Rightarrow> bool" where
  "binary_value_reply flags body bs \<longleftrightarrow> (\<exists>cas. bs = bin_reply MMC_OP_GET 4 0 cas (be 4 (unat flags) @ body))"

definition binary_number_reply :: "u64 \<Rightarrow> buf \<Rightarrow> bool" where
  "binary_number_reply n bs \<longleftrightarrow>
     (\<exists>opcode cas. bs = bin_reply opcode 0 0 cas (be 8 (unat n)) \<and> (word_of_int opcode :: u8) \<noteq> word_of_int MMC_OP_NOOP)"

definition binary_awaits :: "bin_parser \<Rightarrow> nat \<Rightarrow> mmc_binary_request \<Rightarrow> bool" where
  "binary_awaits parser zkey p \<longleftrightarrow>
     bin_fresh p \<and> b_next_parse p = parser \<and> queue_inv (b_keys p) \<and> queue_list (b_keys p) = [zkey]"

lemma binary_blank:
  "blank_proto (mmc_binary_protocol rt zstr) (\<lambda>p. queue_inv (b_keys p)) p \<Longrightarrow>
   b_sendbuf p = [] \<and> b_readbuf p = [] \<and> queue_inv (b_keys p) \<and> queue_list (b_keys p) = []"
  by (auto simp: blank_proto_def mmc_binary_protocol_def mmc_binary_create_request_def mmc_binary_reset_request_def queue_inv_reset)

lemma idle_read_io: "idle_io io \<Longrightarrow> read_io io \<and> io_input io = [] \<and> unread (receive io bs) = bs \<and> read_io (receive io bs) \<and> io_input (receive io bs) = []"
proof -
  assume io: "idle_io io"
  then have r: "read_io io" using line_io_read [OF idle_line_io] by blast
  then show ?thesis using io unread_receive [OF r] read_io_receive [OF r] by (simp add: idle_io_def)
qed

lemma binary_status_line_parse:
  assumes p: "bin_fresh p" and io: "idle_io io" and reply: "binary_status_reply code bs"
    and h: "\<And>msg len. response_handler h code msg len (mmc, u) = (MMC_REQUEST_DONE, mmc, u')"
  shows "\<exists>y. parse_loop (pool_step (mmc_binary_protocol rt zstr) h) (p, receive io (bs @ rest), mmc, u) =
      Some (Some (MMC_REQUEST_DONE, y)) \<and> snd (snd (snd y)) = u'"
proof -
  obtain opcode extras status cas body where bs: "bs = bin_reply opcode extras status cas body" "code = status_code status"
    "(word_of_int opcode :: u8) \<noteq> word_of_int MMC_OP_NOOP" "length body + 1 < 2 ^ 32" "status = 0 \<longrightarrow> body = []"
    using reply by (auto simp: binary_status_reply_def)
  have u: "unread (receive io (bs @ rest)) = bin_reply opcode extras status cas body @ rest" using idle_read_io [OF io] bs(1) by simp
  have "\<forall>msg len. response_handler h (status_code status) msg len (mmc, u) = (MMC_REQUEST_DONE, mmc, u')" using h bs(2) by simp
  from bin_loop_status [OF p _ _ u bs(3-5) this, of rt zstr] idle_read_io [OF io] show ?thesis by (auto simp: pool_step_binary)
qed

interpretation binary_wire: wire_protocol "mmc_binary_protocol rt zstr" "mmc_binary_commands rt cs gap" rt "\<lambda>p. queue_inv (b_keys p)"
  "\<lambda>z. length (zstr z) \<le> MMC_MAX_KEY_LEN" bin_ok bin_fresh "binary_awaits PARSE_VALUE_BIN" "binary_awaits READ_MUTATE_BIN"
  binary_status_reply "\<lambda>k. binary_value_reply" "binary_status_reply MMC_RESPONSE_NOT_FOUND" binary_number_reply for rt cs gap zstr
proof (rule wire_protocol.intro, goal_cases)
  case (1 h)
  then show ?case unfolding pool_step_binary pool_recv_binary by (intro bin_incremental)
next
  case (2 h)
  then show ?case unfolding pool_step_binary by (rule binary_keeps_server)
next
  case (3 p zkey io mmc u)
  then have "bin_fresh p" by (auto simp: binary_awaits_def)
  then show ?case using idle_read_io [OF 3(2)] by (simp add: bin_ok_def bin_fresh_def reads_body_def)
next
  case (4 p zkey k p' op)
  then show ?case using binary_blank [OF 4(1)] queue_push [of "b_keys p" zkey]
    by (simp add: binary_awaits_def bin_fresh_def mmc_binary_protocol_def mmc_binary_commands_def mmc_binary_get_def push_key_def set_parsers_def
        append_send_bin_def command_room_def)
next
  case (5 p op k flags exptime cas v command)
  then show ?case using binary_blank [OF 5(1)]
    by (auto simp: bin_fresh_def mmc_binary_protocol_def mmc_binary_commands_def mmc_binary_store_def mmc_binary_create_request_def
        set_parsers_def Let_def split: prod.splits if_splits)
next
  case (6 p k p' exptime)
  then show ?case using binary_blank [OF 6(1)]
    by (simp add: bin_fresh_def mmc_binary_protocol_def mmc_binary_commands_def mmc_binary_delete_def set_parsers_def
        append_send_bin_def command_room_def)
next
  case (7 p zkey k p' amount defval defval_used exptime)
  then show ?case using binary_blank [OF 7(1)] queue_push [of "b_keys p" zkey]
    by (simp add: binary_awaits_def bin_fresh_def mmc_binary_protocol_def mmc_binary_commands_def mmc_binary_mutate_def push_key_def set_parsers_def
        append_send_bin_def command_room_def split: prod.splits)
next
  case (8 p zkey code bs io h mmc u u' rest)
  have "bin_fresh p" using 8(1) by (auto simp: binary_awaits_def)
  from binary_status_line_parse [OF this 8(3,2,4)] show ?case .
next
  case (9 zkey p k flags body bs req u rest)
  obtain cas where bs: "bs = bin_reply MMC_OP_GET 4 0 cas (be 4 (unat flags) @ body)" using 9(3) by (auto simp: binary_value_reply_def)
  have "value_handler_done (user_handlers (r_value req))" using 9(5) by (simp add: get_request_def value_handler_done_def user_handlers_def)
  from deliver_value_done [OF this 9(2)] obtain u' where
    d: "deliver_value rt (user_handlers (r_value req)) (zstr zkey) flags cas body u = Some (MMC_REQUEST_DONE, u')" by blast
  have p: "bin_fresh p" "b_next_parse p = PARSE_VALUE_BIN" "queue_inv (b_keys p)" "queue_list (b_keys p) = [zkey]"
    using 9(1) by (simp_all add: binary_awaits_def)
  have "\<exists>y. parse_loop (pool_step (mmc_binary_protocol rt zstr) (handlers_of False req)) (p, receive io (bs @ rest), mmc, u) =
      Some (Some (MMC_REQUEST_DONE, y)) \<and> snd (snd (snd y)) = u'" if "idle_io io" for io mmc
  proof -
    have un: "unread (receive io (bs @ rest)) = bin_reply MMC_OP_GET 4 0 cas (be 4 (unat flags) @ body) @ rest"
      using idle_read_io [OF that] bs by simp
    have "deliver_value rt (handlers_of False req) (zstr zkey) flags cas body (mmc, u) = Some (MMC_REQUEST_DONE, mmc, u')"
      using d by (simp add: deliver_value_user)
    from bin_loop_hit [where zstr = zstr, OF p _ _ un 9(4) this] idle_read_io [OF that] show ?thesis by (auto simp: pool_step_binary)
  qed
  then show ?case using 9(2) d by blast
next
  case (10 zkey p bs req io rest mmc u)
  have "bin_fresh p" using 10(1) by (simp add: binary_awaits_def)
  moreover have "response_handler (handlers_of False req) MMC_RESPONSE_NOT_FOUND msg len (mmc, u) = (MMC_REQUEST_DONE, mmc, u)" for msg len
    using 10(3) by (simp add: get_request_def handlers_of_def mmc_pool_response_handler_null_def)
  ultimately show ?case by (intro binary_status_line_parse [OF _ 10(4,2)])
next
  case (11 zkey p n bs io h mmc u u' rest)
  obtain opcode cas where bs: "bs = bin_reply opcode 0 0 cas (be 8 (unat n))" "(word_of_int opcode :: u8) \<noteq> word_of_int MMC_OP_NOOP"
    using 11(2) by (auto simp: binary_number_reply_def)
  have p: "bin_fresh p" "b_next_parse p = READ_MUTATE_BIN" "queue_inv (b_keys p)" "queue_list (b_keys p) = [zkey]"
    using 11(1) by (simp_all add: binary_awaits_def)
  have un: "unread (receive io (bs @ rest)) = bin_reply opcode 0 0 cas (be 8 (unat n)) @ rest" using idle_read_io [OF 11(3)] bs(1) by simp
  from bin_loop_number [where zstr = zstr and rt = rt, OF p _ _ un bs(2) 11(4)] idle_read_io [OF 11(3)] show ?case by (auto simp: pool_step_binary)
qed

subsection \<open>What the commands return\<close>

definition exchange_env :: "buf \<Rightarrow> 'u mmc_env" where
  "exchange_env answer =
     (run_env answer)\<lparr>e_send := (\<lambda>n. Sent 5000), e_select := (\<lambda>n. (1, {5}, {5})), e_arrived := (\<lambda>n s. if n < 4 then take 3 answer else answer)\<rparr>"

definition exchange_pool_of :: "(unit, unit, 'p) client_protocol \<Rightarrow> (unit, unit, 'p) client" where
  "exchange_pool_of pr =
     (mmc_pool_new \<lparr>gs_hash_strategy = MMC_STANDARD_HASH, gs_hash_function = MMC_HASH_FNV1A, gs_crc_step = (\<lambda>c b. c),
         gs_select_api = MMC_API_SELECT\<rparr>
        (\<lambda>m. (mmc_server_new 8192 [] 11211 0 False 1000000 15)
           \<lparr>m_tcp := zero_stream\<lparr>st_stream := Some 1, st_fd := 5, st_status := MMC_STATUS_CONNECTED, st_chunk_size := 8192\<rparr>\<rparr>)
        (\<lambda>r. new_request pr) example_call)
       \<lparr>p_hash_state := StandardState \<lparr>ss_num_servers = 1, ss_buckets = [0], ss_num_buckets = 1, ss_hash = example_hash\<rparr>, p_servers := [0]\<rparr>"

abbreviation exchange_pool :: "(unit, unit, mmc_ascii_request) client" where
  "exchange_pool \<equiv> exchange_pool_of (mmc_ascii_protocol plain_runtime)"

lemma exchange_idle: "idle_connection (exchange_env answer) 1 5 0 (exchange_pool_of pr)"
  by (simp add: idle_connection_def exchange_pool_of_def mmc_pool_new_def exchange_env_def run_env_def mmc_server_new_def zero_stream_def empty_io_def
      io_ok_def unread_def sending_def reading_def mmc_consts)

lemma exchange_found: "find_server env key (exchange_pool_of pr) = Some (0, (exchange_pool_of pr))"
  by (simp add: find_server_def exchange_pool_of_def mmc_standard_find_server_def mmc_standard_slot_def read_cell_def)

lemma exchange_pool_find: "mmc_pool_find (exchange_env answer) key (exchange_pool_of pr) = Some (0, (exchange_pool_of pr))"
proof -
  have "server_valid env (exchange_pool_of pr) 0" for env :: "(unit, unit) client_env"
    by (rule connected_valid) (simp add: exchange_pool_of_def mmc_pool_new_def)
  then show ?thesis using exchange_found [of "exchange_env answer" key pr] by (simp add: mmc_pool_find_def)
qed

lemma exchange_answers: "len \<le> 5000 \<Longrightarrow> answers (exchange_env answer) 1 5 0 4 (exchange_pool_of pr) len answer"
  unfolding answers_def
  by (intro conjI exI [of _ answer])
    (auto simp: delivers_def exchange_env_def run_env_def take_is_prefix exchange_pool_of_def mmc_pool_new_def select_works_def sends_all_def zero_stream_def)

lemma exchange_key: "sent_key (exchange_env a) [107] = [107]" "key_prefix_of (exchange_env a) = []"
  by (simp_all add: sent_key_def key_prefix_of_def exchange_env_def run_env_def key_byte_def MMC_MAX_KEY_LEN_def)

lemma exchange_room: "n \<le> 5000 \<Longrightarrow> int n \<le> st_chunk_size (m_tcp (p_mmc (exchange_pool_of pr) 0))"
  by (simp add: exchange_pool_of_def mmc_pool_new_def)

lemma command_room_small: "command_room \<le> 5000"
  by (simp add: command_room_def MMC_MAX_KEY_LEN_def)

lemma exchange_values: "\<forall>r. values_taken (p_req (exchange_pool_of pr) r)"
  by (simp add: exchange_pool_of_def mmc_pool_new_def values_taken_def new_request_def)

lemma exchange_usable: "usable (pr_create pr) \<Longrightarrow> all_usable usable (exchange_pool_of pr)"
  by (simp add: all_usable_def exchange_pool_of_def mmc_pool_new_def new_request_def)

text \<open>The binary protocol with one key, and what the example packs.\<close>

definition exchange_binary :: "(unit, unit, mmc_binary_request) client_protocol" where
  "exchange_binary = mmc_binary_protocol plain_runtime (\<lambda>z. [107])"

abbreviation exchange_settings :: compress_settings where
  "exchange_settings \<equiv> \<lparr>compress_threshold = 0, savings_room = (\<lambda>n. n)\<rparr>"

lemma binary_usable: "all_usable (\<lambda>p. queue_inv (b_keys p)) (exchange_pool_of exchange_binary)"
  by (rule exchange_usable) (simp add: exchange_binary_def mmc_binary_protocol_def mmc_binary_create_request_def)

lemma exchange_pack: "mmc_pack_value plain_runtime exchange_settings buffer IS_TRUE 0 = (MMC_OK, buffer @ [49], 256)"
  by (simp add: mmc_pack_value_def reserved_flags_def flag_eval)

text \<open>
  C1: A get returns what was stored. On an idle pool, when the server that the pool finds for the key is connected, with
  the ascii protocol, \<^verbatim>\<open>memcache_get\<close> of one key returns, in whatever pieces and whenever the
  answer arrives: if the server answers with the bytes and flags that \<^verbatim>\<open>mmc_pack_value\<close> made of
  a value, that value (FALSE for a stored NULL); if it answers that it has none, FALSE.
\<close>

theorem memcache_get_returns:
  fixes rt :: "('d, 'o) php_runtime" and w :: "('d, 'o, mmc_ascii_request) client"
  assumes "idle_connection env s fd m w" and "mmc_pool_find env (sent_key env (snd key)) w = Some (m, w1)"
    and "snd key \<noteq> []" and "length (key_prefix_of env) \<le> MMC_MAX_KEY_LEN"
    and "php_runtime_ok rt" and "\<And>d. v = IS_DOUBLE d \<Longrightarrow> scanf_lg rt (printf_g14 rt d) = d"
    and "mmc_pack_value rt cs [] v flags = (MMC_OK, body, flags')" and "length body + 4 < 2 ^ 32"
    and "if stored then ascii_value_reply (sent_key env (snd key)) flags' body bs else bs = value_stream []"
    and "answers env s fd m N w command_room (bs @ rest)"
    and "int command_room \<le> st_chunk_size (m_tcp (p_mmc w m))"
  shows "\<exists>w'. memcache_get (pool_ops env (mmc_ascii_protocol rt) (Suc n)) env (mmc_ascii_protocol rt) (mmc_ascii_commands rt cs) z
      want_flags want_cas (OneKey key) w = Some w' \<and>
    c_return (p_user w') = Val (if stored \<and> v \<noteq> IS_NULL then v else IS_FALSE)"
  by (rule ascii_wire.get_returns [OF assms(1-4) _ _ assms(5) assms(6) assms(7-11)]) (simp_all add: all_usable_def)

theorem memcache_get_returns_witness:
  "\<exists>w'. memcache_get (pool_ops (exchange_env (bytes ''VALUE k 256 1'' @ [13, 10, 49, 13, 10] @ bytes ''END'' @ [13, 10])) (mmc_ascii_protocol plain_runtime) (Suc 0))
      (exchange_env (bytes ''VALUE k 256 1'' @ [13, 10, 49, 13, 10] @ bytes ''END'' @ [13, 10])) (mmc_ascii_protocol plain_runtime)
      (mmc_ascii_commands plain_runtime exchange_settings) example_zend
      False False (OneKey (7, [107])) exchange_pool = Some w' \<and> c_return (p_user w') = Val IS_TRUE"
proof -
  let ?a = "bytes ''VALUE k 256 1'' @ [13, 10, 49, 13, 10] @ bytes ''END'' @ [13, 10]"
  have "?a = value_stream [\<lparr>vi_key = [107], vi_flags = 256, vi_cas = None, vi_payload = [49]\<rparr>]"
    by (simp add: value_line_def bytes_def of_char_def dec.simps crlf_def)
  then have answer: "if True then ascii_value_reply (sent_key (exchange_env ?a) (snd (7 :: nat, [107]))) 256 [49] ?a else ?a = value_stream []"
    by (auto simp: ascii_value_reply_def exchange_key MMC_MAX_KEY_LEN_def word_bytes_def is_space_def)
  have net: "answers (exchange_env ?a) 1 5 0 4 exchange_pool command_room (?a @ [])"
    unfolding append_Nil2 by (rule exchange_answers [OF command_room_small])
  have prefix: "length (key_prefix_of (exchange_env ?a :: (unit, unit) client_env)) \<le> MMC_MAX_KEY_LEN" by (simp add: exchange_key)
  show ?thesis
    using memcache_get_returns [where n = 0 and cs = exchange_settings and z = example_zend and want_flags = False and want_cas = False, OF exchange_idle exchange_pool_find _ prefix plain_runtime_ok _ exchange_pack [of "[]", unfolded append_Nil] _ answer net
        exchange_room [OF command_room_small]] by simp
qed

text \<open>
  C5: A get returns what was stored, with the binary protocol too: the value that was packed if the server
  answers with its bytes and flags, FALSE if its status says that the key is missing. The string that
  the key of the request points to must fit the buffer it is copied to, and the key queues of the
  recycled requests must be well formed.
\<close>

theorem memcache_get_returns_binary:
  fixes rt :: "('d, 'o) php_runtime" and w :: "('d, 'o, mmc_binary_request) client"
  assumes "idle_connection env s fd m w" and "mmc_pool_find env (sent_key env (snd key)) w = Some (m, w1)"
    and "snd key \<noteq> []" and "length (key_prefix_of env) \<le> MMC_MAX_KEY_LEN"
    and "all_usable (\<lambda>p. queue_inv (b_keys p)) w" and "length (zstr (fst key)) \<le> MMC_MAX_KEY_LEN"
    and "php_runtime_ok rt" and "\<And>d. v = IS_DOUBLE d \<Longrightarrow> scanf_lg rt (printf_g14 rt d) = d"
    and "mmc_pack_value rt cs [] v flags = (MMC_OK, body, flags')" and "length body + 4 < 2 ^ 32"
    and "if stored then binary_value_reply flags' body bs else binary_status_reply MMC_RESPONSE_NOT_FOUND bs"
    and "answers env s fd m N w command_room (bs @ rest)"
    and "int command_room \<le> st_chunk_size (m_tcp (p_mmc w m))"
  shows "\<exists>w'. memcache_get (pool_ops env (mmc_binary_protocol rt zstr) (Suc n)) env (mmc_binary_protocol rt zstr) (mmc_binary_commands rt cs gap) z
      want_flags want_cas (OneKey key) w = Some w' \<and>
    c_return (p_user w') = Val (if stored \<and> v \<noteq> IS_NULL then v else IS_FALSE)"
  by (rule binary_wire.get_returns [where zstr = zstr and key = key and v = v, OF assms(1-4) assms(6) assms(5) assms(7) assms(8) assms(9-13)])

theorem memcache_get_returns_binary_witness:
  "\<exists>w'. memcache_get (pool_ops (exchange_env (bin_reply MMC_OP_GET 4 0 9 (be 4 256 @ [49]))) exchange_binary (Suc 0))
      (exchange_env (bin_reply MMC_OP_GET 4 0 9 (be 4 256 @ [49]))) exchange_binary
      (mmc_binary_commands plain_runtime exchange_settings (\<lambda>n. replicate n 0)) example_zend
      False False (OneKey (7, [107])) (exchange_pool_of exchange_binary) = Some w' \<and> c_return (p_user w') = Val IS_TRUE"
proof -
  let ?a = "bin_reply MMC_OP_GET 4 0 9 (be 4 256 @ [49])"
  have answer: "if True then binary_value_reply 256 [49] ?a else binary_status_reply MMC_RESPONSE_NOT_FOUND ?a"
    by (auto simp: binary_value_reply_def)
  have net: "answers (exchange_env ?a) 1 5 0 4 (exchange_pool_of exchange_binary) command_room (?a @ [])"
    unfolding append_Nil2 by (rule exchange_answers [OF command_room_small])
  have prefix: "length (key_prefix_of (exchange_env ?a :: (unit, unit) client_env)) \<le> MMC_MAX_KEY_LEN" by (simp add: exchange_key)
  have zstr: "length ((\<lambda>z :: nat. [107 :: 8 word]) (fst (7 :: nat, [107 :: 8 word]))) \<le> MMC_MAX_KEY_LEN" by (simp add: MMC_MAX_KEY_LEN_def)
  show ?thesis
    using memcache_get_returns_binary [where n = 0 and cs = exchange_settings and gap = "\<lambda>n. replicate n 0" and z = example_zend and want_flags = False and want_cas = False, OF exchange_idle exchange_pool_find _ prefix binary_usable zstr plain_runtime_ok _ exchange_pack [of "[]", unfolded append_Nil] _ answer net
        exchange_room [OF command_room_small]]
    by (simp add: exchange_binary_def)
qed





text \<open>
  C7: An increment or a decrement returns the new value: with the ascii protocol, on an idle pool whose server for the
  key is connected, \<^verbatim>\<open>memcache_increment\<close> and \<^verbatim>\<open>memcache_decrement\<close> of one key return the number of the answer,
  if it is below 2^63, and FALSE if the answer is that the key is missing.
\<close>

theorem memcache_increment_returns:
  fixes rt :: "('d, 'o) php_runtime" and w :: "('d, 'o, mmc_ascii_request) client"
  assumes "idle_connection env s fd m w" and "mmc_pool_find env (sent_key env (snd key)) w = Some (m, w1)"
    and "snd key \<noteq> []" and "length (key_prefix_of env) \<le> MMC_MAX_KEY_LEN"
    and "case outcome of Some v \<Rightarrow> ascii_number_reply v bs | None \<Rightarrow> ascii_status_reply MMC_RESPONSE_NOT_FOUND bs"
    and "answers env s fd m N w command_room (bs @ rest)"
    and "int command_room \<le> st_chunk_size (m_tcp (p_mmc w m))" and "redundancy \<le> 1"
  shows "\<exists>w'. php_mmc_numeric (pool_ops env (mmc_ascii_protocol rt) (Suc n)) env (mmc_ascii_protocol rt) (mmc_ascii_commands rt cs) z redundancy False invert
      (OneKey key) amount defval defval_used exptime w = Some w' \<and>
    c_return (p_user w') = Val (case outcome of Some v \<Rightarrow> IS_LONG v | None \<Rightarrow> IS_FALSE)"
proof (cases outcome)
  case None
  have usable: "all_usable (\<lambda>p. True) w" by (simp add: all_usable_def)
  have answer: "ascii_status_reply MMC_RESPONSE_NOT_FOUND bs" using assms(5) None by simp
  have "\<exists>w'. php_mmc_numeric (pool_ops env (mmc_ascii_protocol rt) (Suc n)) env (mmc_ascii_protocol rt) (mmc_ascii_commands rt cs) z redundancy False invert
      (OneKey key) amount defval defval_used exptime w = Some w' \<and>
    c_return (p_user w') = Val (if MMC_RESPONSE_NOT_FOUND = MMC_OK then IS_TRUE else IS_FALSE)"
    by (rule ascii_wire.numeric_status_returns [where key = key, OF assms(1-4) TrueI usable answer _ assms(6-8)]) simp
  then show ?thesis using None by (simp add: mmc_consts)
next
  case (Some v)
  have usable: "all_usable (\<lambda>p. True) w" by (simp add: all_usable_def)
  have answer: "ascii_number_reply v bs" using assms(5) Some by simp
  show ?thesis
    unfolding Some option.case by (rule ascii_wire.number_returns [where key = key, OF assms(1-4) TrueI usable answer assms(6-8)])
qed

theorem memcache_increment_returns_witness:
  "\<exists>w'. php_mmc_numeric (pool_ops (exchange_env (bytes ''42'' @ crlf)) (mmc_ascii_protocol plain_runtime) (Suc 0))
      (exchange_env (bytes ''42'' @ crlf)) (mmc_ascii_protocol plain_runtime) (mmc_ascii_commands plain_runtime exchange_settings) example_zend 1 False False
      (OneKey (7, [107])) 1 0 False 0 exchange_pool = Some w' \<and> c_return (p_user w') = Val (IS_LONG 42)"
proof -
  let ?a = "bytes ''42'' @ crlf" let ?env = "exchange_env ?a :: (unit, unit) client_env"
  have answer: "case Some 42 of Some v \<Rightarrow> ascii_number_reply v ?a | None \<Rightarrow> ascii_status_reply MMC_RESPONSE_NOT_FOUND ?a"
    by (simp add: ascii_number_reply_def bytes_def of_char_def dec.simps)
  have net: "answers ?env 1 5 0 4 exchange_pool command_room (?a @ [])"
    unfolding append_Nil2 by (rule exchange_answers [OF command_room_small])
  have prefix: "length (key_prefix_of ?env) \<le> MMC_MAX_KEY_LEN" by (simp add: exchange_key)
  show ?thesis
    using memcache_increment_returns [where n = 0 and cs = exchange_settings and z = example_zend and rt = plain_runtime and redundancy = 1 and invert = False and amount = 1 and defval = 0 and defval_used = False and exptime = 0, OF exchange_idle exchange_pool_find _ prefix answer net exchange_room [OF command_room_small]] by simp
qed

text \<open>
  C8: An increment or a decrement returns the new value, with the binary protocol: every 64-bit number of an
  answer, read as a signed long, and FALSE if the status says that the key is missing.
\<close>

theorem memcache_increment_returns_binary:
  fixes rt :: "('d, 'o) php_runtime" and w :: "('d, 'o, mmc_binary_request) client"
  assumes "idle_connection env s fd m w" and "mmc_pool_find env (sent_key env (snd key)) w = Some (m, w1)"
    and "snd key \<noteq> []" and "length (key_prefix_of env) \<le> MMC_MAX_KEY_LEN"
    and "all_usable (\<lambda>p. queue_inv (b_keys p)) w" and "length (zstr (fst key)) \<le> MMC_MAX_KEY_LEN"
    and "case outcome of Some v \<Rightarrow> binary_number_reply v bs | None \<Rightarrow> binary_status_reply MMC_RESPONSE_NOT_FOUND bs"
    and "answers env s fd m N w command_room (bs @ rest)"
    and "int command_room \<le> st_chunk_size (m_tcp (p_mmc w m))" and "redundancy \<le> 1"
  shows "\<exists>w'. php_mmc_numeric (pool_ops env (mmc_binary_protocol rt zstr) (Suc n)) env (mmc_binary_protocol rt zstr) (mmc_binary_commands rt cs gap) z redundancy False invert
      (OneKey key) amount defval defval_used exptime w = Some w' \<and>
    c_return (p_user w') = Val (case outcome of Some v \<Rightarrow> IS_LONG v | None \<Rightarrow> IS_FALSE)"
proof (cases outcome)
  case None
  have answer: "binary_status_reply MMC_RESPONSE_NOT_FOUND bs" using assms(7) None by simp
  have "\<exists>w'. php_mmc_numeric (pool_ops env (mmc_binary_protocol rt zstr) (Suc n)) env (mmc_binary_protocol rt zstr) (mmc_binary_commands rt cs gap) z redundancy False invert
      (OneKey key) amount defval defval_used exptime w = Some w' \<and>
    c_return (p_user w') = Val (if MMC_RESPONSE_NOT_FOUND = MMC_OK then IS_TRUE else IS_FALSE)"
    by (rule binary_wire.numeric_status_returns [where zstr = zstr and key = key, OF assms(1-4) assms(6,5) answer _ assms(8-10)]) simp
  then show ?thesis using None by (simp add: mmc_consts)
next
  case (Some v)
  have answer: "binary_number_reply v bs" using assms(7) Some by simp
  show ?thesis
    unfolding Some option.case by (rule binary_wire.number_returns [where zstr = zstr and key = key, OF assms(1-4) assms(6,5) answer assms(8-10)])
qed

theorem memcache_increment_returns_binary_witness:
  "\<exists>w'. php_mmc_numeric (pool_ops (exchange_env (bin_reply MMC_OP_INCR 0 0 9 (be 8 42))) exchange_binary (Suc 0))
      (exchange_env (bin_reply MMC_OP_INCR 0 0 9 (be 8 42))) exchange_binary
      (mmc_binary_commands plain_runtime exchange_settings (\<lambda>n. replicate n 0)) example_zend 1 False False
      (OneKey (7, [107])) 1 0 False 0 (exchange_pool_of exchange_binary) = Some w' \<and> c_return (p_user w') = Val (IS_LONG 42)"
proof -
  let ?a = "bin_reply MMC_OP_INCR 0 0 9 (be 8 42)" let ?env = "exchange_env ?a :: (unit, unit) client_env"
  have "binary_number_reply 42 ?a" unfolding binary_number_reply_def
    by (intro exI [of _ MMC_OP_INCR] exI [of _ 9]) (simp add: mmc_consts)
  then have answer: "case Some 42 of Some v \<Rightarrow> binary_number_reply v ?a | None \<Rightarrow> binary_status_reply MMC_RESPONSE_NOT_FOUND ?a" by simp
  have net: "answers ?env 1 5 0 4 (exchange_pool_of exchange_binary) command_room (?a @ [])"
    unfolding append_Nil2 by (rule exchange_answers [OF command_room_small])
  have prefix: "length (key_prefix_of ?env) \<le> MMC_MAX_KEY_LEN" by (simp add: exchange_key)
  have zstr: "length ((\<lambda>z :: nat. [107 :: 8 word]) (fst (7 :: nat, [107 :: 8 word]))) \<le> MMC_MAX_KEY_LEN" by (simp add: MMC_MAX_KEY_LEN_def)
  show ?thesis
    using memcache_increment_returns_binary [where n = 0 and cs = exchange_settings and gap = "\<lambda>n. replicate n 0" and z = example_zend and rt = plain_runtime and redundancy = 1 and invert = False and amount = 1 and defval = 0 and defval_used = False and exptime = 0, OF exchange_idle exchange_pool_find _ prefix binary_usable zstr answer net exchange_room [OF command_room_small]] by (simp add: exchange_binary_def)
qed

text \<open>
  C9: A delete reports what the server did: with the ascii protocol, on an idle pool whose server for the
  key is connected, TRUE if the answer says that the key was deleted and FALSE if it says that there is none.
\<close>

theorem memcache_delete_returns:
  fixes rt :: "('d, 'o) php_runtime" and w :: "('d, 'o, mmc_ascii_request) client"
  assumes "idle_connection env s fd m w" and "mmc_pool_find env (sent_key env (snd key)) w = Some (m, w1)"
    and "snd key \<noteq> []" and "length (key_prefix_of env) \<le> MMC_MAX_KEY_LEN"
    and "ascii_status_reply code bs" and "code \<in> {MMC_OK, MMC_RESPONSE_NOT_FOUND}"
    and "answers env s fd m N w command_room (bs @ rest)"
    and "int command_room \<le> st_chunk_size (m_tcp (p_mmc w m))" and "redundancy \<le> 1"
  shows "\<exists>w'. memcache_delete (pool_ops env (mmc_ascii_protocol rt) (Suc n)) env (mmc_ascii_protocol rt) (mmc_ascii_commands rt cs) z redundancy (OneKey key) amount w = Some w' \<and>
    c_return (p_user w') = Val (if code = MMC_OK then IS_TRUE else IS_FALSE)"
  unfolding memcache_delete_def
  by (rule ascii_wire.numeric_status_returns [where key = key, OF assms(1-4) _ _ assms(5-9)]) (simp_all add: all_usable_def)

theorem memcache_delete_returns_witness:
  "\<exists>w'. memcache_delete (pool_ops (exchange_env (bytes ''NOT_FOUND'' @ crlf)) (mmc_ascii_protocol plain_runtime) (Suc 0))
      (exchange_env (bytes ''NOT_FOUND'' @ crlf)) (mmc_ascii_protocol plain_runtime) (mmc_ascii_commands plain_runtime exchange_settings) example_zend 1
      (OneKey (7, [107])) 0 exchange_pool = Some w' \<and> c_return (p_user w') = Val IS_FALSE"
proof -
  let ?a = "bytes ''NOT_FOUND'' @ crlf" let ?env = "exchange_env ?a :: (unit, unit) client_env"
  have answer: "ascii_status_reply MMC_RESPONSE_NOT_FOUND ?a"
    by (rule ascii_status_line) (simp_all add: bytes_def of_char_def MMC_BUFFER_SIZE_def mmc_request_check_response_def mmc_str_left_def crlf_def Let_def mmc_consts)
  have net: "answers ?env 1 5 0 4 exchange_pool command_room (?a @ [])"
    unfolding append_Nil2 by (rule exchange_answers [OF command_room_small])
  have prefix: "length (key_prefix_of ?env) \<le> MMC_MAX_KEY_LEN" by (simp add: exchange_key)
  show ?thesis
    using memcache_delete_returns [where n = 0 and cs = exchange_settings and z = example_zend and rt = plain_runtime and redundancy = 1 and amount = 0, OF exchange_idle exchange_pool_find _ prefix answer _ net exchange_room [OF command_room_small]] by (simp add: mmc_consts)
qed

text \<open>
  C10: A delete reports what the server did, with the binary protocol: TRUE for the status success and FALSE
  for the one that says that the key is missing.
\<close>

theorem memcache_delete_returns_binary:
  fixes rt :: "('d, 'o) php_runtime" and w :: "('d, 'o, mmc_binary_request) client"
  assumes "idle_connection env s fd m w" and "mmc_pool_find env (sent_key env (snd key)) w = Some (m, w1)"
    and "snd key \<noteq> []" and "length (key_prefix_of env) \<le> MMC_MAX_KEY_LEN"
    and "all_usable (\<lambda>p. queue_inv (b_keys p)) w" and "length (zstr (fst key)) \<le> MMC_MAX_KEY_LEN"
    and "binary_status_reply code bs" and "code \<in> {MMC_OK, MMC_RESPONSE_NOT_FOUND}"
    and "answers env s fd m N w command_room (bs @ rest)"
    and "int command_room \<le> st_chunk_size (m_tcp (p_mmc w m))" and "redundancy \<le> 1"
  shows "\<exists>w'. memcache_delete (pool_ops env (mmc_binary_protocol rt zstr) (Suc n)) env (mmc_binary_protocol rt zstr) (mmc_binary_commands rt cs gap) z redundancy (OneKey key) amount w = Some w' \<and>
    c_return (p_user w') = Val (if code = MMC_OK then IS_TRUE else IS_FALSE)"
  unfolding memcache_delete_def
  by (rule binary_wire.numeric_status_returns [where zstr = zstr and key = key, OF assms(1-4,6,5,7-11)])

theorem memcache_delete_returns_binary_witness:
  "\<exists>w'. memcache_delete (pool_ops (exchange_env (bin_reply MMC_OP_DELETE 0 0 9 [])) exchange_binary (Suc 0))
      (exchange_env (bin_reply MMC_OP_DELETE 0 0 9 [])) exchange_binary
      (mmc_binary_commands plain_runtime exchange_settings (\<lambda>n. replicate n 0)) example_zend 1
      (OneKey (7, [107])) 0 (exchange_pool_of exchange_binary) = Some w' \<and> c_return (p_user w') = Val IS_TRUE"
proof -
  let ?a = "bin_reply MMC_OP_DELETE 0 0 9 []" let ?env = "exchange_env ?a :: (unit, unit) client_env"
  have answer: "binary_status_reply MMC_OK ?a"
    by (rule binary_status) (simp_all add: status_code_def binary_status_def mmc_consts)
  have net: "answers ?env 1 5 0 4 (exchange_pool_of exchange_binary) command_room (?a @ [])"
    unfolding append_Nil2 by (rule exchange_answers [OF command_room_small])
  have prefix: "length (key_prefix_of ?env) \<le> MMC_MAX_KEY_LEN" by (simp add: exchange_key)
  have zstr: "length ((\<lambda>z :: nat. [107 :: 8 word]) (fst (7 :: nat, [107 :: 8 word]))) \<le> MMC_MAX_KEY_LEN" by (simp add: MMC_MAX_KEY_LEN_def)
  show ?thesis
    using memcache_delete_returns_binary [where n = 0 and cs = exchange_settings and gap = "\<lambda>n. replicate n 0" and z = example_zend and rt = plain_runtime and redundancy = 1 and amount = 0, OF exchange_idle exchange_pool_find _ prefix binary_usable zstr answer _ net exchange_room [OF command_room_small]] by (simp add: exchange_binary_def)
qed

subsection \<open>An answer that takes the server down\<close>

text \<open>
  C36: The server says that the key of a storage command is missing, which is the normal answer to a
  cas, a replace, an append or a prepend: \<^verbatim>\<open>mmc_stored_handler\<close> has no case for it, so the turn
  that reads the answer deactivates the connected server, with the answer as its error.
\<close>

theorem missing_key_takes_server_down:
  fixes w :: "('d, 'o, mmc_ascii_request) client"
  assumes "m_readreq (p_mmc w m) = Some r" and "r_io (p_req w r) = Some (m, False)" and "p_in_select w"
    and "r_response (p_req w r) = mmc_stored_handler result" and "a_parse (r_proto (p_req w r)) = PARSE_RESPONSE"
    and "st_status (m_tcp (p_mmc w m)) = MMC_STATUS_CONNECTED" and "st_stream (m_tcp (p_mmc w m)) = Some s"
    and "io_ok (arrived_io env (p_calls w) (m_tcp (p_mmc w m)))" and "io_input (arrived_io env (p_calls w) (m_tcp (p_mmc w m))) = []"
    and "unread (arrived_io env (p_calls w) (m_tcp (p_mmc w m))) = bytes ''NOT_FOUND'' @ crlf @ rest"
  shows "\<exists>W. read_turn ops env (mmc_ascii_protocol rt) m w =
      map_option (\<lambda>w'. (False, MMC_REQUEST_FAILURE, w')) (mmc_server_deactivate ops env (mmc_ascii_protocol rt) m W) \<and>
    p_user W = p_user w \<and> m_error (p_mmc W m) = Some (bytes ''NOT_FOUND'') \<and> m_readreq (p_mmc W m) = Some r \<and>
    st_status (m_tcp (p_mmc (take_down env m W) m)) = MMC_STATUS_FAILED"
proof -
  let ?io = "arrived_io env (p_calls w) (m_tcp (p_mmc w m))" and ?mmc = "without_io False (p_mmc w m)"
  let ?h = "handlers_of False (p_req w r)" and ?l = "bytes ''NOT_FOUND''"
  have "10 \<notin> set (?l @ [13])" "unread ?io = (?l @ [13]) @ 10 # rest" "length (io_input ?io) + length (?l @ [13]) + 1 < MMC_BUFFER_SIZE"
    using assms(9,10) by (simp_all add: bytes_def of_char_def crlf_def MMC_BUFFER_SIZE_def)
  from get_line_complete [OF assms(8) this] obtain io' where line: "mmc_stream_get_line ?io = (Some (?l @ crlf), io')"
    using assms(9) by (auto simp: crlf_def)
  have code: "mmc_request_check_response (?l @ crlf) = (MMC_RESPONSE_NOT_FOUND, ?l @ [0, 10])"
    by (simp add: mmc_request_check_response_def mmc_str_left_def crlf_def bytes_def of_char_def Let_def)
  have "message_len (?l @ crlf) \<noteq> 0" by (simp add: message_len_def bytes_def crlf_def)
  moreover have "takeWhile (\<lambda>b. b \<noteq> 0) (?l @ [0, 10]) = ?l" by (simp add: bytes_def of_char_def)
  moreover have "st_status (m_tcp ?mmc) = MMC_STATUS_CONNECTED" using assms(6) by (simp add: without_io_def map_stream_def)
  ultimately have h: "response_handler ?h MMC_RESPONSE_NOT_FOUND (?l @ [0, 10]) (message_len (?l @ crlf)) (?mmc, p_user w) =
      (MMC_REQUEST_FAILURE, mmc_server_seterror ?mmc (Some ?l) 0, p_user w)"
    using assms(4) by (simp add: handlers_of_def mmc_stored_handler_def fail_request_def mmc_request_failure_def mmc_server_failure_def
        stream_of_def mmc_consts del: of_nat_add)
  obtain W where parse: "parse_request env (mmc_ascii_protocol rt) m r w = Some (MMC_REQUEST_FAILURE, W)"
    and W: "p_user W = p_user w" "p_in_select W = p_in_select w" "m_error (p_mmc W m) = Some ?l" "m_readreq (p_mmc W m) = Some r"
    using assms(1,2,5,7) line code h
    by (simp add: parse_request_def stream_of_def mmc_ascii_protocol_def ascii_parse_def mmc_request_parse_response_def)
      (simp add: upd_mmc_def upd_req_def tick_def map_stream_def without_io_def mmc_server_seterror_def)
  have "read_turn ops env (mmc_ascii_protocol rt) m w =
      map_option (\<lambda>w'. (False, MMC_REQUEST_FAILURE, w')) (mmc_server_deactivate ops env (mmc_ascii_protocol rt) m W)"
    using assms(1,3) parse W(2)
    by (cases "mmc_server_deactivate ops env (mmc_ascii_protocol rt) m W") (simp_all add: read_turn_def)
  moreover have "st_status (m_tcp (p_mmc (take_down env m W) m)) = MMC_STATUS_FAILED"
    by (simp add: take_down_def upd_mmc_def mark_failed_def failed_stream_def)
  ultimately show ?thesis using W by blast
qed

theorem missing_key_takes_server_down_witness:
  "\<forall>ops. \<exists>W. read_turn ops (exchange_env (bytes ''NOT_FOUND'' @ crlf)) (mmc_ascii_protocol plain_runtime) 0
      (upd_req 3 (\<lambda>req. req\<lparr>r_io := Some (0, False), r_response := mmc_stored_handler return_value\<rparr>)
        (set_readreq 0 (Some 3) (exchange_pool\<lparr>p_in_select := True, p_calls := 9\<rparr>))) =
      map_option (\<lambda>w'. (False, MMC_REQUEST_FAILURE, w'))
        (mmc_server_deactivate ops (exchange_env (bytes ''NOT_FOUND'' @ crlf)) (mmc_ascii_protocol plain_runtime) 0 W) \<and>
    m_error (p_mmc W 0) = Some (bytes ''NOT_FOUND'')"
proof
  fix ops :: "(unit, unit, mmc_ascii_request) client_ops"
  let ?w = "upd_req 3 (\<lambda>req. req\<lparr>r_io := Some (0, False), r_response := mmc_stored_handler return_value\<rparr>)
        (set_readreq 0 (Some 3) (exchange_pool\<lparr>p_in_select := True, p_calls := 9\<rparr>))"
  let ?env = "exchange_env (bytes ''NOT_FOUND'' @ crlf) :: (unit, unit) client_env"
  have w: "m_readreq (p_mmc ?w 0) = Some 3" "r_io (p_req ?w 3) = Some (0, False)" "p_in_select ?w"
    "r_response (p_req ?w 3) = mmc_stored_handler return_value" "a_parse (r_proto (p_req ?w 3)) = PARSE_RESPONSE"
    "st_status (m_tcp (p_mmc ?w 0)) = MMC_STATUS_CONNECTED" "st_stream (m_tcp (p_mmc ?w 0)) = Some 1"
    by (simp_all add: set_readreq_def upd_mmc_def upd_req_def exchange_pool_of_def mmc_pool_new_def new_request_def mmc_ascii_protocol_def
        mmc_ascii_create_request_def)
  have io: "arrived_io ?env (p_calls ?w) (m_tcp (p_mmc ?w 0)) = receive empty_io (bytes ''NOT_FOUND'' @ crlf)"
    by (simp add: arrived_io_def exchange_env_def set_readreq_def upd_mmc_def upd_req_def exchange_pool_of_def mmc_pool_new_def zero_stream_def)
  have "io_ok empty_io" "unread empty_io = []" "io_input empty_io = []" by (simp_all add: empty_io_def io_ok_def unread_def MMC_BUFFER_SIZE_def)
  then have l: "line_io (receive empty_io (bytes ''NOT_FOUND'' @ crlf))" "unread (receive empty_io (bytes ''NOT_FOUND'' @ crlf)) = bytes ''NOT_FOUND'' @ crlf @ []"
    "io_input (receive empty_io (bytes ''NOT_FOUND'' @ crlf)) = []"
    using idle_line_io [of empty_io] by (simp_all add: line_io_receive unread_receive line_io_read idle_io_def)
  have ok: "io_ok (receive empty_io (bytes ''NOT_FOUND'' @ crlf))" using l(1) by (simp add: line_io_def)
  show "\<exists>W. read_turn ops ?env (mmc_ascii_protocol plain_runtime) 0 ?w =
      map_option (\<lambda>w'. (False, MMC_REQUEST_FAILURE, w')) (mmc_server_deactivate ops ?env (mmc_ascii_protocol plain_runtime) 0 W) \<and>
    m_error (p_mmc W 0) = Some (bytes ''NOT_FOUND'')"
    using missing_key_takes_server_down [OF w, of ?env "[]" ops plain_runtime] ok l(2,3) unfolding io by blast
qed

end
