(* ===== verification/Mmc_Session.thy ===== *)
theory Mmc_Session
  imports Mmc_Exchange
begin

text \<open>
  The session handler of \<^verbatim>\<open>src/memcache_session.c\<close>: opening a save path, reading under a lock,
  writing, destroying.

  The session functions use the pool of \<open>Mmc_Client\<close>. Of the three variables of a call,
  \<^verbatim>\<open>dataresult\<close> is \<open>c_return\<close>, \<^verbatim>\<open>lockresult\<close> is \<open>c_flags\<close> and \<^verbatim>\<open>addresult\<close> is \<open>c_cas\<close>. \<open>None\<close>
  is a fault, a loop that does not end or, in \<open>session_open\<close>, a fault of the hash ring.
  \<^verbatim>\<open>usleep\<close> has no effect of its own on the pool.
\<close>

definition lockresult :: "('d, 'o) zval_ptr" where
  "lockresult = \<lparr>deref = c_flags, assign = (\<lambda>v c. c\<lparr>c_flags := v\<rparr>)\<rparr>"

definition addresult :: "('d, 'o) zval_ptr" where
  "addresult = \<lparr>deref = c_cas, assign = (\<lambda>v c. c\<lparr>c_cas := v\<rparr>)\<rparr>"

text \<open>\<^verbatim>\<open>mmc_value_handler_single\<close> with the parameters of the lock request.\<close>

definition value_handler_lock :: "('d, 'o, ('d, 'o) php_call) value_fun" where
  "value_handler_lock key v flags cas c = (MMC_REQUEST_DONE, assign lockresult (Val v) c)"

subsection \<open>Opening\<close>

text \<open>
  A part of the save path as \<^verbatim>\<open>php_url_parse_ex\<close> gives it, with the parameters of its query as
  \<^verbatim>\<open>treat_data\<close> and the conversions of PHP give them; the timeout is in microseconds.
\<close>

record url_query =
  uq_persistent :: "bool option"
  uq_udp_port :: "int option"
  uq_weight :: "int option"
  uq_timeout :: "int option"
  uq_retry_interval :: "int option"

record php_url =
  url_scheme :: "buf option"
  url_host :: "buf option"
  url_port :: nat
  url_path :: "buf option"
  url_query :: "url_query option"

definition is_separator :: "u8 \<Rightarrow> bool" where
  "is_separator c \<longleftrightarrow> is_space c \<or> c = 44"

text \<open>The parts of the save path between white space and commas.\<close>

function path_parts :: "buf \<Rightarrow> buf list" where
  "path_parts path =
     (let start = dropWhile is_separator path; part = takeWhile (\<lambda>c. \<not> is_separator c) start
      in if part = [] then [] else part # path_parts (drop (length part) start))"
  by auto
termination
proof (relation "measure length")
  fix path :: buf and start part
  assume "start = dropWhile is_separator path" and "part = takeWhile (\<lambda>c. \<not> is_separator c) start" and "part \<noteq> []"
  from this(1) have "length start \<le> length path" by (simp add: length_dropWhile_le)
  moreover have "0 < length start" "0 < length part" using \<open>part = _\<close> \<open>part \<noteq> []\<close> by auto
  ultimately show "(drop (length part) start, path) \<in> measure length" unfolding in_measure length_drop by linarith
qed simp

declare path_parts.simps [simp del]

text \<open>\<^verbatim>\<open>unix:\<close> becomes \<^verbatim>\<open>file:\<close>, which the parser of URLs knows.\<close>

definition translate_unix :: "buf \<Rightarrow> buf" where
  "translate_unix part = (if take 5 part = bytes ''unix:'' then bytes ''file:'' @ drop 5 part else part)"

text \<open>The conversion of a PHP integer to a C \<^verbatim>\<open>int\<close>.\<close>

definition c_int :: "int \<Rightarrow> int" where
  "c_int i = sint (word_of_int i :: 32 word)"

record server_url =
  su_persistent :: bool
  su_udp_port :: int
  su_weight :: int
  su_timeout :: int
  su_retry_interval :: int

definition url_settings :: "url_query option \<Rightarrow> server_url" where
  "url_settings q =
     (case q of
        None \<Rightarrow> \<lparr>su_persistent = False, su_udp_port = 0, su_weight = 1, su_timeout = 1000000, su_retry_interval = 15\<rparr>
      | Some q \<Rightarrow>
          \<lparr>su_persistent = (case uq_persistent q of None \<Rightarrow> False | Some b \<Rightarrow> b),
           su_udp_port = (case uq_udp_port q of None \<Rightarrow> 0 | Some i \<Rightarrow> c_int i),
           su_weight = (case uq_weight q of None \<Rightarrow> 1 | Some i \<Rightarrow> c_int i),
           su_timeout = (case uq_timeout q of None \<Rightarrow> 1000000 | Some t \<Rightarrow> t),
           su_retry_interval = (case uq_retry_interval q of None \<Rightarrow> 15 | Some i \<Rightarrow> c_int i)\<rparr>)"

text \<open>\<^verbatim>\<open>unix://\<close> and the path; the server gets it without a trailing \<^verbatim>\<open>:0\<close>, the name of its entry has it.\<close>

definition unix_host :: "buf \<Rightarrow> buf" where
  "unix_host path = bytes ''unix://'' @ c_string path"

definition unix_host_len :: "buf \<Rightarrow> nat" where
  "unix_host_len host =
     (if drop (length host - 2) host = bytes '':0'' then length host - 2 else length host)"

definition session_server ::
  "int \<Rightarrow> nat \<Rightarrow> server_url \<Rightarrow> buf \<Rightarrow> nat \<Rightarrow> nat \<Rightarrow> nat \<Rightarrow> persistent_list \<Rightarrow> ('d, 'o, 'p) client \<Rightarrow>
   nat \<times> persistent_list \<times> ('d, 'o, 'p) client" where
  "session_server chunk_size addr su host host_len port udp_port pl w =
     (if su_persistent su then mmc_find_persistent chunk_size addr host host_len port udp_port (su_timeout su) (su_retry_interval su) pl w
      else (addr, pl, upd_mmc addr
             (\<lambda>_. mmc_server_new chunk_size (take host_len host) port udp_port False (su_timeout su) (su_retry_interval su)) w))"

text \<open>The server of one part; nothing when the part is refused. Only servers with a host are checked.\<close>

definition url_server ::
  "int \<Rightarrow> nat \<Rightarrow> php_url \<Rightarrow> persistent_list \<Rightarrow> ('d, 'o, 'p) client \<Rightarrow> (nat \<times> int \<times> persistent_list \<times> ('d, 'o, 'p) client) option" where
  "url_server chunk_size addr url pl w =
     (let su = url_settings (url_query url) in
      case (url_scheme url, url_path url, url_host url) of
        (scheme, path, host) \<Rightarrow>
          if scheme \<noteq> None \<and> path \<noteq> None \<and> c_string (the scheme) = bytes ''file'' then
            let name = unix_host (the path);
                (m, pl, w) = session_server chunk_size addr su name (unix_host_len name) 0 0 pl w
            in Some (m, su_weight su, pl, w)
          else if host = None \<or> su_weight su \<le> 0 \<or> su_timeout su \<le> 0 then None
          else
            let (m, pl, w) = session_server chunk_size addr su (the host) (length (the host)) (url_port url)
                               (unsigned_short (su_udp_port su)) pl w
            in Some (m, su_weight su, pl, w))"

text \<open>
  Each part in turn; \<open>Inl\<close> is FAILURE with the list of persistent servers so far, the outer
  \<open>None\<close> a fault of the hash ring. \<open>addr\<close> is the address the first allocation gives.
\<close>

fun open_parts ::
  "(buf \<Rightarrow> php_url option) \<Rightarrow> int \<Rightarrow> nat \<Rightarrow> buf list \<Rightarrow> persistent_list \<Rightarrow> ('d, 'o, 'p) client \<Rightarrow>
   (persistent_list + persistent_list \<times> ('d, 'o, 'p) client) option" where
  "open_parts parse chunk_size addr [] pl w = Some (Inr (pl, w))"
| "open_parts parse chunk_size addr (part # parts) pl w =
     (case parse (translate_unix part) of
        None \<Rightarrow> Some (Inl pl)
      | Some url \<Rightarrow>
          (case url_server chunk_size addr url pl w of
             None \<Rightarrow> Some (Inl pl)
           | Some (m, weight, pl, w) \<Rightarrow>
               do {
                 w \<leftarrow> mmc_pool_add m (word_of_int weight) w;
                 open_parts parse chunk_size (addr + 1) parts pl w
               }))"

definition session_open ::
  "(buf \<Rightarrow> php_url option) \<Rightarrow> int \<Rightarrow> nat \<Rightarrow> buf option \<Rightarrow> buf option \<Rightarrow> persistent_list \<Rightarrow> ('d, 'o, 'p) client \<Rightarrow>
   (persistent_list + persistent_list \<times> ('d, 'o, 'p) client) option" where
  "session_open parse chunk_size addr session_save_path save_path pl new_pool =
     (case (case session_save_path of None \<Rightarrow> save_path | Some p \<Rightarrow> Some p) of
        None \<Rightarrow> Some (Inl pl)
      | Some path \<Rightarrow>
          (case open_parts parse chunk_size addr (path_parts (c_string path)) pl new_pool of
             Some (Inr (pl, w)) \<Rightarrow> Some (if p_servers w = [] then Inl pl else Inr (pl, w))
           | result \<Rightarrow> result))"

subsection \<open>Keys and requests\<close>

text \<open>\<^verbatim>\<open>strcpy(key + key_len, ".lock")\<close> in a buffer of 251 bytes.\<close>

definition lock_key :: "buf \<Rightarrow> buf option" where
  "lock_key k = (if length k + 6 \<le> MMC_MAX_KEY_LEN + 1 then Some (k @ bytes ''.lock'') else None)"

definition prepare_session_key :: "('d, 'o) client_env \<Rightarrow> buf option \<Rightarrow> buf \<Rightarrow> buf option option" where
  "prepare_session_key env pre key = mmc_prepare_key (env\<lparr>g_key_prefix := pre\<rparr>) key"

text \<open>What a session function knows of its environment: the settings and the address of its key.\<close>

record ('d, 'o, 'p) session_context =
  sc_ops :: "('d, 'o, 'p) client_ops"
  sc_env :: "('d, 'o) client_env"
  sc_proto :: "('d, 'o, 'p) client_protocol"
  sc_cmd :: "('d, 'o, 'p) mmc_commands"
  sc_arrays :: zend_arrays
  sc_prefix :: "buf option"
  sc_lock_timeout :: "64 word"
  sc_redundancy :: int
  sc_zkey :: nat

definition read_requests ::
  "('d, 'o, 'p) session_context \<Rightarrow> buf \<Rightarrow> ('d, 'o, 'p) client \<Rightarrow> ((nat \<times> nat \<times> nat) option \<times> ('d, 'o, 'p) client) option" where
  "read_requests sc key w =
     (let pr = sc_proto sc; cmd = sc_cmd sc;
          (l, w) = mmc_pool_request pr False mmc_pool_response_handler_null mmc_failover_null w;
          w = upd_req l (\<lambda>req. req\<lparr>r_value := value_handler_lock\<rparr>) w;
          (a, w) = mmc_pool_request pr False (mmc_stored_handler addresult) mmc_failover_null w;
          (d, w) = mmc_pool_request_get pr False (mmc_value_handler_single False False) mmc_failover_null w
      in do {
        prepared \<leftarrow> prepare_session_key (sc_env sc) (sc_prefix sc) key;
        case prepared of
          None \<Rightarrow> Some (None, mmc_pool_release d (mmc_pool_release a (mmc_pool_release l w)))
        | Some k \<Rightarrow>
            do {
              lk \<leftarrow> lock_key k;
              let w = upd_proto d (pr_set_key pr k) (upd_proto a (pr_set_key pr lk) (upd_proto l (pr_set_key pr lk) w));
              let w = upd_req l (\<lambda>req. req\<lparr>r_response := mmc_numeric_response_handler (sc_arrays sc) lk lockresult\<rparr>) w;
              let w = upd_proto l (\<lambda>p. cmd_mutate cmd p (sc_zkey sc) lk 1 1 True (ucast (sc_lock_timeout sc))) w;
              let w = upd_proto a (\<lambda>p. snd (cmd_store cmd p MMC_OP_ADD lk 0 (ucast (sc_lock_timeout sc)) 0 (IS_LONG 1))) w;
              Some (Some (l, a, d), upd_proto d (\<lambda>p. cmd_get cmd p MMC_OP_GET (sc_zkey sc) k) w)
            }
      })"

text \<open>\<^verbatim>\<open>!mmc_server_valid(mmc) || mmc_pool_schedule(...) != MMC_OK || ...\<close>: whether all were scheduled.\<close>

fun schedule_in_order :: "('d, 'o, 'p) client_ops \<Rightarrow> nat \<Rightarrow> nat list \<Rightarrow> ('d, 'o, 'p) client \<Rightarrow> (bool \<times> ('d, 'o, 'p) client) option" where
  "schedule_in_order ops mmc [] w = Some (True, w)"
| "schedule_in_order ops mmc (r # rs) w =
     do {
       (result, w) \<leftarrow> op_schedule ops mmc r w;
       if result \<noteq> MMC_OK then Some (False, w) else schedule_in_order ops mmc rs w
     }"

definition schedule_on ::
  "('d, 'o, 'p) session_context \<Rightarrow> nat \<Rightarrow> nat list \<Rightarrow> ('d, 'o, 'p) client \<Rightarrow> (bool \<times> ('d, 'o, 'p) client) option" where
  "schedule_on sc mmc rs w =
     (if server_valid (sc_env sc) w mmc then schedule_in_order (sc_ops sc) mmc rs w else Some (False, w))"

definition release_all :: "nat list \<Rightarrow> ('d, 'o, 'p) client \<Rightarrow> ('d, 'o, 'p) client" where
  "release_all rs w = fold mmc_pool_release rs w"

definition set_null :: "('d, 'o, 'p) client \<Rightarrow> ('d, 'o, 'p) client" where
  "set_null = upd_call (\<lambda>c. c\<lparr>c_flags := Val IS_NULL, c_cas := Val IS_NULL, c_return := Val IS_NULL\<rparr>)"

text \<open>The server the key's next position in its failover sequence gives, outside of the skip list.\<close>

definition next_server ::
  "('d, 'o, 'p) session_context \<Rightarrow> nat \<Rightarrow> nat fifo \<Rightarrow> nat \<Rightarrow> ('d, 'o, 'p) client \<Rightarrow> (nat \<times> nat \<times> ('d, 'o, 'p) client) option" where
  "next_server sc r skip index w =
     mmc_pool_find_next (sc_env sc) (pr_key (sc_proto sc) (r_proto (p_req w r))) (Some skip) index w"

definition more_servers :: "('d, 'o, 'p) session_context \<Rightarrow> nat fifo \<Rightarrow> ('d, 'o, 'p) client \<Rightarrow> bool" where
  "more_servers sc skip w \<longleftrightarrow> int (fq_len skip) < sc_redundancy sc \<and> fq_len skip < length (p_servers w)"

subsection \<open>Reading under the lock\<close>

text \<open>The lock is held by the one whose increment gave 1 or whose add stored it.\<close>

definition session_locked :: "('d, 'o) php_call \<Rightarrow> bool" where
  "session_locked c \<longleftrightarrow> c_flags c = Val (IS_LONG 1) \<or> c_cas c = Val IS_TRUE"

record read_state =
  rs_skip :: "nat fifo"
  rs_index :: nat
  rs_timeout :: int
  rs_remaining :: int

text \<open>
  One turn: the result of the function, if it is over, with whether it is SUCCESS and the data;
  otherwise the state for the test of the loop.
\<close>

definition read_turn_session ::
  "('d, 'o, 'p) session_context \<Rightarrow> buf \<Rightarrow> read_state \<Rightarrow> ('d, 'o, 'p) client \<Rightarrow>
   ((bool \<times> buf) option \<times> read_state \<times> ('d, 'o, 'p) client) option" where
  "read_turn_session sc key st w =
     do {
       (requests, w) \<leftarrow> read_requests sc key (set_null w);
       case requests of
         None \<Rightarrow> Some (Some (False, []), st, w)
       | Some (l, a, d) \<Rightarrow>
           do {
             (mmc, index, w) \<leftarrow> next_server sc d (rs_skip st) (rs_index st) w;
             (scheduled, w) \<leftarrow> schedule_on sc mmc [l, a, d] w;
             if \<not> scheduled then
               Some (None, st\<lparr>rs_skip := fq_push (rs_skip st) mmc, rs_index := index\<rparr>, release_all [l, a, d] w)
             else do {
               w \<leftarrow> mmc_pool_run (sc_ops sc) (sc_proto sc) w;
               if session_locked (p_user w) then
                 (case c_return (p_user w) of
                    Val (IS_STRING data) \<Rightarrow> Some (Some (True, data), st, w)
                  | _ \<Rightarrow>
                      (let skip = fq_push (rs_skip st) mmc in
                       if fq_len skip = length (p_servers w) \<and> int (fq_len skip) < sc_redundancy sc
                       then Some (Some (True, []), st\<lparr>rs_skip := skip, rs_index := index\<rparr>, w)
                       else Some (None, st\<lparr>rs_skip := skip, rs_index := index\<rparr>, w)))
               else
                 Some (None, st\<lparr>rs_timeout := (if rs_timeout st * 2 > 1000000 then 1000000 else rs_timeout st * 2),
                               rs_remaining := rs_remaining st - rs_timeout st\<rparr>, w)
             }
           }
     }"

partial_function (option) read_loop_session ::
  "('d, 'o, 'p) session_context \<Rightarrow> buf \<Rightarrow> read_state \<Rightarrow> ('d, 'o, 'p) client \<Rightarrow>
   (bool \<times> buf \<times> read_state \<times> ('d, 'o, 'p) client) option" where
  "read_loop_session sc key st w =
     Option.bind (read_turn_session sc key st w) (\<lambda>(out, st, w).
       case out of
         Some (success, data) \<Rightarrow> Some (success, data, st, w)
       | None \<Rightarrow>
           if more_servers sc (rs_skip st) w \<and> rs_remaining st > 0 then read_loop_session sc key st w
           else Some (True, [], st, w))"

definition session_read ::
  "('d, 'o, 'p) session_context \<Rightarrow> buf \<Rightarrow> ('d, 'o, 'p) client \<Rightarrow> (bool \<times> buf \<times> read_state \<times> ('d, 'o, 'p) client) option" where
  "session_read sc key w =
     read_loop_session sc key
       \<lparr>rs_skip = fq_zero, rs_index = 0, rs_timeout = 5000, rs_remaining = sint (sc_lock_timeout sc * 2000000)\<rparr> w"

subsection \<open>Writing\<close>

text \<open>
  \<^verbatim>\<open>lockrequest\<close> and \<^verbatim>\<open>mmc\<close> are not initialised: \<open>ws_lock\<close> and \<open>ws_mmc\<close> are \<open>None\<close> before the
  first assignment, and a use then is a fault.
\<close>

record write_state =
  ws_skip :: "nat fifo"
  ws_index :: nat
  ws_lock :: "nat option option"
  ws_mmc :: "nat option"

text \<open>One turn; the boolean is a \<^verbatim>\<open>break\<close>.\<close>

definition write_turn ::
  "('d, 'o, 'p) session_context \<Rightarrow> buf \<Rightarrow> buf \<Rightarrow> 64 word \<Rightarrow> write_state \<Rightarrow> ('d, 'o, 'p) client \<Rightarrow>
   (bool \<times> write_state \<times> ('d, 'o, 'p) client) option" where
  "write_turn sc key val lifetime st w =
     (let pr = sc_proto sc; cmd = sc_cmd sc;
          (d, w) = mmc_pool_request pr False (mmc_stored_handler return_value) mmc_failover_null w
      in do {
        prepared \<leftarrow> prepare_session_key (sc_env sc) (sc_prefix sc) key;
        case prepared of
          None \<Rightarrow>
            do {
              lock \<leftarrow> ws_lock st;
              let w = mmc_pool_release d w;
              Some (True, st, case lock of None \<Rightarrow> w | Some l \<Rightarrow> mmc_pool_release l w)
            }
        | Some k \<Rightarrow>
            do {
              let (l, w) = mmc_pool_request pr False (mmc_stored_handler lockresult) mmc_failover_null w;
              lk \<leftarrow> lock_key k;
              let w = upd_proto l (pr_set_key pr lk) (upd_proto d (pr_set_key pr k) w);
              let (data_ok, proto) = cmd_store cmd (r_proto (p_req w d)) MMC_OP_SET k 0 (ucast lifetime) 0 (IS_STRING val);
              let w = upd_proto d (\<lambda>_. proto) w;
              let (lock_ok, w) =
                (if data_ok \<noteq> MMC_OK then (data_ok, w)
                 else let (status, proto) = cmd_store cmd (r_proto (p_req w l)) MMC_OP_SET lk 0 (ucast (sc_lock_timeout sc)) 0 (IS_LONG 0)
                      in (status, upd_proto l (\<lambda>_. proto) w));
              if data_ok \<noteq> MMC_OK \<or> lock_ok \<noteq> MMC_OK then
                do {
                  mmc \<leftarrow> ws_mmc st;
                  Some (True, st\<lparr>ws_lock := Some (Some l), ws_skip := fq_push (ws_skip st) mmc\<rparr>, release_all [d, l] w)
                }
              else do {
                (mmc, index, w) \<leftarrow> next_server sc d (ws_skip st) (ws_index st) w;
                let st = st\<lparr>ws_skip := fq_push (ws_skip st) mmc, ws_index := index, ws_lock := Some (Some l), ws_mmc := Some mmc\<rparr>;
                (scheduled, w) \<leftarrow> schedule_on sc mmc [d, l] w;
                if \<not> scheduled then Some (False, st\<lparr>ws_lock := Some None\<rparr>, release_all [d, l] w)
                else Some (False, st, w)
              }
            }
      })"

partial_function (option) write_loop ::
  "('d, 'o, 'p) session_context \<Rightarrow> buf \<Rightarrow> buf \<Rightarrow> 64 word \<Rightarrow> write_state \<Rightarrow> ('d, 'o, 'p) client \<Rightarrow> ('d, 'o, 'p) client option" where
  "write_loop sc key val lifetime st w =
     Option.bind (write_turn sc key val lifetime st w) (\<lambda>(over, st, w).
       if \<not> over \<and> more_servers sc (ws_skip st) w then write_loop sc key val lifetime st w else Some w)"

definition both_true :: "('d, 'o) php_call \<Rightarrow> bool" where
  "both_true c \<longleftrightarrow> c_flags c = Val IS_TRUE \<and> c_return c = Val IS_TRUE"

text \<open>Whether the result is SUCCESS. \<open>lifetime\<close> is the current time and \<^verbatim>\<open>session.gc_maxlifetime\<close>.\<close>

definition session_write ::
  "('d, 'o, 'p) session_context \<Rightarrow> buf \<Rightarrow> buf \<Rightarrow> 64 word \<Rightarrow> ('d, 'o, 'p) client \<Rightarrow> (bool \<times> ('d, 'o, 'p) client) option" where
  "session_write sc key val lifetime w =
     do {
       w \<leftarrow> write_loop sc key val lifetime \<lparr>ws_skip = fq_zero, ws_index = 0, ws_lock = None, ws_mmc = None\<rparr>
              (upd_call (\<lambda>c. c\<lparr>c_flags := Val IS_NULL, c_return := Val IS_NULL\<rparr>) w);
       w \<leftarrow> mmc_pool_run (sc_ops sc) (sc_proto sc) w;
       Some (both_true (p_user w), w)
     }"

subsection \<open>Destroying\<close>

definition mmc_deleted_handler :: "('d, 'o) zval_ptr \<Rightarrow> ('d, 'o) php_call response_fun" where
  "mmc_deleted_handler result udp response message len s =
     (let (mmc, c) = s in
      if response = MMC_OK \<or> response = MMC_RESPONSE_NOT_FOUND then (MMC_REQUEST_DONE, mmc, assign result (Val IS_TRUE) c)
      else if response = MMC_RESPONSE_CLIENT_ERROR then
        (MMC_REQUEST_DONE, mmc, server_notice mmc message response (assign result (Val IS_FALSE) c))
      else fail_request udp message len s)"

definition destroy_turn ::
  "('d, 'o, 'p) session_context \<Rightarrow> buf \<Rightarrow> nat fifo \<Rightarrow> nat \<Rightarrow> ('d, 'o, 'p) client \<Rightarrow> (bool \<times> nat fifo \<times> nat \<times> ('d, 'o, 'p) client) option" where
  "destroy_turn sc key skip index w =
     (let pr = sc_proto sc; cmd = sc_cmd sc;
          (d, w) = mmc_pool_request pr False (mmc_deleted_handler return_value) mmc_failover_null w
      in do {
        prepared \<leftarrow> prepare_session_key (sc_env sc) (sc_prefix sc) key;
        case prepared of
          None \<Rightarrow> Some (True, skip, index, mmc_pool_release d w)
        | Some k \<Rightarrow>
            do {
              let (l, w) = mmc_pool_request pr False (mmc_deleted_handler lockresult) mmc_failover_null w;
              lk \<leftarrow> lock_key k;
              let w = upd_proto d (\<lambda>p. cmd_delete cmd (pr_set_key pr k p) k 0) w;
              let w = upd_proto l (\<lambda>p. cmd_delete cmd (pr_set_key pr lk p) lk 0) w;
              (mmc, index, w) \<leftarrow> next_server sc d skip index w;
              let skip = fq_push skip mmc;
              (scheduled, w) \<leftarrow> schedule_on sc mmc [d, l] w;
              Some (False, skip, index, if scheduled then w else release_all [d, l] w)
            }
      })"

partial_function (option) destroy_loop ::
  "('d, 'o, 'p) session_context \<Rightarrow> buf \<Rightarrow> nat fifo \<Rightarrow> nat \<Rightarrow> ('d, 'o, 'p) client \<Rightarrow> ('d, 'o, 'p) client option" where
  "destroy_loop sc key skip index w =
     Option.bind (destroy_turn sc key skip index w) (\<lambda>(over, skip, index, w).
       if \<not> over \<and> more_servers sc skip w then destroy_loop sc key skip index w else Some w)"

definition session_destroy ::
  "('d, 'o, 'p) session_context \<Rightarrow> buf \<Rightarrow> ('d, 'o, 'p) client \<Rightarrow> (bool \<times> ('d, 'o, 'p) client) option" where
  "session_destroy sc key w =
     do {
       w \<leftarrow> destroy_loop sc key fq_zero 0 (upd_call (\<lambda>c. c\<lparr>c_flags := Val IS_NULL, c_return := Val IS_NULL\<rparr>) w);
       w \<leftarrow> mmc_pool_run (sc_ops sc) (sc_proto sc) w;
       Some (both_true (p_user w), w)
     }"

text \<open>Closing frees the pool (\<open>Mmc_Lifetime\<close>), and the garbage collection is left to the servers.\<close>

definition session_gc :: bool where
  "session_gc = True"

subsection \<open>The key of the lock\<close>

definition session_prefix :: "('d, 'o, 'p) session_context \<Rightarrow> buf" where
  "session_prefix sc = (case sc_prefix sc of None \<Rightarrow> [] | Some p \<Rightarrow> p)"

lemma prepare_session_key_cases:
  assumes "length (session_prefix sc) \<le> MMC_MAX_KEY_LEN"
  shows "prepare_session_key (sc_env sc) (sc_prefix sc) key =
    Some (if key = [] then None else Some (take MMC_MAX_KEY_LEN (map key_byte (session_prefix sc @ key))))"
proof (cases "key = []")
  case True
  then show ?thesis by (simp add: prepare_session_key_def mmc_prepare_key_def mmc_prepare_key_ex_def mmc_consts)
next
  case False
  have buffer: "key_buffer (replicate (MMC_MAX_KEY_LEN + 1) 0)" by (simp add: key_buffer_def)
  from prepare_key_ex_prepared [OF False buffer assms session_prefix_def] show ?thesis
    using False by (auto simp: prepare_session_key_def mmc_prepare_key_def prepared_key_def)
qed

lemma lock_key_None: "lock_key k = None \<longleftrightarrow> 245 < length k"
  by (auto simp: lock_key_def MMC_MAX_KEY_LEN_def)

lemma read_requests_None:
  assumes "length (session_prefix sc) \<le> MMC_MAX_KEY_LEN"
  shows "read_requests sc key w = None \<longleftrightarrow> key \<noteq> [] \<and> 245 < length (session_prefix sc) + length key"
proof -
  have "245 < length (take MMC_MAX_KEY_LEN (map key_byte (session_prefix sc @ key))) \<longleftrightarrow> 245 < length (session_prefix sc) + length key"
    unfolding length_take length_map length_append MMC_MAX_KEY_LEN_def by linarith
  then show ?thesis
    unfolding read_requests_def prepare_session_key_cases [OF assms] lock_key_None [symmetric]
    by (auto simp: case_prod_unfold Let_def bind_eq_None_conv)
qed

text \<open>
  C38: Where the key of the lock fits: reading a session writes over the end of the key buffer of the
  lock request exactly when the prefix and the session id have more than 245 bytes together, as
  the prepared key of up to 250 bytes is followed by the five of \<^verbatim>\<open>.lock\<close> and a terminator.
\<close>

theorem session_lock_key_safe_iff:
  assumes "length (session_prefix sc) \<le> MMC_MAX_KEY_LEN"
  shows "read_requests sc key w = None \<longleftrightarrow> key \<noteq> [] \<and> 245 < length (session_prefix sc) + length key"
  by (rule read_requests_None [OF assms])

subsection \<open>Reading returns what was read under the lock\<close>

lemma read_turn_locked:
  assumes "read_turn_session sc key st w = Some (Some (success, data), st', w')" and "data \<noteq> []"
  shows "success \<and> session_locked (p_user w') \<and> c_return (p_user w') = Val (IS_STRING data)"
  using assms
  by (auto simp: read_turn_session_def bind_eq_Some_conv Let_def split: option.splits if_splits php_value.splits zval.splits)

definition locked_result :: "bool \<times> buf \<times> read_state \<times> ('d, 'o, 'p) client \<Rightarrow> bool" where
  "locked_result y \<longleftrightarrow>
     (case y of (success, data, st, w) \<Rightarrow> data \<noteq> [] \<longrightarrow> success \<and> session_locked (p_user w) \<and> c_return (p_user w) = Val (IS_STRING data))"

lemma read_loop_locked:
  assumes "read_loop_session sc key st w = Some y"
  shows "locked_result y"
proof (rule read_loop_session.raw_induct [where P = "\<lambda>sc key st w y. locked_result y", OF _ assms])
  fix loop sc key st w y
  assume 1: "\<And>sc key st w y. loop sc key st w = Some y \<Longrightarrow> locked_result y"
    "Option.bind (read_turn_session sc key st w) (\<lambda>(out, st, w). case out of
         Some (success, data) \<Rightarrow> Some (success, data, st, w)
       | None \<Rightarrow> if more_servers sc (rs_skip st) w \<and> rs_remaining st > 0 then loop sc key st w else Some (True, [], st, w)) = Some y"
  from 1(2) obtain out st1 w1 where turn: "read_turn_session sc key st w = Some (out, st1, w1)"
    and rest: "(case out of Some (success, data) \<Rightarrow> Some (success, data, st1, w1)
       | None \<Rightarrow> if more_servers sc (rs_skip st1) w1 \<and> rs_remaining st1 > 0 then loop sc key st1 w1 else Some (True, [], st1, w1)) = Some y"
    by (auto simp: bind_eq_Some_conv)
  show "locked_result y"
  proof (cases out)
    case None
    then show ?thesis using rest 1(1) by (auto simp: locked_result_def split: if_splits)
  next
    case (Some r)
    then show ?thesis using rest turn by (cases r) (auto simp: locked_result_def dest: read_turn_locked)
  qed
qed


text \<open>A session whose server answers at once that the lock is taken and the data is \<open>d\<close>.\<close>

definition example_session :: "(unit, unit, mmc_ascii_request) session_context" where
  "example_session =
     \<lparr>sc_ops = \<lparr>op_schedule = (\<lambda>m r w. Some (MMC_OK, upd_call (\<lambda>c. c\<lparr>c_flags := Val (IS_LONG 1), c_return := Val (IS_STRING [100])\<rparr>) w)),
                op_select = Some\<rparr>,
      sc_env = exchange_env [], sc_proto = mmc_ascii_protocol plain_runtime,
      sc_cmd = mmc_ascii_commands plain_runtime \<lparr>compress_threshold = 0, savings_room = (\<lambda>n. n)\<rparr>, sc_arrays = example_zend,
      sc_prefix = None, sc_lock_timeout = 15, sc_redundancy = 1, sc_zkey = 7\<rparr>"

theorem session_lock_key_safe_iff_witness: "read_requests example_session (replicate 246 97) exchange_pool = None"
  using session_lock_key_safe_iff [of example_session "replicate 246 97" exchange_pool] by (simp add: session_prefix_def example_session_def)

subsection \<open>Reading returns\<close>

text \<open>
  The parts that reading calls come back, on the pools of \<open>P\<close>: scheduling, running the pool, and
  the search for a server, which finds one outside of the skip list while there is one.
\<close>

definition session_works :: "(('d, 'o, 'p) client \<Rightarrow> bool) \<Rightarrow> ('d, 'o, 'p) session_context \<Rightarrow> bool" where
  "session_works P sc \<longleftrightarrow>
     (\<forall>w. P w \<longrightarrow>
        (\<forall>w'. same_work w w' \<longrightarrow> P w') \<and>
        (\<forall>m r. \<exists>x w'. op_schedule (sc_ops sc) m r w = Some (x, w') \<and> P w' \<and> p_servers w' = p_servers w) \<and>
        (\<exists>w'. mmc_pool_run (sc_ops sc) (sc_proto sc) w = Some w' \<and> P w' \<and> p_servers w' = p_servers w) \<and>
        (\<forall>r skip i. fq_len skip < length (p_servers w) \<longrightarrow>
           (\<exists>m j w'. next_server sc r skip i w = Some (m, j, w') \<and> m \<notin> set (fq_list skip) \<and> P w' \<and> p_servers w' = p_servers w)))"

lemma session_worksD:
  assumes "session_works P sc" and "P w"
  shows "same_work w w' \<Longrightarrow> P w'"
    and "\<exists>x w'. op_schedule (sc_ops sc) m r w = Some (x, w') \<and> P w' \<and> p_servers w' = p_servers w"
    and "\<exists>w'. mmc_pool_run (sc_ops sc) (sc_proto sc) w = Some w' \<and> P w' \<and> p_servers w' = p_servers w"
    and "fq_len skip < length (p_servers w) \<Longrightarrow>
      \<exists>m j w'. next_server sc r skip i w = Some (m, j, w') \<and> m \<notin> set (fq_list skip) \<and> P w' \<and> p_servers w' = p_servers w"
  using assms unfolding session_works_def by blast+

lemma schedule_in_order_returns:
  assumes "session_works P sc"
  shows "P w \<Longrightarrow> \<exists>ok w'. schedule_in_order (sc_ops sc) m rs w = Some (ok, w') \<and> P w' \<and> p_servers w' = p_servers w"
proof (induction rs arbitrary: w)
  case (Cons r rs)
  obtain x w1 where s: "op_schedule (sc_ops sc) m r w = Some (x, w1)" "P w1" "p_servers w1 = p_servers w"
    using session_worksD(2) [OF assms Cons.prems] by blast
  then show ?case using Cons.IH [of w1] by (cases "x = MMC_OK") auto
qed (simp add: exI [of "\<lambda>x. x" True])

lemma schedule_on_returns:
  assumes "session_works P sc" and "P w"
  shows "\<exists>ok w'. schedule_on sc m rs w = Some (ok, w') \<and> P w' \<and> p_servers w' = p_servers w"
  using schedule_in_order_returns [OF assms, of m rs] assms(2) unfolding schedule_on_def by (cases "server_valid (sc_env sc) w m") auto

lemma same_work_release [simp]: "same_work w (mmc_pool_release r w') = same_work w w'"
  by (simp add: same_work_def mmc_pool_release_def)

lemma same_work_release_all [simp]: "same_work w (release_all rs w') = same_work w w'"
proof -
  have "same_work w (fold mmc_pool_release rs w') = same_work w w'" for w'
    by (induction rs arbitrary: w') simp_all
  then show ?thesis by (simp add: release_all_def)
qed

lemma same_work_has_servers: "same_work w w' \<Longrightarrow> p_servers w' = p_servers w"
  by (simp add: same_work_def)

lemma upd_call_servers [simp]: "p_servers (upd_call f w) = p_servers w"
  by (simp add: upd_call_def)

lemma same_work_null [simp]: "same_work w (set_null w') = same_work w w'"
  by (simp add: set_null_def)

lemma read_requests_returns:
  assumes "length (session_prefix sc) \<le> MMC_MAX_KEY_LEN" and "length (session_prefix sc) + length key \<le> 245"
  shows "\<exists>reqs w'. read_requests sc key w = Some (reqs, w') \<and> same_work w w' \<and> (reqs = None \<longleftrightarrow> key = [])"
proof -
  have "read_requests sc key w \<noteq> None" using read_requests_None [OF assms(1)] assms(2) by auto
  then obtain reqs w' where r: "read_requests sc key w = Some (reqs, w')" by auto
  obtain l w1 where l: "mmc_pool_request (sc_proto sc) False mmc_pool_response_handler_null mmc_failover_null w = (l, w1)" by fastforce
  let ?w1 = "upd_req l (\<lambda>req. req\<lparr>r_value := value_handler_lock\<rparr>) w1"
  obtain a w2 where a: "mmc_pool_request (sc_proto sc) False (mmc_stored_handler addresult) mmc_failover_null ?w1 = (a, w2)" by fastforce
  obtain d w3 where d: "mmc_pool_request_get (sc_proto sc) False (mmc_value_handler_single False False) mmc_failover_null w2 = (d, w3)" by fastforce
  have "same_work w ?w1" using request_allocated(1) [OF l] by simp
  also have "same_work ?w1 w2" by (rule request_allocated(1) [OF a])
  also have "same_work w2 w3" by (rule get_request_allocated(1) [OF d])
  finally have "same_work w w' \<and> (reqs = None \<longleftrightarrow> key = [])"
    using r by (auto simp: read_requests_def l a d prepare_session_key_cases [OF assms(1)] bind_eq_Some_conv Let_def split: if_splits)
  with r show ?thesis by blast
qed

text \<open>One turn returns, and a turn that is not the last one uses up a server or some of the time.\<close>

definition turn_progress where
  "turn_progress st st' \<longleftrightarrow>
     fq_len (rs_skip st') = fq_len (rs_skip st) + 1 \<and> rs_timeout st' = rs_timeout st \<and> rs_remaining st' = rs_remaining st \<or>
     rs_skip st' = rs_skip st \<and> rs_timeout st' = min 1000000 (rs_timeout st * 2) \<and> rs_remaining st' = rs_remaining st - rs_timeout st"

lemma read_turn_returns:
  assumes "session_works P sc" and "length (session_prefix sc) \<le> MMC_MAX_KEY_LEN" and "length (session_prefix sc) + length key \<le> 245"
    and "P w" and "fq_len (rs_skip st) < length (p_servers w)"
  shows "\<exists>out st' w'. read_turn_session sc key st w = Some (out, st', w') \<and> P w' \<and> p_servers w' = p_servers w \<and>
    (if out = None then turn_progress st st' else rs_remaining st' = rs_remaining st)"
proof -
  note works = session_worksD [OF assms(1)]
  obtain reqs w1 where r: "read_requests sc key (set_null w) = Some (reqs, w1)" "same_work (set_null w) w1"
    using read_requests_returns [OF assms(2,3), of "set_null w"] by auto
  have "same_work w w1" by (rule same_work_trans [OF _ r(2)]) simp
  then have w1: "P w1" "p_servers w1 = p_servers w" using works(1) [OF assms(4)] same_work_has_servers by auto
  show ?thesis
  proof (cases reqs)
    case None
    then show ?thesis using r w1 by (simp add: read_turn_session_def)
  next
    case (Some rqs)
    then obtain l a d where rqs: "reqs = Some (l, a, d)" by (cases rqs) auto
    have "fq_len (rs_skip st) < length (p_servers w1)" using assms(5) w1(2) by simp
    from works(4) [OF w1(1) this, of d "rs_index st"] obtain m j w2 where
      f: "next_server sc d (rs_skip st) (rs_index st) w1 = Some (m, j, w2)" "m \<notin> set (fq_list (rs_skip st))" "P w2"
      "p_servers w2 = p_servers w" using w1(2) by auto
    obtain ok w3 where s: "schedule_on sc m [l, a, d] w2 = Some (ok, w3)" "P w3" "p_servers w3 = p_servers w"
      using schedule_on_returns [OF assms(1) f(3), of m "[l, a, d]"] f(4) by auto
    obtain w4 where u: "mmc_pool_run (sc_ops sc) (sc_proto sc) w3 = Some w4" "P w4" "p_servers w4 = p_servers w"
      using works(3) [OF s(2)] s(3) by auto
    have rel: "P (release_all [l, a, d] w3)" "p_servers (release_all [l, a, d] w3) = p_servers w"
      using works(1) [OF s(2)] same_work_has_servers [of w3 "release_all [l, a, d] w3"] s(3) by auto
    have push: "fq_len (fq_push (rs_skip st) m) = fq_len (rs_skip st) + 1" using f(2) by simp
    have turn: "read_turn_session sc key st w =
      (if \<not> ok then Some (None, st\<lparr>rs_skip := fq_push (rs_skip st) m, rs_index := j\<rparr>, release_all [l, a, d] w3)
       else if session_locked (p_user w4) then
         (case c_return (p_user w4) of
            Val (IS_STRING data) \<Rightarrow> Some (Some (True, data), st, w4)
          | _ \<Rightarrow> Some (if fq_len (fq_push (rs_skip st) m) = length (p_servers w4) \<and> int (fq_len (fq_push (rs_skip st) m)) < sc_redundancy sc
                     then Some (True, []) else None, st\<lparr>rs_skip := fq_push (rs_skip st) m, rs_index := j\<rparr>, w4))
       else Some (None, st\<lparr>rs_timeout := (if rs_timeout st * 2 > 1000000 then 1000000 else rs_timeout st * 2),
                               rs_remaining := rs_remaining st - rs_timeout st\<rparr>, w4))"
      using r(1) f(1,2) s(1) u(1) by (auto simp: read_turn_session_def rqs Let_def split: php_value.split zval.split)
    have skip: "turn_progress st (st\<lparr>rs_skip := fq_push (rs_skip st) m, rs_index := j\<rparr>)" using push by (simp add: turn_progress_def)
    have backoff: "turn_progress st (st\<lparr>rs_timeout := (if rs_timeout st * 2 > 1000000 then 1000000 else rs_timeout st * 2),
        rs_remaining := rs_remaining st - rs_timeout st\<rparr>)" by (simp add: turn_progress_def)
    consider "\<not> ok" | "ok" "\<not> session_locked (p_user w4)" | data where "ok" "session_locked (p_user w4)" "c_return (p_user w4) = Val (IS_STRING data)"
      | "ok" "session_locked (p_user w4)" "\<forall>data. c_return (p_user w4) \<noteq> Val (IS_STRING data)" by blast
    then show ?thesis
    proof cases
      case 1
      then show ?thesis using turn skip rel by simp
    next
      case 2
      then show ?thesis using turn backoff u by simp
    next
      case 3
      then show ?thesis using turn u by simp
    next
      case 4
      let ?st = "st\<lparr>rs_skip := fq_push (rs_skip st) m, rs_index := j\<rparr>"
      obtain out where "read_turn_session sc key st w = Some (out, ?st, w4)"
        using turn 4 by (cases "c_return (p_user w4)") (auto split: zval.splits)
      then show ?thesis using u skip by (cases out) auto
    qed
  qed
qed

lemma read_loop_returns:
  assumes "session_works P sc" and "length (session_prefix sc) \<le> MMC_MAX_KEY_LEN" and "length (session_prefix sc) + length key \<le> 245"
  shows "P w \<Longrightarrow> fq_len (rs_skip st) < length (p_servers w) \<Longrightarrow> 0 < rs_timeout st \<Longrightarrow> rs_timeout st \<le> 1000000 \<Longrightarrow> 0 < rs_remaining st \<Longrightarrow>
    \<exists>success data st' w'. read_loop_session sc key st w = Some (success, data, st', w') \<and> - 1000000 < rs_remaining st'"
proof (induction "(length (p_servers w) - fq_len (rs_skip st)) + nat (rs_remaining st)" arbitrary: st w rule: less_induct)
  case less
  obtain out st1 w1 where t: "read_turn_session sc key st w = Some (out, st1, w1)" "p_servers w1 = p_servers w"
    "if out = None then turn_progress st st1 else rs_remaining st1 = rs_remaining st" "P w1"
    using read_turn_returns [OF assms less.prems(1,2)] by blast
  show ?case
  proof (cases "out = None \<and> more_servers sc (rs_skip st1) w1 \<and> rs_remaining st1 > 0")
    case True
    then have p: "turn_progress st st1" and more: "fq_len (rs_skip st1) < length (p_servers w1)" "0 < rs_remaining st1"
      using t(3) by (simp_all add: more_servers_def)
    have "(length (p_servers w1) - fq_len (rs_skip st1)) + nat (rs_remaining st1) < (length (p_servers w) - fq_len (rs_skip st)) + nat (rs_remaining st)"
      using p less.prems t(2) unfolding turn_progress_def by auto
    moreover have "0 < rs_timeout st1" "rs_timeout st1 \<le> 1000000" using p less.prems(3,4) by (auto simp: turn_progress_def)
    moreover have "read_loop_session sc key st w = read_loop_session sc key st1 w1"
      using t(1) True by (subst read_loop_session.simps) simp
    ultimately show ?thesis using less.hyps [of w1 st1] more t(4) by simp
  next
    case False
    have "- 1000000 < rs_remaining st1" using t(3) less.prems(4,5) by (auto simp: turn_progress_def split: if_splits)
    then show ?thesis using t(1) False by (subst read_loop_session.simps) (auto split: option.splits)
  qed
qed


lemma example_session_run: "same_work exchange_pool w \<Longrightarrow> mmc_pool_run (sc_ops example_session) pr w = Some w"
  by (simp add: mmc_pool_run_def pending_empty same_work_def exchange_pool_of_def mmc_pool_new_def run_loop.simps reading_def sending_def)

lemma example_session_next:
  assumes "same_work exchange_pool w" and "fq_len skip < length (p_servers w)"
  shows "next_server example_session r skip i w = Some (0, i + 1, w) \<and> 0 \<notin> set (fq_list skip)"
proof -
  have w: "p_servers w = [0]" "p_hash_state w = p_hash_state exchange_pool" using assms(1) by (simp_all add: same_work_def exchange_pool_of_def)
  have "find_server (sc_env example_session) key w = Some (0, w)" for key
    by (simp add: find_server_def w(2) exchange_pool_of_def mmc_standard_find_server_def mmc_standard_slot_def read_cell_def)
  then show ?thesis using assms(2) w(1) by (simp add: next_server_def mmc_pool_find_next.simps [of _ _ "Some skip"])
qed

lemma example_session_works: "session_works (same_work exchange_pool) example_session"
  unfolding session_works_def using example_session_run example_session_next
  by (auto simp: example_session_def intro: same_work_trans)

lemma example_session_read: "\<exists>st w'. session_read example_session [97] exchange_pool = Some (True, [100], st, w')"
proof -
  let ?st = "\<lparr>rs_skip = fq_zero, rs_index = 0, rs_timeout = 5000, rs_remaining = sint (sc_lock_timeout example_session * 2000000)\<rparr>"
  have "length (session_prefix example_session) \<le> MMC_MAX_KEY_LEN" "length (session_prefix example_session) + length [97 :: u8] \<le> 245"
    by (simp_all add: session_prefix_def example_session_def)
  from read_requests_returns [OF this, of "set_null exchange_pool"] obtain l a d w1 where
    r: "read_requests example_session [97] (set_null exchange_pool) = Some (Some (l, a, d), w1)" "same_work (set_null exchange_pool) w1" by auto
  have same: "same_work exchange_pool w1" by (rule same_work_trans [OF _ r(2)]) simp
  have n: "next_server example_session d fq_zero 0 w1 = Some (0, 1, w1)"
    using example_session_next [OF same, of fq_zero d 0] same by (simp add: same_work_def exchange_pool_of_def)
  have "st_status (m_tcp (p_mmc w1 0)) = MMC_STATUS_CONNECTED" using same by (simp add: same_work_def exchange_pool_of_def mmc_pool_new_def)
  then obtain w3 where s: "schedule_on example_session 0 [l, a, d] w1 = Some (True, w3)" "same_work w1 w3"
    "c_flags (p_user w3) = Val (IS_LONG 1)" "c_return (p_user w3) = Val (IS_STRING [100])"
    by (auto simp: schedule_on_def connected_valid example_session_def upd_call_def)
  have u: "mmc_pool_run (sc_ops example_session) pr w3 = Some w3" for pr
    by (rule example_session_run [OF same_work_trans [OF same s(2)]])
  have "read_turn_session example_session [97] ?st exchange_pool = Some (Some (True, [100]), ?st, w3)"
    using r(1) n s(1) by (simp add: read_turn_session_def u s(3,4) session_locked_def)
  then show ?thesis unfolding session_read_def by (subst read_loop_session.simps) simp
qed




end
