(* ===== verification/Mmc_Session_Lock.thy ===== *)
theory Mmc_Session_Lock
  imports Mmc_Session
begin

text \<open>
  The lock of a session as several clients use it: the requests that \<^verbatim>\<open>PS_READ\<close> and
  \<^verbatim>\<open>PS_WRITE\<close> send, one after the other in any order of the clients, against a server whose
  answers reach the variables of a client through the handlers of the code.

  The server is a parameter; what is used of it is the documented behaviour of incr, add and
  set, the hypothesis \<open>counts_lock\<close>.
\<close>

subsection \<open>The server\<close>

text \<open>
  What a server does with the key of the lock: the number it holds, an increment that answers
  with the new number or with NOT_FOUND (\<open>None\<close>), an add that tells whether it stored 1, and a set
  to 0.
\<close>

record 's lock_server =
  ls_number :: "'s \<Rightarrow> 64 word option"
  ls_increment :: "'s \<Rightarrow> 64 word option \<times> 's"
  ls_add :: "'s \<Rightarrow> bool \<times> 's"
  ls_reset :: "'s \<Rightarrow> 's"

text \<open>
  An increment answers with the number plus one, modulo 2^64. A missing number is stored as the
  default value 1 by the binary increment and not found by the ascii one. An add stores if there
  is no number, and a set always stores. The number does not expire here.
\<close>

definition counts_lock :: "bool \<Rightarrow> 's lock_server \<Rightarrow> bool" where
  "counts_lock binary srv \<longleftrightarrow>
     (\<forall>s. let new = (case ls_number srv s of Some n \<Rightarrow> Some (n + 1) | None \<Rightarrow> if binary then Some 1 else None) in
        fst (ls_increment srv s) = new \<and> ls_number srv (snd (ls_increment srv s)) = new \<and>
        (fst (ls_add srv s) \<longleftrightarrow> ls_number srv s = None) \<and>
        ls_number srv (snd (ls_add srv s)) = (case ls_number srv s of Some n \<Rightarrow> Some n | None \<Rightarrow> Some 1) \<and>
        ls_number srv (ls_reset srv s) = Some 0)"

lemma counts_lockD:
  assumes "counts_lock binary srv"
  shows "ls_increment srv s = (answer, s') \<Longrightarrow> answer = ls_number srv s'"
    and "ls_increment srv s = (answer, s') \<Longrightarrow>
      ls_number srv s' = (case ls_number srv s of Some n \<Rightarrow> Some (n + 1) | None \<Rightarrow> if binary then Some 1 else None)"
    and "ls_add srv s = (stored, s') \<Longrightarrow> stored \<longleftrightarrow> ls_number srv s = None"
    and "ls_add srv s = (stored, s') \<Longrightarrow> ls_number srv s' = (case ls_number srv s of Some n \<Rightarrow> Some n | None \<Rightarrow> Some 1)"
    and "ls_number srv (ls_reset srv s) = Some 0"
  using assms [unfolded counts_lock_def Let_def, rule_format, of s] by simp_all

subsection \<open>The answers in the variables of a client\<close>

definition increment_result ::
  "zend_arrays \<Rightarrow> buf \<Rightarrow> mmc_t \<Rightarrow> 64 word option \<Rightarrow> ('d, 'o) php_call \<Rightarrow> ('d, 'o) php_call" where
  "increment_result z key mmc answer c =
     (case answer of
        Some n \<Rightarrow> snd (value_handler_lock [] (IS_LONG n) 0 0 c)
      | None \<Rightarrow> snd (snd (mmc_numeric_response_handler z key lockresult False MMC_RESPONSE_NOT_FOUND [] 0 (mmc, c))))"

definition add_result :: "mmc_t \<Rightarrow> bool \<Rightarrow> ('d, 'o) php_call \<Rightarrow> ('d, 'o) php_call" where
  "add_result mmc stored c =
     snd (snd (mmc_stored_handler addresult False (if stored then MMC_OK else MMC_RESPONSE_EXISTS) [] 0 (mmc, c)))"

subsection \<open>The clients\<close>

text \<open>
  A client is outside, has the answer to its increment in its variables, or has found itself
  the holder of the lock. One that is not the holder after both answers is outside again.
\<close>

datatype ('d, 'o) session_phase = Outside | Incremented "('d, 'o) php_call" | Holding

type_synonym ('d, 'o, 's) lock_state = "'s \<times> (nat \<Rightarrow> ('d, 'o) session_phase)"

definition fresh_variables :: "('d, 'o) php_call \<Rightarrow> ('d, 'o) php_call" where
  "fresh_variables c = c\<lparr>c_flags := Val IS_NULL, c_cas := Val IS_NULL, c_return := Val IS_NULL\<rparr>"

definition after_add :: "mmc_t \<Rightarrow> bool \<Rightarrow> ('d, 'o) php_call \<Rightarrow> ('d, 'o) session_phase" where
  "after_add mmc stored c = (if session_locked (add_result mmc stored c) then Holding else Outside)"

inductive lock_step ::
  "'s lock_server \<Rightarrow> zend_arrays \<Rightarrow> buf \<Rightarrow> mmc_t \<Rightarrow> ('d, 'o, 's) lock_state \<Rightarrow> ('d, 'o, 's) lock_state \<Rightarrow> bool"
  for srv z key mmc where
  increment: "ph i = Outside \<Longrightarrow> ls_increment srv s = (answer, s') \<Longrightarrow>
    lock_step srv z key mmc (s, ph) (s', ph(i := Incremented (increment_result z key mmc answer (fresh_variables c))))"
| add: "ph i = Incremented c \<Longrightarrow> ls_add srv s = (stored, s') \<Longrightarrow>
    lock_step srv z key mmc (s, ph) (s', ph(i := after_add mmc stored c))"
| release: "ph i = Holding \<Longrightarrow> lock_step srv z key mmc (s, ph) (ls_reset srv s, ph(i := Outside))"

text \<open>Runs of \<open>n\<close> steps; \<open>unlocked\<close> adds the write of a client whose reading has given up.\<close>

inductive lock_run ::
  "bool \<Rightarrow> 's lock_server \<Rightarrow> zend_arrays \<Rightarrow> buf \<Rightarrow> mmc_t \<Rightarrow> nat \<Rightarrow> ('d, 'o, 's) lock_state \<Rightarrow> bool"
  for unlocked srv z key mmc where
  start: "ls_number srv s = None \<or> ls_number srv s = Some 0 \<Longrightarrow> lock_run unlocked srv z key mmc 0 (s, \<lambda>i. Outside)"
| step: "lock_run unlocked srv z key mmc n st \<Longrightarrow> lock_step srv z key mmc st st' \<Longrightarrow>
    lock_run unlocked srv z key mmc (Suc n) st'"
| unlocked_write: "lock_run unlocked srv z key mmc n (s, ph) \<Longrightarrow> unlocked \<Longrightarrow> ph i = Outside \<Longrightarrow>
    lock_run unlocked srv z key mmc (Suc n) (ls_reset srv s, ph)"

inductive_cases lock_stepE: "lock_step srv z key mmc st st'"

subsection \<open>What the answers leave in the variables\<close>

lemma increment_result:
  shows "c_cas (increment_result z key mmc answer (fresh_variables c)) = Val IS_NULL"
    and "c_flags (increment_result z key mmc answer (fresh_variables c)) =
      (case answer of Some n \<Rightarrow> Val (IS_LONG n) | None \<Rightarrow> Val IS_FALSE)"
  by (auto simp: increment_result_def fresh_variables_def value_handler_lock_def lockresult_def mmc_numeric_response_handler_def
      mmc_consts split: option.splits)

lemma add_result_locked:
  assumes "c_cas c = Val IS_NULL"
  shows "session_locked (add_result mmc stored c) \<longleftrightarrow> c_flags c = Val (IS_LONG 1) \<or> stored"
  using assms by (auto simp: add_result_def mmc_stored_handler_def addresult_def session_locked_def mmc_consts)

subsection \<open>At most one holder\<close>

text \<open>
  A client has the lock as soon as its increment gave 1. While one has it, there is a number
  and it is not 0; every step raises it by at most one.
\<close>

definition has_lock :: "('d, 'o) session_phase \<Rightarrow> bool" where
  "has_lock p \<longleftrightarrow> (case p of Outside \<Rightarrow> False | Incremented c \<Rightarrow> c_flags c = Val (IS_LONG 1) | Holding \<Rightarrow> True)"

lemma has_lock_simps [simp]:
  "\<not> has_lock Outside" "has_lock Holding" "has_lock (Incremented c) \<longleftrightarrow> c_flags c = Val (IS_LONG 1)"
  by (simp_all add: has_lock_def)

lemma has_lock_after_add:
  assumes "c_cas c = Val IS_NULL"
  shows "has_lock (after_add mmc stored c) \<longleftrightarrow> c_flags c = Val (IS_LONG 1) \<or> stored"
    and "after_add mmc stored c \<noteq> Incremented k"
  using add_result_locked [OF assms] by (auto simp: after_add_def)

definition lock_inv :: "nat \<Rightarrow> 64 word option \<Rightarrow> (nat \<Rightarrow> ('d, 'o) session_phase) \<Rightarrow> bool" where
  "lock_inv n lock ph \<longleftrightarrow>
     (\<forall>v. lock = Some v \<longrightarrow> unat v \<le> n) \<and>
     (\<forall>i c. ph i = Incremented c \<longrightarrow> c_cas c = Val IS_NULL) \<and>
     (\<forall>i. has_lock (ph i) \<longrightarrow> lock \<noteq> None \<and> lock \<noteq> Some 0) \<and>
     (\<forall>i j. has_lock (ph i) \<and> has_lock (ph j) \<longrightarrow> i = j)"

lemma next_number:
  fixes v :: "64 word"
  assumes "unat v \<le> n" and "n + 1 < 2 ^ 64"
  shows "unat (v + 1) \<le> Suc n" and "v + 1 \<noteq> 0" and "v + 1 = 1 \<longleftrightarrow> v = 0"
proof -
  have u: "unat (v + 1) = unat v + 1" using assms by (simp add: unat_word_ariths)
  then show "unat (v + 1) \<le> Suc n" using assms(1) by simp
  show "v + 1 \<noteq> 0" using u by (metis One_nat_def add_is_0 nat.distinct(1) unat_0)
  show "v + 1 = 1 \<longleftrightarrow> v = 0" by simp
qed

lemma lock_invD:
  assumes "lock_inv n lock ph"
  shows "\<And>v. lock = Some v \<Longrightarrow> unat v \<le> n" and "\<And>i c. ph i = Incremented c \<Longrightarrow> c_cas c = Val IS_NULL"
    and "\<And>i. has_lock (ph i) \<Longrightarrow> lock \<noteq> None" and "\<And>i. has_lock (ph i) \<Longrightarrow> lock \<noteq> Some 0"
    and "\<And>i j. has_lock (ph i) \<Longrightarrow> has_lock (ph j) \<Longrightarrow> i = j"
  using assms by (auto simp: lock_inv_def simp del: not_None_eq)

lemma lock_invI:
  assumes "\<And>v. lock = Some v \<Longrightarrow> unat v \<le> n" and "\<And>i c. ph i = Incremented c \<Longrightarrow> c_cas c = Val IS_NULL"
    and "\<And>i. has_lock (ph i) \<Longrightarrow> lock \<noteq> None \<and> lock \<noteq> Some 0"
    and "\<And>i j. has_lock (ph i) \<Longrightarrow> has_lock (ph j) \<Longrightarrow> i = j"
  shows "lock_inv n lock ph"
  using assms by (auto simp: lock_inv_def)

text \<open>The phase of one client is replaced by one that has the lock only if it is free or was held before.\<close>

lemma lock_inv_upd:
  assumes inv: "lock_inv n lock ph" and n: "n + 1 < 2 ^ 64"
    and lock': "\<And>v. lock' = Some v \<Longrightarrow> unat v \<le> Suc n"
    and cas: "\<And>c. p = Incremented c \<Longrightarrow> c_cas c = Val IS_NULL"
    and others: "\<And>j. j \<noteq> i \<Longrightarrow> has_lock (ph j) \<Longrightarrow> lock' \<noteq> None \<and> lock' \<noteq> Some 0"
    and mine: "has_lock p \<Longrightarrow> lock' \<noteq> None \<and> lock' \<noteq> Some 0"
    and only: "\<And>j. has_lock p \<Longrightarrow> has_lock (ph j) \<Longrightarrow> j = i"
  shows "lock_inv (Suc n) lock' (ph(i := p))"
proof (rule lock_invI)
  note d = lock_invD [OF inv]
  show "unat v \<le> Suc n" if "lock' = Some v" for v by (rule lock' [OF that])
  show "c_cas c = Val IS_NULL" if "(ph(i := p)) j = Incremented c" for j c
    using that cas d(2) by (cases "j = i") auto
  show "lock' \<noteq> None \<and> lock' \<noteq> Some 0" if "has_lock ((ph(i := p)) j)" for j
    using that others [of j] mine by (cases "j = i") auto
  show "j = k" if "has_lock ((ph(i := p)) j)" "has_lock ((ph(i := p)) k)" for j k
    using that only d(5) by (metis fun_upd_apply)
qed

lemma lock_inv_increment:
  assumes "counts_lock binary srv" and inv: "lock_inv n (ls_number srv s) ph" and n: "n + 1 < 2 ^ 64"
    and "ls_increment srv s = (answer, s')"
  shows "lock_inv (Suc n) (ls_number srv s') (ph(i := Incremented (increment_result z key mmc answer (fresh_variables c))))"
proof -
  note d = lock_invD [OF inv]
  have new: "answer = ls_number srv s'"
    "ls_number srv s' = (case ls_number srv s of Some n \<Rightarrow> Some (n + 1) | None \<Rightarrow> if binary then Some 1 else None)"
    by (rule counts_lockD(1,2) [OF assms(1,4)])+
  let ?c = "increment_result z key mmc answer (fresh_variables c)"
  show ?thesis
  proof (cases "ls_number srv s")
    case None
    then have free: "\<not> has_lock (ph j)" for j using d(3) by blast
    show ?thesis
      by (rule lock_inv_upd [OF inv n]) (use None new free in \<open>auto simp: increment_result split: if_splits\<close>)
  next
    case (Some v)
    note next_n = next_number [OF d(1) [OF Some] n]
    have l: "ls_number srv s' = Some (v + 1)" using new Some by simp
    have free: "v = 0 \<Longrightarrow> \<not> has_lock (ph j)" for j using d(4) Some by blast
    have "has_lock (Incremented ?c) \<longleftrightarrow> v = 0" using new(1) l next_n(3) by (simp add: increment_result)
    then show ?thesis
      using l next_n(1,2) free by (intro lock_inv_upd [OF inv n]) (auto simp: increment_result)
  qed
qed

lemma lock_inv_add:
  assumes "counts_lock binary srv" and inv: "lock_inv n (ls_number srv s) ph" and n: "n + 1 < 2 ^ 64"
    and "ph i = Incremented c" and "ls_add srv s = (stored, s')"
  shows "lock_inv (Suc n) (ls_number srv s') (ph(i := after_add mmc stored c))"
proof -
  note d = lock_invD [OF inv]
  have new: "stored \<longleftrightarrow> ls_number srv s = None" "ls_number srv s' = (case ls_number srv s of Some n \<Rightarrow> Some n | None \<Rightarrow> Some 1)"
    by (rule counts_lockD(3,4) [OF assms(1,5)])+
  note a = has_lock_after_add [OF d(2) [OF assms(4)], of mmc stored]
  show ?thesis
  proof (cases "ls_number srv s")
    case None
    then have free: "\<not> has_lock (ph j)" for j using d(3) by blast
    show ?thesis using None new a free by (intro lock_inv_upd [OF inv n]) auto
  next
    case (Some v)
    have same: "has_lock (after_add mmc stored c) \<longleftrightarrow> has_lock (ph i)" using a(1) new(1) Some assms(4) by simp
    have bound: "unat v \<le> Suc n" and v: "\<And>j. has_lock (ph j) \<Longrightarrow> v \<noteq> 0" using d(1) [OF Some] d(4) Some by auto
    show ?thesis
      by (rule lock_inv_upd [OF inv n]) (use Some new(2) a(2) same bound v d(5) in auto)
  qed
qed

lemma lock_inv_release:
  assumes "counts_lock binary srv" and inv: "lock_inv n (ls_number srv s) ph" and n: "n + 1 < 2 ^ 64" and "ph i = Holding"
  shows "lock_inv (Suc n) (ls_number srv (ls_reset srv s)) (ph(i := Outside))"
proof -
  have "ls_number srv (ls_reset srv s) = Some 0" by (rule counts_lockD(5) [OF assms(1)])
  moreover have "\<not> has_lock (ph j)" if "j \<noteq> i" for j using lock_invD(5) [OF inv, of j i] assms(4) that by auto
  ultimately show ?thesis by (intro lock_inv_upd [OF inv n]) auto
qed

lemma lock_inv_step:
  assumes "lock_step srv z key mmc (s, ph) (s', ph')" and "counts_lock binary srv"
    and "lock_inv n (ls_number srv s) ph" and "n + 1 < 2 ^ 64"
  shows "lock_inv (Suc n) (ls_number srv s') ph'"
  using assms(1)
  by (rule lock_stepE; (elim Pair_inject)?; clarify)
     (blast intro: lock_inv_increment [OF assms(2-4)] lock_inv_add [OF assms(2-4)] lock_inv_release [OF assms(2-4)])+

lemma lock_run_inv:
  assumes "lock_run unlocked srv z key mmc n st" and "\<not> unlocked" and "n < 2 ^ 64" and "counts_lock binary srv"
  shows "lock_inv n (ls_number srv (fst st)) (snd st)"
  using assms
proof (induction rule: lock_run.induct)
  case (start s)
  then show ?case by (auto simp: lock_inv_def)
next
  case (step n st st')
  then show ?case using lock_inv_step [of srv z key mmc "fst st" "snd st" "fst st'" "snd st'" binary n] by simp
next
  case (unlocked_write n s ph i)
  then show ?case by simp
qed


subsection \<open>Runs of the clients\<close>

text \<open>A client that comes alone to a server with the number 0 gets the lock.\<close>

lemma run_takes_lock:
  fixes ph :: "nat \<Rightarrow> ('d, 'o) session_phase"
  assumes run: "lock_run unlocked srv z key mmc n (s, ph)" and "ph i = Outside"
    and "counts_lock binary srv" and "ls_number srv s = Some 0"
  shows "\<exists>s'. lock_run unlocked srv z key mmc (Suc (Suc n)) (s', ph(i := Holding))"
proof -
  fix c :: "('d, 'o) php_call"
  obtain answer s1 where e1: "ls_increment srv s = (answer, s1)" by (rule prod.exhaust)
  obtain stored s2 where e2: "ls_add srv s1 = (stored, s2)" by (rule prod.exhaust)
  have one: "answer = Some 1" using counts_lockD(1,2) [OF assms(3) e1] assms(4) by simp
  let ?c = "increment_result z key mmc answer (fresh_variables c)"
  have s1: "lock_step srv z key mmc (s, ph) (s1, ph(i := Incremented ?c))"
    by (rule lock_step.increment [where ph = ph, OF assms(2) e1])
  have s2: "lock_step srv z key mmc (s1, ph(i := Incremented ?c)) (s2, (ph(i := Incremented ?c))(i := after_add mmc stored ?c))"
    by (rule lock_step.add [where ph = "ph(i := Incremented ?c)", OF _ e2]) simp
  have "after_add mmc stored ?c = Holding"
    using add_result_locked [of ?c] one by (simp add: after_add_def increment_result)
  then show ?thesis using lock_run.step [OF lock_run.step [OF run s1] s2] by auto
qed

text \<open>A server that has nothing but the number.\<close>

definition number_server :: "bool \<Rightarrow> 64 word option lock_server" where
  "number_server binary = \<lparr>ls_number = id,
     ls_increment = (\<lambda>s. let new = (case s of Some n \<Rightarrow> Some (n + 1) | None \<Rightarrow> if binary then Some 1 else None) in (new, new)),
     ls_add = (\<lambda>s. case s of Some n \<Rightarrow> (False, Some n) | None \<Rightarrow> (True, Some 1)), ls_reset = (\<lambda>s. Some 0)\<rparr>"

lemma number_server_counts: "counts_lock binary (number_server binary)"
  by (auto simp: counts_lock_def number_server_def Let_def split: option.splits)

lemma run_alone:
  "\<exists>s. lock_run unlocked (number_server binary) z key mmc (Suc (Suc 0)) (s, (\<lambda>i. Outside)(0 := Holding))"
  by (rule run_takes_lock [OF lock_run.start [of _ "Some 0"] _ number_server_counts]) (simp_all add: number_server_def)




end
