(* ===== verification/Mmc_Lifetime.thy ===== *)
theory Mmc_Lifetime
  imports Mmc_Servers
begin

text \<open>
  What is given back and when: \<^verbatim>\<open>mmc_server_free\<close>, \<^verbatim>\<open>mmc_pool_free\<close>, \<^verbatim>\<open>mmc_pool_close\<close>, \<^verbatim>\<open>mmc_request_free\<close> and
  \<^verbatim>\<open>free_state\<close> of \<^verbatim>\<open>src/memcache_pool.c\<close>, the protocols and the hash strategies, the destructors of \<^verbatim>\<open>src/memcache.c\<close>
  and \<^verbatim>\<open>PS_CLOSE\<close>; and the userspace failure callback, whose object the pool refers to.

  A memory says which servers and requests are allocated, which streams are open and how many
  blocks the hash state has. To free what is not allocated, to close what is not open and to
  read a server that was freed are faults, \<open>None\<close>.
\<close>

subsection \<open>Giving back\<close>

record memory =
  live_servers :: "nat set"
  live_requests :: "nat set"
  open_streams :: "nat set"
  state_blocks :: nat

text \<open>\<^verbatim>\<open>_mmc_server_disconnect\<close>: the stream of a persistent server is closed only if the flag says so.\<close>

definition close_stream :: "bool \<Rightarrow> bool \<Rightarrow> nat option \<Rightarrow> memory \<Rightarrow> memory option" where
  "close_stream close_persistent persistent stream mem =
     (case stream of
        None \<Rightarrow> Some mem
      | Some s \<Rightarrow>
          if persistent \<and> \<not> close_persistent then Some mem
          else if s \<in> open_streams mem then Some (mem\<lparr>open_streams := open_streams mem - {s}\<rparr>)
          else None)"

definition server_disconnect ::
  "bool \<Rightarrow> bool \<Rightarrow> nat \<Rightarrow> ('d, 'o, 'u, 'p) mmc_pool_t \<times> memory \<Rightarrow> (('d, 'o, 'u, 'p) mmc_pool_t \<times> memory) option" where
  "server_disconnect close_persistent udp m s =
     (case s of (w, mem) \<Rightarrow>
        if m \<notin> live_servers mem then None
        else map_option (\<lambda>mem. (upd_mmc m (mmc_server_disconnect udp) w, mem))
               (close_stream close_persistent (m_persistent (p_mmc w m)) (st_stream (stream_of udp (p_mmc w m))) mem))"

definition mmc_server_free ::
  "nat \<Rightarrow> ('d, 'o, 'u, 'p) mmc_pool_t \<times> memory \<Rightarrow> (('d, 'o, 'u, 'p) mmc_pool_t \<times> memory) option" where
  "mmc_server_free m s =
     (case s of (w, mem) \<Rightarrow>
        if m \<notin> live_servers mem then None
        else do {
          s \<leftarrow> server_disconnect False False m (upd_mmc m mmc_server_sleep w, mem);
          (w, mem) \<leftarrow> server_disconnect False True m s;
          Some (w, mem\<lparr>live_servers := live_servers mem - {m}\<rparr>)
        })"

text \<open>The loop over \<^verbatim>\<open>pool->servers\<close>, the same in \<^verbatim>\<open>mmc_pool_free\<close> and \<^verbatim>\<open>mmc_pool_close\<close>.\<close>

fun free_servers ::
  "nat list \<Rightarrow> ('d, 'o, 'u, 'p) mmc_pool_t \<times> memory \<Rightarrow> (('d, 'o, 'u, 'p) mmc_pool_t \<times> memory) option" where
  "free_servers [] s = Some s"
| "free_servers (m # ms) (w, mem) =
     (if m \<notin> live_servers mem then None
      else do {
        s \<leftarrow> (if m_persistent (p_mmc w m) then Some (upd_mmc m mmc_server_sleep w, mem) else mmc_server_free m (w, mem));
        free_servers ms s
      })"

text \<open>
  \<^verbatim>\<open>mmc_standard_free_state\<close> and \<^verbatim>\<open>mmc_consistent_free_state\<close>: the state is one block, its table
  (\<^verbatim>\<open>buckets\<close>, \<^verbatim>\<open>points\<close>), which exists once a server was added, another.
\<close>

definition mmc_standard_free_state :: "nat mmc_standard_state_t \<Rightarrow> nat" where
  "mmc_standard_free_state st = (if ss_num_servers st \<noteq> 0 then 1 else 0) + 1"

definition mmc_consistent_free_state :: "nat mmc_consistent_state_t \<Rightarrow> nat" where
  "mmc_consistent_free_state st = (if cs_num_servers st \<noteq> 0 then 1 else 0) + 1"

definition hash_blocks :: "hash_state \<Rightarrow> nat" where
  "hash_blocks hs = (case hs of StandardState st \<Rightarrow> mmc_standard_free_state st | ConsistentState st \<Rightarrow> mmc_consistent_free_state st)"

definition free_state :: "hash_state \<Rightarrow> memory \<Rightarrow> memory option" where
  "free_state hs mem =
     (if hash_blocks hs \<le> state_blocks mem then Some (mem\<lparr>state_blocks := state_blocks mem - hash_blocks hs\<rparr>) else None)"

text \<open>\<^verbatim>\<open>mmc_request_free\<close>, to which the functions of both protocols come down, and the loop over the free list.\<close>

definition mmc_request_free :: "nat \<Rightarrow> memory \<Rightarrow> memory option" where
  "mmc_request_free r mem =
     (if r \<in> live_requests mem then Some (mem\<lparr>live_requests := live_requests mem - {r}\<rparr>) else None)"

fun free_requests :: "nat list \<Rightarrow> memory \<Rightarrow> memory option" where
  "free_requests [] mem = Some mem"
| "free_requests (r # rs) mem = Option.bind (mmc_request_free r mem) (free_requests rs)"

text \<open>After \<^verbatim>\<open>mmc_pool_free\<close> the pool is gone; the servers and the memory remain.\<close>

definition mmc_pool_free :: "('d, 'o, 'u, 'p) mmc_pool_t \<Rightarrow> memory \<Rightarrow> ((nat \<Rightarrow> mmc_t) \<times> memory) option" where
  "mmc_pool_free w mem =
     do {
       (w, mem) \<leftarrow> free_servers (p_servers w) (w, mem);
       mem \<leftarrow> free_state (p_hash_state w) mem;
       mem \<leftarrow> free_requests (fq_list (p_free_requests w)) mem;
       Some (p_mmc w, mem)
     }"

definition close_pool ::
  "pool_settings \<Rightarrow> ('d, 'o, 'u, 'p) mmc_pool_t \<Rightarrow> memory \<Rightarrow> (('d, 'o, 'u, 'p) mmc_pool_t \<times> memory) option" where
  "close_pool gs w mem =
     (if p_servers w = [] then Some (w, mem)
      else do {
        (w, mem) \<leftarrow> free_servers (p_servers w) (w, mem);
        mem \<leftarrow> free_state (p_hash_state w) mem;
        Some (w\<lparr>p_servers := [], p_hash_state := mmc_pool_init_hash gs\<rparr>, mem\<lparr>state_blocks := state_blocks mem + 1\<rparr>)
      })"

text \<open>\<^verbatim>\<open>PS_CLOSE\<close> frees the pool of the session, if there is one.\<close>

definition session_close ::
  "('d, 'o, 'u, 'p) mmc_pool_t option \<Rightarrow> (nat \<Rightarrow> mmc_t) \<Rightarrow> memory \<Rightarrow> ((nat \<Rightarrow> mmc_t) \<times> memory) option" where
  "session_close pool servers mem = (case pool of None \<Rightarrow> Some (servers, mem) | Some w \<Rightarrow> mmc_pool_free w mem)"

text \<open>\<^verbatim>\<open>_mmc_server_list_dtor\<close>, for every entry of the list of persistent servers when the process ends.\<close>

definition server_list_dtor ::
  "nat \<Rightarrow> ('d, 'o, 'u, 'p) mmc_pool_t \<times> memory \<Rightarrow> (('d, 'o, 'u, 'p) mmc_pool_t \<times> memory) option" where
  "server_list_dtor m s = mmc_server_free m s"

fun shutdown ::
  "nat list \<Rightarrow> ('d, 'o, 'u, 'p) mmc_pool_t \<times> memory \<Rightarrow> (('d, 'o, 'u, 'p) mmc_pool_t \<times> memory) option" where
  "shutdown [] s = Some s"
| "shutdown (m # ms) s = Option.bind (server_list_dtor m s) (shutdown ms)"

subsection \<open>What the memory holds\<close>

definition stream :: "('d, 'o, 'u, 'p) mmc_pool_t \<Rightarrow> nat \<Rightarrow> bool \<Rightarrow> nat option" where
  "stream w m udp = st_stream (stream_of udp (p_mmc w m))"

definition held :: "('d, 'o, 'u, 'p) mmc_pool_t \<Rightarrow> nat set \<Rightarrow> nat set" where
  "held w M = {s. \<exists>m \<in> M. \<exists>udp. stream w m udp = Some s}"

text \<open>The open streams are those of the allocated servers, each of one of them.\<close>

definition memory_ok :: "('d, 'o, 'u, 'p) mmc_pool_t \<Rightarrow> memory \<Rightarrow> bool" where
  "memory_ok w mem \<longleftrightarrow> open_streams mem = held w (live_servers mem) \<and>
     (\<forall>m \<in> live_servers mem. \<forall>m' \<in> live_servers mem. \<forall>udp udp' s.
        stream w m udp = Some s \<and> stream w m' udp' = Some s \<longrightarrow> m = m' \<and> udp = udp')"

lemma stream_upd: "stream (upd_mmc m f w) m' udp = (if m' = m then st_stream (stream_of udp (f (p_mmc w m))) else stream w m' udp)"
  by (simp add: stream_def upd_mmc_def)

lemma stream_simps [simp]:
  "st_stream (stream_of u (mmc_server_sleep mmc)) = st_stream (stream_of u mmc)"
  "st_stream (stream_of u (mmc_server_disconnect udp mmc)) = (if u = udp then None else st_stream (stream_of u mmc))"
  "m_persistent (mmc_server_sleep mmc) = m_persistent mmc"
  "m_persistent (mmc_server_disconnect udp mmc) = m_persistent mmc"
  by (auto simp: stream_of_def mmc_server_sleep_def map_stream_def free_buffer_def mmc_server_disconnect_def disconnect_stream_def Let_def)

lemma stream_sleep [simp]: "stream (upd_mmc m mmc_server_sleep w) = stream w"
  by (intro ext) (simp add: stream_upd stream_def)

lemma memory_ok_cong: "stream w' = stream w \<Longrightarrow> memory_ok w' mem = memory_ok w mem"
  by (simp add: memory_ok_def held_def)

lemma server_disconnect_ok:
  assumes "memory_ok w mem" and "m \<in> live_servers mem" and "m_persistent (p_mmc w m) \<longrightarrow> close_persistent"
  obtains mem' where "server_disconnect close_persistent udp m (w, mem) = Some (upd_mmc m (mmc_server_disconnect udp) w, mem')"
    and "memory_ok (upd_mmc m (mmc_server_disconnect udp) w) mem'" and "live_servers mem' = live_servers mem"
    and "live_requests mem' = live_requests mem" and "state_blocks mem' = state_blocks mem"
proof -
  let ?w = "upd_mmc m (mmc_server_disconnect udp) w"
  have s: "stream ?w m' u = (if m' = m \<and> u = udp then None else stream w m' u)" for m' u by (simp add: stream_upd stream_def)
  have ok: "open_streams mem = held w (live_servers mem)" "\<And>m m' udp udp' s. m \<in> live_servers mem \<Longrightarrow> m' \<in> live_servers mem \<Longrightarrow>
      stream w m udp = Some s \<Longrightarrow> stream w m' udp' = Some s \<Longrightarrow> m = m' \<and> udp = udp'"
    using assms(1) unfolding memory_ok_def by blast+
  have "held ?w (live_servers mem) = held w (live_servers mem) - set_option (stream w m udp)"
  proof (intro set_eqI iffI)
    fix x assume "x \<in> held ?w (live_servers mem)"
    then obtain m' u where "m' \<in> live_servers mem" "\<not> (m' = m \<and> u = udp)" "stream w m' u = Some x"
      by (auto simp: held_def s split: if_splits)
    then show "x \<in> held w (live_servers mem) - set_option (stream w m udp)"
      using ok(2) [OF _ assms(2), of m' u x udp] by (auto simp: held_def)
  next
    fix x assume "x \<in> held w (live_servers mem) - set_option (stream w m udp)"
    then obtain m' u where "m' \<in> live_servers mem" "stream w m' u = Some x" "stream w m udp \<noteq> Some x"
      by (auto simp: held_def)
    moreover from this have "\<not> (m' = m \<and> u = udp)" by blast
    ultimately have "m' \<in> live_servers mem" "stream ?w m' u = Some x" unfolding s by simp_all
    then show "x \<in> held ?w (live_servers mem)" by (auto simp: held_def)
  qed
  then have "close_stream close_persistent (m_persistent (p_mmc w m)) (stream w m udp) mem =
      Some (mem\<lparr>open_streams := held ?w (live_servers mem)\<rparr>)"
    using assms(2,3) ok(1) by (cases "stream w m udp") (auto simp: close_stream_def held_def)
  moreover have "memory_ok ?w (mem\<lparr>open_streams := held ?w (live_servers mem)\<rparr>)"
    using ok(2) by (simp add: memory_ok_def s) metis
  ultimately show ?thesis using assms(2) that [of "mem\<lparr>open_streams := held ?w (live_servers mem)\<rparr>"]
    by (simp add: server_disconnect_def stream_def)
qed

lemma memory_ok_without:
  assumes "memory_ok w mem" and "\<And>udp. stream w m udp = None"
  shows "memory_ok w (mem\<lparr>live_servers := live_servers mem - {m}\<rparr>)"
proof -
  have "held w (live_servers mem - {m}) = held w (live_servers mem)" using assms(2) by (fastforce simp: held_def)
  then show ?thesis using assms(1) unfolding memory_ok_def by simp blast
qed

lemma server_free_ok:
  assumes "memory_ok w mem" and "m \<in> live_servers mem" and "\<not> m_persistent (p_mmc w m)"
  shows "\<exists>w' mem'. mmc_server_free m (w, mem) = Some (w', mem') \<and> memory_ok w' mem' \<and>
    live_servers mem' = live_servers mem - {m} \<and> live_requests mem' = live_requests mem \<and> state_blocks mem' = state_blocks mem \<and>
    w' = upd_mmc m (\<lambda>_. p_mmc w' m) w"
proof -
  let ?w0 = "upd_mmc m mmc_server_sleep w" let ?w1 = "upd_mmc m (mmc_server_disconnect False) ?w0"
  let ?w2 = "upd_mmc m (mmc_server_disconnect True) ?w1"
  have p: "\<not> m_persistent (p_mmc ?w0 m)" "\<not> m_persistent (p_mmc ?w1 m)" using assms(3) by (simp_all add: upd_mmc_def)
  have ok0: "memory_ok ?w0 mem" using assms(1) by (simp add: memory_ok_cong [OF stream_sleep])
  have p0: "m_persistent (p_mmc ?w0 m) \<longrightarrow> False" and p1: "m_persistent (p_mmc ?w1 m) \<longrightarrow> False" using p by simp_all
  obtain mem1 where
    d1: "server_disconnect False False m (?w0, mem) = Some (?w1, mem1)" "memory_ok ?w1 mem1" "live_servers mem1 = live_servers mem"
      "live_requests mem1 = live_requests mem" "state_blocks mem1 = state_blocks mem"
    by (rule server_disconnect_ok [OF ok0 assms(2) p0])
  have live1: "m \<in> live_servers mem1" using d1(3) assms(2) by simp
  obtain mem2 where
    d2: "server_disconnect False True m (?w1, mem1) = Some (?w2, mem2)" "memory_ok ?w2 mem2" "live_servers mem2 = live_servers mem1"
      "live_requests mem2 = live_requests mem1" "state_blocks mem2 = state_blocks mem1"
    by (rule server_disconnect_ok [OF d1(2) live1 p1])
  have none: "stream ?w2 m u = None" for u by (simp add: stream_def upd_mmc_def)
  have "memory_ok ?w2 (mem2\<lparr>live_servers := live_servers mem2 - {m}\<rparr>)" by (rule memory_ok_without [OF d2(2) none])
  moreover have "mmc_server_free m (w, mem) = Some (?w2, mem2\<lparr>live_servers := live_servers mem2 - {m}\<rparr>)"
    using assms(2) d1(1) d2(1) by (simp add: mmc_server_free_def)
  moreover have "?w2 = upd_mmc m (\<lambda>_. p_mmc ?w2 m) w" by (simp add: upd_mmc_def)
  ultimately show ?thesis using d1(3-5) d2(3-5)
    by (intro exI [of _ ?w2] exI [of _ "mem2\<lparr>live_servers := live_servers mem2 - {m}\<rparr>"]) simp
qed

text \<open>The loop over the servers: the persistent ones sleep, each of the others is freed once.\<close>

definition transient :: "('d, 'o, 'u, 'p) mmc_pool_t \<Rightarrow> nat list \<Rightarrow> nat list" where
  "transient w ms = filter (\<lambda>m. \<not> m_persistent (p_mmc w m)) ms"

lemma free_servers_ok:
  assumes "memory_ok w mem" and "set ms \<subseteq> live_servers mem" and "distinct (transient w ms)"
  obtains t mem' where "free_servers ms (w, mem) = Some (w\<lparr>p_mmc := t\<rparr>, mem')" and "memory_ok (w\<lparr>p_mmc := t\<rparr>) mem'"
    and "live_servers mem' = live_servers mem - set (transient w ms)" and "live_requests mem' = live_requests mem"
    and "state_blocks mem' = state_blocks mem"
    and "\<forall>m. m \<notin> set (transient w ms) \<longrightarrow> t m = (if m \<in> set ms then mmc_server_sleep (p_mmc w m) else p_mmc w m)"
  using assms
proof (induction ms arbitrary: w mem thesis)
  case Nil
  show ?case by (rule Nil.prems(1) [of "p_mmc w" mem]) (use Nil.prems(2) in \<open>simp_all add: transient_def\<close>)
next
  case (Cons m ms)
  have sleep2: "mmc_server_sleep (mmc_server_sleep x) = mmc_server_sleep x" for x
    by (simp add: mmc_server_sleep_def map_stream_def free_buffer_def mmc_buffer_free_def)
  show ?case
  proof (cases "m_persistent (p_mmc w m)")
    case True
    let ?w = "upd_mmc m mmc_server_sleep w"
    have p: "transient ?w ms = transient w ms" unfolding transient_def by (rule filter_cong) (auto simp: upd_mmc_def)
    have ok: "memory_ok ?w mem" using Cons.prems(2) by (simp add: memory_ok_cong [OF stream_sleep])
    have sub: "set ms \<subseteq> live_servers mem" using Cons.prems(3) by simp
    have dist: "distinct (transient ?w ms)" unfolding p using Cons.prems(4) True by (simp add: transient_def)
    obtain t mem' where t: "free_servers ms (?w, mem) = Some (?w\<lparr>p_mmc := t\<rparr>, mem')" "memory_ok (?w\<lparr>p_mmc := t\<rparr>) mem'"
      "live_servers mem' = live_servers mem - set (transient w ms)" "live_requests mem' = live_requests mem" "state_blocks mem' = state_blocks mem"
      "\<forall>m. m \<notin> set (transient w ms) \<longrightarrow> t m = (if m \<in> set ms then mmc_server_sleep (p_mmc ?w m) else p_mmc ?w m)"
      by (rule Cons.IH [OF _ ok sub dist, unfolded p])
    have "?w\<lparr>p_mmc := t\<rparr> = w\<lparr>p_mmc := t\<rparr>" by (simp add: upd_mmc_def)
    moreover have "transient w (m # ms) = transient w ms" using True by (simp add: transient_def)
    ultimately show ?thesis using t True Cons.prems(3)
      by (intro Cons.prems(1) [of t mem']) (auto simp: upd_mmc_def sleep2)
  next
    case False
    have live: "m \<in> live_servers mem" using Cons.prems(3) by simp
    from server_free_ok [OF Cons.prems(2) live False] obtain w1 mem1 where
      f: "mmc_server_free m (w, mem) = Some (w1, mem1)" "memory_ok w1 mem1" "live_servers mem1 = live_servers mem - {m}"
        "live_requests mem1 = live_requests mem" "state_blocks mem1 = state_blocks mem" "w1 = upd_mmc m (\<lambda>_. p_mmc w1 m) w" by blast
    have other: "p_mmc w1 m' = p_mmc w m'" if "m' \<noteq> m" for m' using that by (subst f(6)) (simp add: upd_mmc_def)
    have pm: "transient w (m # ms) = m # transient w ms" "m \<notin> set (transient w ms)" using False Cons.prems(4) by (auto simp: transient_def)
    then have notin: "m \<notin> set ms" using False by (auto simp: transient_def)
    have "p_mmc w1 x = p_mmc w x" if "x \<in> set ms" for x using that notin other by metis
    then have p: "transient w1 ms = transient w ms" unfolding transient_def by (intro filter_cong) auto
    have sub: "set ms \<subseteq> live_servers mem1" using Cons.prems(3) f(3) notin by auto
    have dist: "distinct (transient w1 ms)" using Cons.prems(4) p pm by simp
    obtain t mem' where t: "free_servers ms (w1, mem1) = Some (w1\<lparr>p_mmc := t\<rparr>, mem')" "memory_ok (w1\<lparr>p_mmc := t\<rparr>) mem'"
      "live_servers mem' = live_servers mem1 - set (transient w ms)" "live_requests mem' = live_requests mem1" "state_blocks mem' = state_blocks mem1"
      "\<forall>m. m \<notin> set (transient w ms) \<longrightarrow> t m = (if m \<in> set ms then mmc_server_sleep (p_mmc w1 m) else p_mmc w1 m)"
      by (rule Cons.IH [OF _ f(2) sub dist, unfolded p])
    have "w1\<lparr>p_mmc := t\<rparr> = w\<lparr>p_mmc := t\<rparr>" by (subst f(6)) (simp add: upd_mmc_def)
    then show ?thesis using t f(1,3-5) False live pm other by (intro Cons.prems(1) [of t mem']) auto
  qed
qed

lemma free_requests_ok:
  "set rs \<subseteq> live_requests mem \<Longrightarrow> distinct rs \<Longrightarrow> free_requests rs mem = Some (mem\<lparr>live_requests := live_requests mem - set rs\<rparr>)"
proof (induction rs arbitrary: mem)
  case (Cons r rs)
  have "set rs \<subseteq> live_requests (mem\<lparr>live_requests := live_requests mem - {r}\<rparr>)" using Cons.prems by auto
  moreover have "live_requests mem - {r} - set rs = live_requests mem - set (r # rs)" by auto
  ultimately show ?case using Cons.IH [of "mem\<lparr>live_requests := live_requests mem - {r}\<rparr>"] Cons.prems
    by (simp add: mmc_request_free_def)
qed simp

subsection \<open>The life of a pool\<close>

text \<open>
  What the functions of the extension do to the servers, streams and requests of a pool, one at a time:
  a server is added, found among the persistent ones or new; a stream is opened or closed;
  a request is allocated or released; the pool is closed; everything else leaves them alone. The
  allocator gives addresses that are not in use, the operating system streams that are not open.
\<close>

definition listed :: "persistent_list \<Rightarrow> nat set" where
  "listed pl = {m. \<exists>key. pl key = Some (Server_entry m)}"

inductive life ::
  "int \<Rightarrow> pool_settings \<Rightarrow> ('d, 'o, 'p) client_protocol \<Rightarrow> persistent_list \<times> ('d, 'o, 'p) client \<times> memory \<Rightarrow>
   persistent_list \<times> ('d, 'o, 'p) client \<times> memory \<Rightarrow> bool"
  for cs :: int and gs :: pool_settings and pr :: "('d, 'o, 'p) client_protocol"
where
  life_add: "make_server cs addr sa udp_port pl w = (m, pl', w1) \<Longrightarrow> addr \<notin> live_servers mem \<Longrightarrow> mmc_pool_add m weight w1 = Some w' \<Longrightarrow>
    life cs gs pr (pl, w, mem) (pl', w', mem\<lparr>live_servers := insert m (live_servers mem),
      state_blocks := state_blocks mem + (hash_blocks (p_hash_state w') - hash_blocks (p_hash_state w))\<rparr>)"
| life_open: "m \<in> set (p_servers w) \<Longrightarrow> stream w m udp = None \<Longrightarrow> s \<notin> open_streams mem \<Longrightarrow>
    life cs gs pr (pl, w, mem) (pl, upd_mmc m (map_stream udp (connected_stream udp s fd)) w, mem\<lparr>open_streams := insert s (open_streams mem)\<rparr>)"
| life_disconnect: "m \<in> set (p_servers w) \<Longrightarrow> server_disconnect True udp m (w, mem) = Some (w', mem') \<Longrightarrow> life cs gs pr (pl, w, mem) (pl, w', mem')"
| life_alloc: "mmc_pool_request_alloc pr udp failover w = (r, w') \<Longrightarrow>
    life cs gs pr (pl, w, mem) (pl, w', mem\<lparr>live_requests := insert r (live_requests mem)\<rparr>)"
| life_release: "r \<in> live_requests mem \<Longrightarrow> life cs gs pr (pl, w, mem) (pl, mmc_pool_release r w, mem)"
| life_close: "close_pool gs w mem = Some (w', mem') \<Longrightarrow> life cs gs pr (pl, w, mem) (pl, w', mem')"
| life_other: "p_servers w' = p_servers w \<Longrightarrow> stream w' = stream w \<Longrightarrow> (\<And>m. m_persistent (p_mmc w' m) = m_persistent (p_mmc w m)) \<Longrightarrow>
    p_free_requests w' = p_free_requests w \<Longrightarrow> hash_blocks (p_hash_state w') = hash_blocks (p_hash_state w) \<Longrightarrow>
    life cs gs pr (pl, w, mem) (pl, w', mem)"

definition life_inv :: "persistent_list \<times> ('d, 'o, 'p) client \<times> memory \<Rightarrow> bool" where
  "life_inv st \<longleftrightarrow>
     (case st of (pl, w, mem) \<Rightarrow>
        live_servers mem = set (p_servers w) \<union> listed pl \<and> memory_ok w mem \<and>
        (\<forall>m \<in> listed pl. m_persistent (p_mmc w m)) \<and>
        (\<forall>m \<in> set (p_servers w). m_persistent (p_mmc w m) \<longrightarrow> m \<in> listed pl) \<and>
        distinct (transient w (p_servers w)) \<and>
        set (fq_list (p_free_requests w)) \<subseteq> live_requests mem \<and>
        state_blocks mem = hash_blocks (p_hash_state w))"

lemma life_invI:
  assumes "live_servers mem = set (p_servers w) \<union> listed pl" and "memory_ok w mem"
    and "\<And>m. m \<in> listed pl \<Longrightarrow> m_persistent (p_mmc w m)"
    and "\<And>m. m \<in> set (p_servers w) \<Longrightarrow> m_persistent (p_mmc w m) \<Longrightarrow> m \<in> listed pl"
    and "distinct (transient w (p_servers w))" and "set (fq_list (p_free_requests w)) \<subseteq> live_requests mem"
    and "state_blocks mem = hash_blocks (p_hash_state w)"
  shows "life_inv (pl, w, mem)"
  using assms by (simp add: life_inv_def)

lemma life_invD:
  assumes "life_inv (pl, w, mem)"
  shows "live_servers mem = set (p_servers w) \<union> listed pl" and "memory_ok w mem"
    and "\<And>m. m \<in> listed pl \<Longrightarrow> m_persistent (p_mmc w m)"
    and "\<And>m. m \<in> set (p_servers w) \<Longrightarrow> m_persistent (p_mmc w m) \<Longrightarrow> m \<in> listed pl"
    and "distinct (transient w (p_servers w))" and "set (fq_list (p_free_requests w)) \<subseteq> live_requests mem"
    and "state_blocks mem = hash_blocks (p_hash_state w)"
  using assms by (simp_all add: life_inv_def)

lemma memory_okD:
  assumes "memory_ok w mem"
  shows "open_streams mem = held w (live_servers mem)"
    and "m \<in> live_servers mem \<Longrightarrow> m' \<in> live_servers mem \<Longrightarrow> stream w m udp = Some s \<Longrightarrow> stream w m' udp' = Some s \<Longrightarrow> m = m' \<and> udp = udp'"
  using assms unfolding memory_ok_def by blast+

lemma memory_okI:
  assumes "open_streams mem = held w (live_servers mem)"
    and "\<And>m m' udp udp' s. m \<in> live_servers mem \<Longrightarrow> m' \<in> live_servers mem \<Longrightarrow> stream w m udp = Some s \<Longrightarrow> stream w m' udp' = Some s \<Longrightarrow>
      m = m' \<and> udp = udp'"
  shows "memory_ok w mem"
  using assms unfolding memory_ok_def by blast

lemma memory_ok_insert:
  assumes "memory_ok w mem" and "\<And>m'. m' \<in> live_servers mem \<Longrightarrow> stream w' m' = stream w m'"
    and "m \<notin> live_servers mem \<Longrightarrow> stream w' m = (\<lambda>udp. None)"
  shows "memory_ok w' (mem\<lparr>live_servers := insert m (live_servers mem), state_blocks := b\<rparr>)"
proof (rule memory_okI)
  have "held w' (insert m (live_servers mem)) = held w (live_servers mem)"
    using assms(2,3) by (cases "m \<in> live_servers mem") (auto simp: held_def insert_absorb)
  then show "open_streams (mem\<lparr>live_servers := insert m (live_servers mem), state_blocks := b\<rparr>) =
      held w' (live_servers (mem\<lparr>live_servers := insert m (live_servers mem), state_blocks := b\<rparr>))"
    using memory_okD(1) [OF assms(1)] by simp
next
  fix m1 m2 udp udp' s
  assume "m1 \<in> live_servers (mem\<lparr>live_servers := insert m (live_servers mem), state_blocks := b\<rparr>)"
    "m2 \<in> live_servers (mem\<lparr>live_servers := insert m (live_servers mem), state_blocks := b\<rparr>)"
    and s: "stream w' m1 udp = Some s" "stream w' m2 udp' = Some s"
  moreover have "x \<in> live_servers mem" if "x \<in> insert m (live_servers mem)" "stream w' x u = Some s" for x u
    using that assms(3) by (cases "m \<in> live_servers mem") auto
  ultimately have "m1 \<in> live_servers mem" "m2 \<in> live_servers mem" by simp_all
  then show "m1 = m2 \<and> udp = udp'" using memory_okD(2) [OF assms(1)] assms(2) s by metis
qed

lemma memory_ok_open:
  assumes "memory_ok w mem" and "m \<in> live_servers mem" and "stream w m udp = None" and "s \<notin> open_streams mem"
    and st: "\<And>m' u. stream w' m' u = (if m' = m \<and> u = udp then Some s else stream w m' u)"
  shows "memory_ok w' (mem\<lparr>open_streams := insert s (open_streams mem)\<rparr>)"
proof (rule memory_okI)
  have new: "stream w m' u \<noteq> Some s" if "m' \<in> live_servers mem" for m' u
    using that assms(4) memory_okD(1) [OF assms(1)] by (auto simp: held_def)
  show "open_streams (mem\<lparr>open_streams := insert s (open_streams mem)\<rparr>) = held w' (live_servers (mem\<lparr>open_streams := insert s (open_streams mem)\<rparr>))"
    unfolding memory_okD(1) [OF assms(1)]
  proof (intro set_eqI iffI)
    fix x assume "x \<in> open_streams (mem\<lparr>open_streams := insert s (held w (live_servers mem))\<rparr>)"
    then consider "x = s" | m' u where "m' \<in> live_servers mem" "stream w m' u = Some x" by (auto simp: held_def)
    then show "x \<in> held w' (live_servers (mem\<lparr>open_streams := insert s (held w (live_servers mem))\<rparr>))"
    proof cases
      case 1
      have "stream w' m udp = Some s" by (simp add: st)
      then show ?thesis using 1 assms(2) unfolding held_def by auto
    next
      case 2
      then have "stream w' m' u = Some x" using assms(3) unfolding st by auto
      then show ?thesis using 2 unfolding held_def by auto
    qed
  next
    fix x assume "x \<in> held w' (live_servers (mem\<lparr>open_streams := insert s (held w (live_servers mem))\<rparr>))"
    then show "x \<in> open_streams (mem\<lparr>open_streams := insert s (held w (live_servers mem))\<rparr>)"
      unfolding held_def st by (auto split: if_splits)
  qed
  fix m1 m2 u u' x
  assume l: "m1 \<in> live_servers (mem\<lparr>open_streams := insert s (open_streams mem)\<rparr>)" "m2 \<in> live_servers (mem\<lparr>open_streams := insert s (open_streams mem)\<rparr>)"
    and x: "stream w' m1 u = Some x" "stream w' m2 u' = Some x"
  have "m1 = m \<and> u = udp \<longleftrightarrow> x = s" "m2 = m \<and> u' = udp \<longleftrightarrow> x = s"
    using x l new by (auto simp: st split: if_splits)
  then show "m1 = m2 \<and> u = u'" using x l memory_okD(2) [OF assms(1), of m1 m2 u x u'] by (cases "x = s") (auto simp: st)
qed

lemma listed_upd:
  assumes "\<And>a. pl k \<noteq> Some (Server_entry a)"
  shows "listed (pl(k \<mapsto> Server_entry addr)) = insert addr (listed pl)"
proof (intro set_eqI iffI)
  fix x assume "x \<in> insert addr (listed pl)"
  then consider "x = addr" | key where "pl key = Some (Server_entry x)" by (auto simp: listed_def)
  then show "x \<in> listed (pl(k \<mapsto> Server_entry addr))"
  proof cases
    case 2
    then have "(pl(k \<mapsto> Server_entry addr)) key = Some (Server_entry x)" using assms [of x] by (cases "key = k") simp_all
    then show ?thesis by (auto simp only: listed_def)
  qed (auto simp: listed_def)
qed (auto simp: listed_def split: if_splits)

lemma make_server_cases:
  assumes "make_server cs addr sa udp_port pl w = (m, pl', w1)"
  obtains (found) "m \<in> listed pl" and "pl' = pl" and "stream w1 = stream w" and "\<And>m'. m_persistent (p_mmc w1 m') = m_persistent (p_mmc w m')"
    | (new) "m = addr" and "listed pl' = (if m_persistent (p_mmc w1 m) then insert m (listed pl) else listed pl)"
      and "stream w1 m = (\<lambda>udp. None)" and "\<And>m'. m' \<noteq> m \<Longrightarrow> p_mmc w1 m' = p_mmc w m'"
proof (cases "sa_persistent sa \<and> sa_status sa")
  case True
  then have f: "mmc_find_persistent cs addr (sa_host sa) (length (sa_host sa)) (unsigned_short (sa_tcp_port sa)) (unsigned_short udp_port)
      (sa_timeout sa) (sa_retry_interval sa) pl w = (m, pl', w1)"
    using assms by (auto simp: make_server_def split: prod.splits)
  let ?key = "persistent_key (sa_host sa) (unsigned_short (sa_tcp_port sa)) (unsigned_short udp_port)"
  from find_persistent_cases [OF f] show ?thesis
  proof (elim disjE conjE)
    assume "pl ?key = Some (Server_entry m)" "pl' = pl" and w: "w1 = upd_mmc m (reuse_server (sa_timeout sa) (sa_retry_interval sa)) w"
    moreover have "stream w1 = stream w"
      by (intro ext) (simp add: w stream_upd stream_def stream_of_def reuse_server_def unknown_status_def)
    moreover have "m_persistent (p_mmc w1 m') = m_persistent (p_mmc w m')" for m' by (simp add: w upd_mmc_def reuse_server_def)
    ultimately show ?thesis by (intro found) (auto simp: listed_def)
  next
    assume none: "\<forall>a. pl ?key \<noteq> Some (Server_entry a)" and m: "m = addr" and pl: "pl' = pl(?key \<mapsto> Server_entry addr)"
      and w: "w1 = upd_mmc addr (\<lambda>_. mmc_server_new cs (sa_host sa) (unsigned_short (sa_tcp_port sa)) (unsigned_short udp_port) True
        (sa_timeout sa) (sa_retry_interval sa)) w"
    have "listed pl' = insert addr (listed pl)" unfolding pl by (rule listed_upd) (use none in blast)
    then show ?thesis
      using m w by (intro new) (simp_all add: fun_eq_iff stream_def upd_mmc_def mmc_server_new_def stream_of_def zero_stream_def)
  qed
next
  case False
  then have "m = addr \<and> pl' = pl \<and> \<not> m_persistent (p_mmc w1 m) \<and> (\<forall>m'. m' \<noteq> m \<longrightarrow> p_mmc w1 m' = p_mmc w m') \<and> (\<forall>u. stream w1 m u = None)"
    using assms by (auto simp: make_server_def Let_def stream_def upd_mmc_def mmc_server_new_def stream_of_def zero_stream_def failed_mode_def
        split: if_splits)
  then show ?thesis by (intro new) (auto intro: ext)
qed

lemma make_server_requests:
  assumes "make_server cs addr sa udp_port pl w = (m, pl', w1)"
  shows "p_servers w1 = p_servers w" and "p_free_requests w1 = p_free_requests w" and "p_hash_state w1 = p_hash_state w"
  using assms by (auto simp: make_server_def mmc_find_persistent_def upd_mmc_def Let_def split: if_splits option.splits persistent_entry.splits)

lemma hash_add_blocks:
  assumes "hash_add_server m mmc weight hs = Some hs'"
  shows "hash_blocks hs \<le> hash_blocks hs'"
  using assms
  by (auto simp: hash_add_server_def hash_blocks_def mmc_standard_free_state_def mmc_consistent_free_state_def mmc_standard_add_server_def
      mmc_consistent_add_server_def Let_def split: hash_state.splits if_splits)

lemma transient_cong: "(\<And>m. m \<in> set ms \<Longrightarrow> m_persistent (p_mmc w' m) = m_persistent (p_mmc w m)) \<Longrightarrow> transient w' ms = transient w ms"
  unfolding transient_def by (rule filter_cong) auto

lemma add_server_inv:
  assumes inv: "life_inv (pl, w, mem)" and made: "make_server cs addr sa udp_port pl w = (m, pl', w1)" and fresh: "addr \<notin> live_servers mem"
    and add: "mmc_pool_add m weight w1 = Some w'"
  shows "life_inv (pl', w', mem\<lparr>live_servers := insert m (live_servers mem),
      state_blocks := state_blocks mem + (hash_blocks (p_hash_state w') - hash_blocks (p_hash_state w))\<rparr>)"
proof -
  note I = life_invD [OF inv]
  note k = make_server_requests [OF made]
  obtain hs where hs: "hash_add_server m (p_mmc w1 m) weight (p_hash_state w) = Some hs"
    and w': "p_mmc w' = p_mmc w1" "p_servers w' = p_servers w @ [m]" "p_free_requests w' = p_free_requests w" "p_hash_state w' = hs"
    using add k by (auto simp: mmc_pool_add_def split: Option.bind_splits)
  have st: "stream w' = stream w1" by (intro ext) (simp add: stream_def w'(1))
  have blocks: "state_blocks mem + (hash_blocks hs - hash_blocks (p_hash_state w)) = hash_blocks hs"
    using I(7) hash_add_blocks [OF hs] by simp
  from made show ?thesis
  proof (cases rule: make_server_cases)
    case found
    have "m \<in> live_servers mem" "m_persistent (p_mmc w' m)" using found(1,4) I(1,3) w'(1) by auto
    moreover from this have "transient w' (p_servers w') = transient w (p_servers w)"
      using found(4) w'(1) by (simp add: w'(2) transient_def)
    ultimately show ?thesis
      using I found w' st blocks
      by (intro life_invI memory_ok_insert) (auto simp: insert_absorb)
  next
    case new
    have m: "m \<notin> set (p_servers w)" "m \<notin> listed pl" using new(1) fresh I(1) by auto
    have "transient w' (p_servers w) = transient w (p_servers w)"
      by (rule transient_cong) (use m(1) new(4) w'(1) in metis)
    then have dist: "distinct (transient w' (p_servers w'))" using I(5) m(1) by (auto simp: w'(2) transient_def)
    have neq: "m' \<noteq> m" if "m' \<in> set (p_servers w) \<union> listed pl" for m' using that m by auto
    have old: "m' \<noteq> m" "p_mmc w' m' = p_mmc w m'" if "m' \<in> set (p_servers w) \<union> listed pl" for m'
      using neq [OF that] new(4) [OF neq [OF that]] w'(1) by simp_all
    have "stream w' m' = stream w m'" if "m' \<in> live_servers mem" for m'
      using old [of m'] that I(1) by (simp add: stream_def fun_eq_iff)
    then have "memory_ok w' (mem\<lparr>live_servers := insert m (live_servers mem), state_blocks := hash_blocks hs\<rparr>)"
      using new(3) by (intro memory_ok_insert [OF I(2)]) (simp_all add: st)
    moreover have "insert m (live_servers mem) = set (p_servers w @ [m]) \<union> listed pl'" using I(1) new(2) by simp
    moreover have "m_persistent (p_mmc w' m')" if "m' \<in> listed pl'" for m'
      using that new(2) I(3) old [of m'] w'(1) by (auto split: if_splits)
    moreover have "m' \<in> listed pl'" if "m' \<in> set (p_servers w @ [m])" "m_persistent (p_mmc w' m')" for m'
      using that new(2) I(4) old [of m'] w'(1) by (auto split: if_splits)
    ultimately show ?thesis
      using dist I(6) unfolding w'(4) blocks by (intro life_invI) (simp_all add: w'(2-4))
  qed
qed

text \<open>A pool loses its servers in the same way when it is freed and when it is closed.\<close>

lemma life_servers_freed:
  assumes inv: "life_inv (pl, w, mem)"
  obtains t mem' where "free_servers (p_servers w) (w, mem) = Some (w\<lparr>p_mmc := t\<rparr>, mem')" and "memory_ok (w\<lparr>p_mmc := t\<rparr>) mem'"
    and "live_servers mem' = listed pl" and "live_requests mem' = live_requests mem" and "state_blocks mem' = hash_blocks (p_hash_state w)"
    and "\<forall>m \<in> listed pl. t m = (if m \<in> set (p_servers w) then mmc_server_sleep (p_mmc w m) else p_mmc w m)"
proof -
  note I = life_invD [OF inv]
  have "set (p_servers w) \<subseteq> live_servers mem" using I(1) by simp
  from free_servers_ok [OF I(2) this I(5)] obtain t mem' where
    t: "free_servers (p_servers w) (w, mem) = Some (w\<lparr>p_mmc := t\<rparr>, mem')" "memory_ok (w\<lparr>p_mmc := t\<rparr>) mem'"
      "live_servers mem' = live_servers mem - set (transient w (p_servers w))" "live_requests mem' = live_requests mem"
      "state_blocks mem' = state_blocks mem"
      "\<forall>m. m \<notin> set (transient w (p_servers w)) \<longrightarrow> t m = (if m \<in> set (p_servers w) then mmc_server_sleep (p_mmc w m) else p_mmc w m)"
    by metis
  have gone: "m \<in> set (transient w (p_servers w)) \<longleftrightarrow> m \<in> set (p_servers w) \<and> m \<notin> listed pl" for m
    using I(3,4) by (auto simp: transient_def)
  then have "live_servers mem' = listed pl" using t(3) I(1) by auto
  then show ?thesis using that t I(7) gone by metis
qed

lemma pool_free_returns:
  assumes inv: "life_inv (pl, w, mem)"
  shows "\<exists>t mem'. mmc_pool_free w mem = Some (t, mem') \<and> live_servers mem' = listed pl \<and>
    open_streams mem' = held w (listed pl) \<and> live_requests mem' = live_requests mem - set (fq_list (p_free_requests w)) \<and>
    state_blocks mem' = 0 \<and> (\<forall>m \<in> listed pl. t m = (if m \<in> set (p_servers w) then mmc_server_sleep (p_mmc w m) else p_mmc w m))"
proof -
  note I = life_invD [OF inv]
  from life_servers_freed [OF inv] obtain t mem' where
    t: "free_servers (p_servers w) (w, mem) = Some (w\<lparr>p_mmc := t\<rparr>, mem')" "memory_ok (w\<lparr>p_mmc := t\<rparr>) mem'"
      "live_servers mem' = listed pl" "live_requests mem' = live_requests mem" "state_blocks mem' = hash_blocks (p_hash_state w)"
      "\<forall>m \<in> listed pl. t m = (if m \<in> set (p_servers w) then mmc_server_sleep (p_mmc w m) else p_mmc w m)" by metis
  have "stream (w\<lparr>p_mmc := t\<rparr>) m = stream w m" if "m \<in> listed pl" for m
    using t(6) that by (intro ext) (simp add: stream_def)
  then have "held (w\<lparr>p_mmc := t\<rparr>) (listed pl) = held w (listed pl)" by (auto simp: held_def)
  then have "open_streams mem' = held w (listed pl)" using memory_okD(1) [OF t(2)] t(3) by simp
  moreover have "free_requests (fq_list (p_free_requests w)) (mem'\<lparr>state_blocks := 0\<rparr>) =
      Some (mem'\<lparr>state_blocks := 0, live_requests := live_requests mem - set (fq_list (p_free_requests w))\<rparr>)"
    using I(6) t(4) fq_distinct [of "p_free_requests w"] by (subst free_requests_ok) simp_all
  ultimately show ?thesis using t by (simp add: mmc_pool_free_def free_state_def)
qed

lemma close_pool_returns:
  assumes inv: "life_inv (pl, w, mem)"
  obtains w' mem' where "close_pool gs w mem = Some (w', mem')" and "life_inv (pl, w', mem')" and "p_servers w' = []"
proof (cases "p_servers w = []")
  case True
  then show ?thesis using inv by (intro that [of w mem]) (simp_all add: close_pool_def)
next
  case False
  note I = life_invD [OF inv]
  from life_servers_freed [OF inv] obtain t mem1 where
    t: "free_servers (p_servers w) (w, mem) = Some (w\<lparr>p_mmc := t\<rparr>, mem1)" "memory_ok (w\<lparr>p_mmc := t\<rparr>) mem1"
      "live_servers mem1 = listed pl" "live_requests mem1 = live_requests mem" "state_blocks mem1 = hash_blocks (p_hash_state w)"
      "\<forall>m \<in> listed pl. t m = (if m \<in> set (p_servers w) then mmc_server_sleep (p_mmc w m) else p_mmc w m)" by metis
  let ?w = "w\<lparr>p_mmc := t, p_servers := [], p_hash_state := mmc_pool_init_hash gs\<rparr>" and ?mem = "mem1\<lparr>state_blocks := 1\<rparr>"
  have "stream ?w = stream (w\<lparr>p_mmc := t\<rparr>)" by (intro ext) (simp add: stream_def)
  then have "memory_ok ?w ?mem" using t(2) by (simp add: memory_ok_def held_def)
  moreover have "hash_blocks (mmc_pool_init_hash gs) = 1"
    by (simp add: hash_blocks_def mmc_pool_init_hash_def Let_def mmc_standard_free_state_def mmc_consistent_free_state_def
        mmc_standard_create_state_def mmc_consistent_create_state_def)
  moreover have "\<forall>m \<in> listed pl. m_persistent (t m)" using t(6) I(3) by simp
  ultimately have "life_inv (pl, ?w, ?mem)" using t(3,4) I(6) by (intro life_invI) (simp_all add: transient_def)
  moreover have "close_pool gs w mem = Some (?w, ?mem)" using False t(1,5) by (simp add: close_pool_def free_state_def)
  ultimately show ?thesis using that [of ?w ?mem] by simp
qed

lemma set_tl_subset: "set (tl xs) \<subseteq> set xs"
  by (cases xs) auto

lemma alloc_fields:
  assumes "mmc_pool_request_alloc pr udp failover w = (r, w')"
  shows "p_servers w' = p_servers w" and "p_mmc w' = p_mmc w" and "p_hash_state w' = p_hash_state w"
    and "set (fq_list (p_free_requests w')) \<subseteq> set (fq_list (p_free_requests w))"
  using assms set_tl_subset [of "fq_list (p_free_requests w)"]
  by (auto simp: mmc_pool_request_alloc_def upd_req_def fq_list_rest Let_def split: option.splits prod.splits if_splits)

lemma same_stream: "p_mmc w' = p_mmc w \<Longrightarrow> stream w' = stream w"
  by (intro ext) (simp add: stream_def)

lemma memory_ok_same: "stream w' = stream w \<Longrightarrow> live_servers mem' = live_servers mem \<Longrightarrow> open_streams mem' = open_streams mem \<Longrightarrow>
    memory_ok w mem \<Longrightarrow> memory_ok w' mem'"
  by (simp add: memory_ok_def held_def)

lemma life_inv_keep:
  assumes "life_inv (pl, w, mem)" and "p_servers w' = p_servers w" and "\<And>m. m_persistent (p_mmc w' m) = m_persistent (p_mmc w m)"
    and "memory_ok w' mem'" and "live_servers mem' = live_servers mem" and "state_blocks mem' = state_blocks mem"
    and "hash_blocks (p_hash_state w') = hash_blocks (p_hash_state w)" and "set (fq_list (p_free_requests w')) \<subseteq> live_requests mem'"
  shows "life_inv (pl, w', mem')"
proof -
  have "transient w' (p_servers w') = transient w (p_servers w)" using assms(2,3) by (simp add: transient_def)
  then show ?thesis using assms by (simp add: life_inv_def)
qed

lemma life_step:
  assumes "life cs gs pr st st'" and "life_inv st"
  shows "life_inv st'"
  using assms
proof (induction rule: life.induct)
  case (life_add addr sa udp_port pl w m pl' w1 mem weight w')
  then show ?case by (intro add_server_inv)
next
  case (life_open m w udp s mem pl fd)
  let ?w = "upd_mmc m (map_stream udp (connected_stream udp s fd)) w"
  note I = life_invD [OF life_open(4)]
  have st: "stream ?w m' u = (if m' = m \<and> u = udp then Some s else stream w m' u)" for m' u
    by (auto simp: stream_upd stream_def map_stream_def stream_of_def connected_stream_def)
  have "m \<in> live_servers mem" using life_open(1) I(1) by simp
  from memory_ok_open [OF I(2) this life_open(2,3) st]
  show ?case by (rule life_inv_keep [OF life_open(4), rotated 2]) (use I(6) in \<open>simp_all add: upd_mmc_def map_stream_def\<close>)
next
  case (life_disconnect m w udp mem w' mem' pl)
  let ?w = "upd_mmc m (mmc_server_disconnect udp) w"
  note I = life_invD [OF life_disconnect(3)]
  have m: "m \<in> live_servers mem" using life_disconnect(1) I(1) by simp
  have c: "m_persistent (p_mmc w m) \<longrightarrow> True" by simp
  obtain mem1 where d: "server_disconnect True udp m (w, mem) = Some (?w, mem1)" "memory_ok ?w mem1" "live_servers mem1 = live_servers mem"
    "live_requests mem1 = live_requests mem" "state_blocks mem1 = state_blocks mem"
    by (rule server_disconnect_ok [OF I(2) m c])
  have "w' = ?w" "mem' = mem1" using d(1) life_disconnect(2) by simp_all
  then show ?case
    using d(2) by (intro life_inv_keep [OF life_disconnect(3)]) (use I(6) d(3-5) in \<open>simp_all add: upd_mmc_def\<close>)
next
  case (life_alloc udp failover w r w' pl mem)
  note a = alloc_fields [OF life_alloc(1)] and I = life_invD [OF life_alloc(2)]
  have "memory_ok w' (mem\<lparr>live_requests := insert r (live_requests mem)\<rparr>)"
    by (rule memory_ok_same [OF same_stream [OF a(2)] _ _ I(2)]) simp_all
  then show ?case using a I(6) by (intro life_inv_keep [OF life_alloc(2)]) auto
next
  case (life_release r mem pl w)
  note I = life_invD [OF life_release(2)]
  have "memory_ok (mmc_pool_release r w) mem"
    by (rule memory_ok_same [OF same_stream _ _ I(2)]) (simp_all add: mmc_pool_release_def)
  then show ?case
    using I(6) life_release(1) by (intro life_inv_keep [OF life_release(2)]) (auto simp: mmc_pool_release_def fq_list_push)
next
  case (life_close w mem w' mem' pl)
  obtain w1 mem1 where "close_pool gs w mem = Some (w1, mem1)" "life_inv (pl, w1, mem1)" "p_servers w1 = []"
    by (rule close_pool_returns [OF life_close(2)])
  then show ?case using life_close(1) by simp
next
  case (life_other w' w pl mem)
  note I = life_invD [OF life_other(6)]
  have "memory_ok w' mem" by (rule memory_ok_same [OF life_other(2) refl refl I(2)])
  then show ?case using I(6) life_other(1,3-5) by (intro life_inv_keep [OF life_other(6)]) simp_all
qed

lemma life_run: "(life cs gs pr)\<^sup>*\<^sup>* st st' \<Longrightarrow> life_inv st \<Longrightarrow> life_inv st'"
  by (induction rule: rtranclp_induct) (auto intro: life_step)

text \<open>
  The end of the process frees the persistent servers, each once; their streams are left to PHP,
  which has a list of persistent streams of its own.
\<close>

lemma persistent_server_freed:
  assumes "m \<in> live_servers mem" and "m_persistent (p_mmc w m)"
  shows "\<exists>x. mmc_server_free m (w, mem) = Some (upd_mmc m (\<lambda>_. x) w, mem\<lparr>live_servers := live_servers mem - {m}\<rparr>)"
proof -
  have c: "close_stream False True stream mem = Some mem" for stream by (simp add: close_stream_def split: option.splits)
  show ?thesis
    using assms c by (intro exI) (auto simp: mmc_server_free_def server_disconnect_def upd_mmc_def)
qed

lemma shutdown_frees_persistent:
  assumes "distinct ms" and "set ms \<subseteq> live_servers mem" and "\<forall>m \<in> set ms. m_persistent (p_mmc w m)"
  shows "\<exists>w'. shutdown ms (w, mem) = Some (w', mem\<lparr>live_servers := live_servers mem - set ms\<rparr>)"
  using assms
proof (induction ms arbitrary: w mem)
  case (Cons m ms)
  from persistent_server_freed [of m mem w] obtain x where
    x: "mmc_server_free m (w, mem) = Some (upd_mmc m (\<lambda>_. x) w, mem\<lparr>live_servers := live_servers mem - {m}\<rparr>)" using Cons.prems by auto
  have rest: "\<forall>m' \<in> set ms. m_persistent (p_mmc (upd_mmc m (\<lambda>_. x) w) m')"
    "set ms \<subseteq> live_servers (mem\<lparr>live_servers := live_servers mem - {m}\<rparr>)" "distinct ms"
    using Cons.prems by (auto simp: upd_mmc_def)
  obtain w' where "shutdown ms (upd_mmc m (\<lambda>_. x) w, mem\<lparr>live_servers := live_servers mem - {m}\<rparr>) =
      Some (w', mem\<lparr>live_servers := live_servers mem - {m} - set ms\<rparr>)"
    using Cons.IH [OF rest(3,2,1)] by auto
  moreover have "live_servers mem - {m} - set ms = live_servers mem - set (m # ms)" by auto
  ultimately show ?case using x by (simp add: server_list_dtor_def)
qed simp

subsection \<open>The operations of the pool are such steps\<close>

text \<open>\<open>close_pool\<close> is \<open>mmc_pool_close\<close> with the memory: the pool is the same but for servers that are gone.\<close>

lemma close_pool_is_mmc_pool_close:
  assumes "life_inv (pl, w, mem)"
  shows "\<exists>w' mem'. close_pool gs w mem = Some (w', mem') \<and> w'\<lparr>p_mmc := p_mmc (mmc_pool_close gs w)\<rparr> = mmc_pool_close gs w \<and>
    (\<forall>m \<in> live_servers mem'. p_mmc w' m = p_mmc (mmc_pool_close gs w) m)"
proof (cases "p_servers w = []")
  case True
  then show ?thesis by (simp add: close_pool_def mmc_pool_close_def)
next
  case False
  from life_servers_freed [OF assms] obtain t mem1 where
    t: "free_servers (p_servers w) (w, mem) = Some (w\<lparr>p_mmc := t\<rparr>, mem1)" "live_servers mem1 = listed pl"
      "state_blocks mem1 = hash_blocks (p_hash_state w)"
      "\<forall>m \<in> listed pl. t m = (if m \<in> set (p_servers w) then mmc_server_sleep (p_mmc w m) else p_mmc w m)" by metis
  let ?w = "w\<lparr>p_mmc := t, p_servers := [], p_hash_state := mmc_pool_init_hash gs\<rparr>" and ?mem = "mem1\<lparr>state_blocks := 1\<rparr>"
  have "close_pool gs w mem = Some (?w, ?mem)" using False t(1,3) by (simp add: close_pool_def free_state_def)
  moreover have "?w\<lparr>p_mmc := p_mmc (mmc_pool_close gs w)\<rparr> = mmc_pool_close gs w" using False by (simp add: mmc_pool_close_def)
  moreover have "\<forall>m \<in> live_servers ?mem. p_mmc ?w m = p_mmc (mmc_pool_close gs w) m" using t(2,4) False by (simp add: mmc_pool_close_def)
  ultimately show ?thesis by blast
qed

text \<open>Connecting closes the stream there is and opens the new one.\<close>

lemma connect_life:
  assumes inv: "life_inv (pl, w, mem)" and m: "m \<in> set (p_servers w)" and c: "e_connect env (p_calls w) m udp = Connected s fd" "fd < FD_SETSIZE"
    and s: "s \<notin> open_streams mem"
  shows "\<exists>w' mem'. mmc_server_connect ops env pr m udp w = Some (MMC_OK, w') \<and> (life cs gs pr)\<^sup>*\<^sup>* (pl, w, mem) (pl, w', mem')"
proof -
  note I = life_invD [OF inv]
  let ?d = "upd_mmc m (mmc_server_disconnect udp) w"
  have live: "m \<in> live_servers mem" using m I(1) by simp
  have p: "m_persistent (p_mmc w m) \<longrightarrow> True" by simp
  obtain mem1 where d: "server_disconnect True udp m (w, mem) = Some (?d, mem1)" "memory_ok ?d mem1" "live_servers mem1 = live_servers mem"
    "live_requests mem1 = live_requests mem" "state_blocks mem1 = state_blocks mem"
    by (rule server_disconnect_ok [OF I(2) live p])
  have "held ?d (live_servers mem) \<subseteq> held w (live_servers mem)" by (auto simp: held_def stream_upd stream_def split: if_splits)
  then have s1: "s \<notin> open_streams mem1" using s memory_okD(1) [OF d(2)] memory_okD(1) [OF I(2)] d(3) by auto
  define w0 where "w0 = (if st_stream (stream_of udp (p_mmc w m)) \<noteq> None then ?d else w)"
  define mem0 where "mem0 = (if st_stream (stream_of udp (p_mmc w m)) \<noteq> None then mem1 else mem)"
  have first: "(life cs gs pr)\<^sup>*\<^sup>* (pl, w, mem) (pl, w0, mem0)"
    using life_disconnect [OF m d(1), of cs gs pr pl] by (auto simp: w0_def mem0_def)
  have w0: "stream w0 m udp = None" "s \<notin> open_streams mem0" "m \<in> set (p_servers w0)" "p_calls w0 = p_calls w"
    using s s1 m by (auto simp: w0_def mem0_def stream_def upd_mmc_def)
  let ?w1 = "upd_mmc m (map_stream udp (connected_stream udp s fd)) w0"
  let ?w' = "upd_mmc m (\<lambda>x. (map_stream udp (connected_stream udp s fd) x)\<lparr>m_error := None\<rparr>) (tick w0)"
  have second: "life cs gs pr (pl, w0, mem0) (pl, ?w1, mem0\<lparr>open_streams := insert s (open_streams mem0)\<rparr>)"
    by (rule life_open [OF w0(3,1,2)])
  have "stream ?w' = stream ?w1" by (intro ext) (simp add: stream_def upd_mmc_def tick_def stream_of_def)
  then have third: "life cs gs pr (pl, ?w1, mem0\<lparr>open_streams := insert s (open_streams mem0)\<rparr>) (pl, ?w', mem0\<lparr>open_streams := insert s (open_streams mem0)\<rparr>)"
    by (intro life_other) (simp_all add: upd_mmc_def tick_def)
  have "mmc_server_connect ops env pr m udp w = Some (MMC_OK, ?w')"
    unfolding mmc_server_connect_def w0_def [symmetric] Let_def using c by (simp add: w0(4))
  then show ?thesis
    using rtranclp.rtrancl_into_rtrancl [OF rtranclp.rtrancl_into_rtrancl [OF first second] third] by blast
qed

subsection \<open>The properties\<close>

text \<open>A new pool, in a process whose list of persistent servers may have servers with streams.\<close>

definition started :: "pool_settings \<Rightarrow> (nat \<Rightarrow> mmc_t) \<Rightarrow> persistent_list \<Rightarrow> ('d, 'o, 'p) client \<Rightarrow> memory \<Rightarrow> bool" where
  "started gs mmcs pl w mem \<longleftrightarrow>
     (\<exists>reqs user. w = mmc_pool_new gs mmcs reqs user) \<and> live_servers mem = listed pl \<and> memory_ok w mem \<and> state_blocks mem = 1 \<and>
     (\<forall>m \<in> listed pl. m_persistent (mmcs m))"

lemma started_inv: "started gs mmcs pl w mem \<Longrightarrow> life_inv (pl, w, mem)"
  by (auto simp: started_def mmc_pool_new_def transient_def hash_blocks_def mmc_pool_init_hash_def Let_def mmc_standard_free_state_def
      mmc_consistent_free_state_def mmc_standard_create_state_def mmc_consistent_create_state_def intro!: life_invI)

text \<open>
  C16: A pool is freed once and completely: whatever servers were added, connected, disconnected or
  closed with their pool before, and whatever requests were allocated and released,
  \<^verbatim>\<open>mmc_pool_free\<close> neither frees nor reads what was freed nor closes a stream twice. It leaves
  exactly the persistent servers, asleep, with exactly their streams open, nothing of the hash state, and of the
  requests those that were not released.
\<close>

theorem pool_freed_once:
  assumes "started gs mmcs pl0 w0 mem0" and "(life cs gs pr)\<^sup>*\<^sup>* (pl0, w0, mem0) (pl, w, mem)"
  shows "\<exists>t mem'. mmc_pool_free w mem = Some (t, mem') \<and> live_servers mem' = listed pl \<and>
    open_streams mem' = held w (listed pl) \<and> live_requests mem' = live_requests mem - set (fq_list (p_free_requests w)) \<and>
    state_blocks mem' = 0 \<and> (\<forall>m \<in> listed pl. t m = (if m \<in> set (p_servers w) then mmc_server_sleep (p_mmc w m) else p_mmc w m))"
  by (rule pool_free_returns [OF life_run [OF assms(2) started_inv [OF assms(1)]]])

definition empty_memory :: memory where
  "empty_memory = \<lparr>live_servers = {}, live_requests = {}, open_streams = {}, state_blocks = 1\<rparr>"

lemma example_started: "started \<lparr>gs_hash_strategy = MMC_STANDARD_HASH, gs_hash_function = MMC_HASH_FNV1A, gs_crc_step = (\<lambda>c b. c),
    gs_select_api = MMC_API_SELECT\<rparr> (\<lambda>m. mmc_server_new 8192 [] 11211 0 False 1000000 15) Map.empty example_client empty_memory"
  by (auto simp: started_def example_client_def empty_memory_def listed_def memory_ok_def held_def)

text \<open>Adding a server of its own to the example and opening its stream.\<close>

abbreviation example_settings :: pool_settings where
  "example_settings \<equiv> \<lparr>gs_hash_strategy = MMC_STANDARD_HASH, gs_hash_function = MMC_HASH_FNV1A, gs_crc_step = (\<lambda>c b. c),
     gs_select_api = MMC_API_SELECT\<rparr>"

lemma example_life:
  "\<exists>w mem. (life 8192 example_settings (mmc_ascii_protocol plain_runtime))\<^sup>*\<^sup>* (Map.empty, example_client, empty_memory) (Map.empty, w, mem) \<and>
    p_servers w = [3] \<and> \<not> m_persistent (p_mmc w 3) \<and> stream w 3 False = Some 9 \<and> p_sending1 w = fq_zero \<and> p_first w"
proof -
  let ?sa = "example_args\<lparr>sa_persistent := False\<rparr>"
  obtain m pl1 w1 where made: "make_server 8192 3 ?sa 0 Map.empty example_client = (m, pl1, w1)" by (metis prod_cases3)
  then have m: "m = 3" "pl1 = Map.empty" "w1 = upd_mmc 3 (\<lambda>_. mmc_server_new 8192 [104] 64 0 False 1000000 15) example_client"
    by (simp_all add: make_server_def example_args_def unsigned_short_def Let_def)
  obtain w2 where add: "mmc_pool_add m 1 w1 = Some w2" and w2: "p_servers w2 = [3]" "p_mmc w2 = p_mmc w1" "p_sending1 w2 = fq_zero" "p_first w2"
    by (simp add: m mmc_pool_add_def hash_add_server_def example_client_def mmc_pool_new_def mmc_pool_init_hash_def upd_mmc_def mmc_consts Let_def)
  have fresh: "3 \<notin> live_servers empty_memory" by (simp add: empty_memory_def)
  have st: "stream w2 3 False = None" by (simp add: stream_def w2 m upd_mmc_def mmc_server_new_def stream_of_def zero_stream_def)
  let ?mem = "empty_memory\<lparr>live_servers := insert m (live_servers empty_memory),
      state_blocks := state_blocks empty_memory + (hash_blocks (p_hash_state w2) - hash_blocks (p_hash_state example_client))\<rparr>"
  have free: "9 \<notin> open_streams ?mem" by (simp add: empty_memory_def)
  have mem3: "3 \<in> set (p_servers w2)" by (simp add: w2)
  let ?w = "upd_mmc 3 (map_stream False (connected_stream False 9 5)) w2"
  have "life 8192 example_settings (mmc_ascii_protocol plain_runtime) (Map.empty, example_client, empty_memory) (Map.empty, w2, ?mem)"
    using life_add [OF made fresh add] m by simp
  moreover have "life 8192 example_settings (mmc_ascii_protocol plain_runtime) (Map.empty, w2, ?mem)
      (Map.empty, ?w, ?mem\<lparr>open_streams := insert 9 (open_streams ?mem)\<rparr>)"
    by (rule life_open [OF mem3 st free])
  moreover have "p_servers ?w = [3]" "\<not> m_persistent (p_mmc ?w 3)" "stream ?w 3 False = Some 9" "p_sending1 ?w = fq_zero" "p_first ?w"
    by (simp_all add: w2 m upd_mmc_def map_stream_def mmc_server_new_def stream_def stream_of_def connected_stream_def)
  ultimately show ?thesis by (meson rtranclp.rtrancl_into_rtrancl rtranclp.rtrancl_refl)
qed

theorem pool_freed_once_witness:
  "\<exists>w mem t mem'. (life 8192 example_settings (mmc_ascii_protocol plain_runtime))\<^sup>*\<^sup>* (Map.empty, example_client, empty_memory) (Map.empty, w, mem) \<and>
    stream w 3 False = Some 9 \<and> mmc_pool_free w mem = Some (t, mem') \<and> live_servers mem' = {} \<and> open_streams mem' = {}"
proof -
  obtain w mem where w: "(life 8192 example_settings (mmc_ascii_protocol plain_runtime))\<^sup>*\<^sup>* (Map.empty, example_client, empty_memory) (Map.empty, w, mem)"
    "stream w 3 False = Some 9" using example_life by blast
  from pool_freed_once [OF example_started w(1)] w show ?thesis by (fastforce simp: listed_def held_def)
qed

text \<open>
  C39: Closing a pool does not touch its queues: a server of its own that still waits to send is freed
  and stays in the queue, where the next round begins with it. Work is left in the
  queues by \<^verbatim>\<open>addServer\<close>, which schedules the authentication and does not run the pool, by a
  redundant command of which only the copies could be scheduled, and when the
  failure callback closes the pool in the middle of a round.
\<close>

theorem closed_pool_keeps_freed_server:
  assumes "started gs mmcs pl0 w0 mem0" and "(life cs gs pr)\<^sup>*\<^sup>* (pl0, w0, mem0) (pl, w, mem)"
    and "m \<in> set (p_servers w)" and "\<not> m_persistent (p_mmc w m)" and "m \<in> set (fq_list (sending (p_first w) w))"
  shows "\<exists>w' mem'. close_pool gs w mem = Some (w', mem') \<and> p_servers w' = [] \<and> m \<notin> live_servers mem' \<and>
    m \<in> set (fq_list (sending (p_first w') w')) \<and> mmc_server_free m (w', mem') = None"
proof -
  have inv: "life_inv (pl, w, mem)" by (rule life_run [OF assms(2) started_inv [OF assms(1)]])
  obtain w' mem' where c: "close_pool gs w mem = Some (w', mem')" "life_inv (pl, w', mem')" "p_servers w' = []"
    by (rule close_pool_returns [OF inv])
  have "m \<notin> listed pl" using life_invD(3) [OF inv] assms(4) by blast
  then have gone: "m \<notin> live_servers mem'" using life_invD(1) [OF c(2)] c(3) by simp
  from close_pool_is_mmc_pool_close [OF inv, of gs] c(1) have same: "w'\<lparr>p_mmc := p_mmc (mmc_pool_close gs w)\<rparr> = mmc_pool_close gs w" by auto
  have "p_first w' = p_first (w'\<lparr>p_mmc := p_mmc (mmc_pool_close gs w)\<rparr>)"
    "sending (p_first w') w' = sending (p_first w') (w'\<lparr>p_mmc := p_mmc (mmc_pool_close gs w)\<rparr>)" by (simp_all add: sending_def)
  then have "sending (p_first w') w' = sending (p_first w) w" unfolding same by (simp add: sending_def mmc_pool_close_def)
  then show ?thesis using c(1,3) gone assms(5) by (simp add: mmc_server_free_def)
qed

theorem closed_pool_keeps_freed_server_witness:
  "\<exists>(w :: (unit, unit, mmc_ascii_request) client) mem w' mem'. p_servers w = [3] \<and> close_pool example_settings w mem = Some (w', mem') \<and> 3 \<notin> live_servers mem' \<and>
     3 \<in> set (fq_list (sending (p_first w') w')) \<and> mmc_server_free 3 (w', mem') = None"
proof -
  obtain w mem where w: "(life 8192 example_settings (mmc_ascii_protocol plain_runtime))\<^sup>*\<^sup>* (Map.empty, example_client, empty_memory) (Map.empty, w, mem)"
    "p_servers w = [3]" "\<not> m_persistent (p_mmc w 3)" "p_first w" using example_life by blast
  let ?w = "w\<lparr>p_sending1 := fq_push fq_zero 3\<rparr>"
  have "life 8192 example_settings (mmc_ascii_protocol plain_runtime) (Map.empty, w, mem) (Map.empty, ?w, mem)"
    by (rule life_other [OF _ same_stream]) simp_all
  with w(1) have run: "(life 8192 example_settings (mmc_ascii_protocol plain_runtime))\<^sup>*\<^sup>* (Map.empty, example_client, empty_memory) (Map.empty, ?w, mem)"
    by (rule rtranclp.rtrancl_into_rtrancl)
  have "3 \<in> set (p_servers ?w)" "\<not> m_persistent (p_mmc ?w 3)" "3 \<in> set (fq_list (sending (p_first ?w) ?w))"
    using w(2-4) by (simp_all add: sending_def)
  from closed_pool_keeps_freed_server [OF example_started run this] obtain w' mem' where
    "close_pool example_settings ?w mem = Some (w', mem')" "3 \<notin> live_servers mem'" "3 \<in> set (fq_list (sending (p_first w') w'))"
    "mmc_server_free 3 (w', mem') = None" by blast
  moreover have "p_servers ?w = [3]" using w(2) by simp
  ultimately show ?thesis by blast
qed

end
