(* ===== verification/Mmc_Callback.thy ===== *)
theory Mmc_Callback
  imports Mmc_Servers
begin

text \<open>
  The object of userspace and its pool (\<^verbatim>\<open>src/memcache.c\<close>): \<^verbatim>\<open>mmc_get_pool\<close>, and the failure callback,
  a property of the object that the pool refers to: \<^verbatim>\<open>php_mmc_set_failure_callback\<close>,
  \<^verbatim>\<open>php_mmc_failure_callback\<close> and the destructor \<^verbatim>\<open>_mmc_pool_list_dtor\<close>, which gives the reference back.

  Objects are named by naturals. A callable of PHP is a parameter: its name, and whether
  \<^verbatim>\<open>zend_is_callable\<close> accepts it.
\<close>

subsection \<open>The pool of an object\<close>

text \<open>The property \<^verbatim>\<open>connection\<close>: missing (or no object at all), something else than a pool, or a pool.\<close>

datatype connection = NoConnection | OtherConnection | PoolConnection nat

definition mmc_get_pool :: "connection \<Rightarrow> string + nat" where
  "mmc_get_pool connection =
     (case connection of
        NoConnection \<Rightarrow> Inl ''No servers added to memcache connection''
      | OtherConnection \<Rightarrow> Inl ''Invalid MemcachePool->connection member variable''
      | PoolConnection pool \<Rightarrow> Inr pool)"

subsection \<open>The failure callback\<close>

text \<open>
  \<open>cb_param\<close> is \<^verbatim>\<open>pool->failure_callback_param\<close>, \<open>None\<close> while it is undefined; \<open>cb_property\<close> the property
  \<^verbatim>\<open>_failureCallback\<close> of the objects and \<open>cb_refs\<close> their reference counts.
\<close>

datatype 'f callback_property = NoProperty | NullProperty | CallbackProperty 'f

record 'f callback_state =
  cb_param :: "nat option"
  cb_property :: "nat \<Rightarrow> 'f callback_property"
  cb_refs :: "nat \<Rightarrow> int"

definition add_refs :: "int \<Rightarrow> nat \<Rightarrow> 'f callback_state \<Rightarrow> 'f callback_state" where
  "add_refs n obj st = st\<lparr>cb_refs := (cb_refs st)(obj := cb_refs st obj + n)\<rparr>"

definition drop_param :: "'f callback_state \<Rightarrow> 'f callback_state" where
  "drop_param st = (case cb_param st of None \<Rightarrow> st | Some obj \<Rightarrow> add_refs (- 1) obj st)"

definition php_mmc_set_failure_callback :: "nat \<Rightarrow> 'f option \<Rightarrow> 'f callback_state \<Rightarrow> 'f callback_state" where
  "php_mmc_set_failure_callback obj callback st =
     (let st = drop_param st in
      case callback of
        Some f \<Rightarrow> add_refs 1 obj (st\<lparr>cb_property := (cb_property st)(obj := CallbackProperty f), cb_param := Some obj\<rparr>)
      | None \<Rightarrow> st\<lparr>cb_property := (cb_property st)(obj := NullProperty), cb_param := None\<rparr>)"

text \<open>
  What a failure leads to: a call with the host, the two ports, the error, if there is one, and its
  number; a notice with the same; or a warning that the callback is no longer callable,
  which also takes it away.
\<close>

datatype 'f failure_event =
    CallUser 'f buf nat nat "buf option" int
  | FailureNotice buf nat nat "buf option" int
  | InvalidCallback

definition php_mmc_failure_callback :: "('f \<Rightarrow> bool) \<Rightarrow> mmc_t \<Rightarrow> 'f callback_state \<Rightarrow> 'f failure_event \<times> 'f callback_state" where
  "php_mmc_failure_callback callable mmc st =
     (let host = m_host mmc; tcp_port = st_port (m_tcp mmc); udp_port = st_port (m_udp mmc);
          notice = FailureNotice host tcp_port udp_port (m_error mmc) (m_errnum mmc)
      in case cb_param st of
           None \<Rightarrow> (notice, st)
         | Some obj \<Rightarrow>
             (case cb_property st obj of
                CallbackProperty f \<Rightarrow>
                  if callable f then (CallUser f host tcp_port udp_port (m_error mmc) (m_errnum mmc), st)
                  else (InvalidCallback, php_mmc_set_failure_callback obj None st)
              | _ \<Rightarrow> (notice, st)))"

definition pool_list_dtor :: "'f callback_state \<Rightarrow> 'f callback_state" where
  "pool_list_dtor st = (case cb_param st of None \<Rightarrow> st | Some obj \<Rightarrow> (drop_param st)\<lparr>cb_param := None\<rparr>)"

text \<open>
  What the functions that take a callback do with it, and what a script can do in between: give
  the property another value, take and drop references.
\<close>

datatype 'f callback_event =
    ChangeCallback callback_change nat 'f
  | ServerFails mmc_t
  | SetProperty nat "'f callback_property"
  | ScriptRefs nat int

fun callback_step :: "('f \<Rightarrow> bool) \<Rightarrow> 'f callback_event \<Rightarrow> 'f callback_state \<Rightarrow> 'f callback_state" where
  "callback_step callable (ChangeCallback SetCallback obj f) st = php_mmc_set_failure_callback obj (Some f) st"
| "callback_step callable (ChangeCallback ClearCallback obj f) st = php_mmc_set_failure_callback obj None st"
| "callback_step callable (ChangeCallback KeepCallback obj f) st = st"
| "callback_step callable (ServerFails mmc) st = snd (php_mmc_failure_callback callable mmc st)"
| "callback_step callable (SetProperty obj prop) st = st\<lparr>cb_property := (cb_property st)(obj := prop)\<rparr>"
| "callback_step callable (ScriptRefs obj n) st = add_refs n obj st"

definition run_callbacks :: "('f \<Rightarrow> bool) \<Rightarrow> 'f callback_event list \<Rightarrow> 'f callback_state \<Rightarrow> 'f callback_state" where
  "run_callbacks callable events st = fold (callback_step callable) events st"

text \<open>The references the script itself holds.\<close>

fun script_refs :: "nat \<Rightarrow> 'f callback_event \<Rightarrow> int" where
  "script_refs obj (ScriptRefs obj' n) = (if obj' = obj then n else 0)"
| "script_refs obj _ = 0"

definition pool_refs :: "nat \<Rightarrow> 'f callback_state \<Rightarrow> int" where
  "pool_refs obj st = (if cb_param st = Some obj then 1 else 0)"

lemma add_refs_simps [simp]:
  "cb_param (add_refs n obj st) = cb_param st" "cb_property (add_refs n obj st) = cb_property st"
  "cb_refs (add_refs n obj st) o' = cb_refs st o' + (if o' = obj then n else 0)"
  by (simp_all add: add_refs_def)

lemma drop_param_simps [simp]:
  "cb_param (drop_param st) = cb_param st" "cb_property (drop_param st) = cb_property st"
  "cb_refs (drop_param st) obj = cb_refs st obj - pool_refs obj st"
  by (auto simp: drop_param_def pool_refs_def split: option.splits)

lemma set_callback_simps [simp]:
  "cb_param (php_mmc_set_failure_callback obj callback st) = (case callback of None \<Rightarrow> None | Some f \<Rightarrow> Some obj)"
  "cb_property (php_mmc_set_failure_callback obj callback st) =
     (cb_property st)(obj := (case callback of None \<Rightarrow> NullProperty | Some f \<Rightarrow> CallbackProperty f))"
  by (simp_all add: php_mmc_set_failure_callback_def Let_def split: option.splits)

lemma set_callback_refs [simp]:
  "cb_refs (php_mmc_set_failure_callback obj callback st) o' = cb_refs st o' - pool_refs o' st +
     pool_refs o' (php_mmc_set_failure_callback obj callback st)"
  by (auto simp: php_mmc_set_failure_callback_def Let_def pool_refs_def split: option.splits)

lemma failure_callback_refs:
  "cb_refs (snd (php_mmc_failure_callback callable mmc st)) obj - pool_refs obj (snd (php_mmc_failure_callback callable mmc st)) =
   cb_refs st obj - pool_refs obj st"
  by (simp add: php_mmc_failure_callback_def Let_def split: option.splits callback_property.splits)

lemma callback_step_refs:
  "cb_refs (callback_step callable e st) obj - pool_refs obj (callback_step callable e st) =
   cb_refs st obj - pool_refs obj st + script_refs obj e"
  using failure_callback_refs [of callable _ st obj]
  by (cases "(callable, e, st)" rule: callback_step.cases) (simp_all add: pool_refs_def)

lemma run_callbacks_refs:
  "cb_refs (run_callbacks callable events st) obj - pool_refs obj (run_callbacks callable events st) =
   cb_refs st obj - pool_refs obj st + sum_list (map (script_refs obj) events)"
proof (induction events arbitrary: st)
  case (Cons e events)
  then show ?case using callback_step_refs [of callable e st obj] by (simp add: run_callbacks_def)
qed (simp add: run_callbacks_def)

text \<open>
  C40: The pool holds exactly one reference to the object whose callback it would call, and none when it
  has none: however callbacks are set, replaced by those of other objects, cleared and found
  invalid, the count of an object is what the script holds and, for that object, one more;
  when the pool is destroyed the last reference is given back.
\<close>

theorem callback_references_balanced:
  fixes st :: "'f callback_state"
  defines "st' \<equiv> \<lambda>callable events. run_callbacks callable events st"
  assumes "cb_param st = None"
  shows "cb_refs (st' callable events) obj = cb_refs st obj + sum_list (map (script_refs obj) events) +
      (if cb_param (st' callable events) = Some obj then 1 else 0) \<and>
    cb_refs (pool_list_dtor (st' callable events)) obj = cb_refs st obj + sum_list (map (script_refs obj) events) \<and>
    cb_param (pool_list_dtor (st' callable events)) = None"
proof -
  have "pool_refs obj st = 0" using assms(2) by (simp add: pool_refs_def)
  then have held: "cb_refs (st' callable events) obj - pool_refs obj (st' callable events) = cb_refs st obj + sum_list (map (script_refs obj) events)"
    using run_callbacks_refs [of callable events st obj] unfolding st'_def by simp
  moreover have "cb_refs (pool_list_dtor s) obj = cb_refs s obj - pool_refs obj s \<and> cb_param (pool_list_dtor s) = None" for s :: "'f callback_state"
    by (auto simp: pool_list_dtor_def pool_refs_def split: option.splits)
  ultimately show ?thesis by (simp add: pool_refs_def)
qed

theorem callback_references_balanced_witness:
  "cb_refs (run_callbacks (\<lambda>f :: nat. f = 7) [ScriptRefs 1 1, ChangeCallback SetCallback 1 7, ScriptRefs 2 1, ChangeCallback SetCallback 2 8,
      ServerFails (mmc_server_new 8192 [104] 1 0 False 1 15)] \<lparr>cb_param = None, cb_property = (\<lambda>_. NoProperty), cb_refs = (\<lambda>_. 0)\<rparr>) 2 = 1"
  using callback_references_balanced [of "\<lparr>cb_param = None, cb_property = (\<lambda>_. NoProperty), cb_refs = (\<lambda>_. 0)\<rparr>" "\<lambda>f :: nat. f = 7"
      "[ScriptRefs 1 1, ChangeCallback SetCallback 1 7, ScriptRefs 2 1, ChangeCallback SetCallback 2 8,
        ServerFails (mmc_server_new 8192 [104] 1 0 False 1 15)]" 2]
  by (simp add: run_callbacks_def php_mmc_failure_callback_def Let_def split: if_splits)

text \<open>
  A callback that was set is called for every failure until it is changed: with the host and the
  ports of the server and its error, NULL if it has none; if it cannot be called any
  more, it is taken away with a warning, once, and failures are reported by notices again.
\<close>

theorem failure_callback_called:
  "php_mmc_failure_callback callable mmc (php_mmc_set_failure_callback obj (Some f) st) =
     (if callable f
      then (CallUser f (m_host mmc) (st_port (m_tcp mmc)) (st_port (m_udp mmc)) (m_error mmc) (m_errnum mmc),
            php_mmc_set_failure_callback obj (Some f) st)
      else (InvalidCallback, php_mmc_set_failure_callback obj None (php_mmc_set_failure_callback obj (Some f) st))) \<and>
   (\<forall>st'. fst (php_mmc_failure_callback callable mmc (php_mmc_set_failure_callback obj None st')) =
      FailureNotice (m_host mmc) (st_port (m_tcp mmc)) (st_port (m_udp mmc)) (m_error mmc) (m_errnum mmc))"
  by (simp add: php_mmc_failure_callback_def Let_def)

end
