(* ===== verification/Spec2Isabelle.thy ===== *)
theory Spec2Isabelle
  imports Mmc_Queue Mmc_Standard_Hash Mmc_Consistent_Hash Mmc_Ascii Mmc_Binary_Responses Mmc_Rounds Mmc_Session_Lock Mmc_Lifetime Mmc_Callback
begin

text \<open>
  A model of pecl-memcache, the PHP extension that talks to memcached servers
  (\<^verbatim>\<open>src/*.c\<close> of the repository), and the theorems about it.

  \<^bold>\<open>The program.\<close> A PHP script, or the session module of PHP, calls a function of \<^verbatim>\<open>memcache.c\<close>
  or \<^verbatim>\<open>memcache_session.c\<close>. It prepares a key, lets a protocol build the request and hands it to
  the pool of \<^verbatim>\<open>memcache_pool.c\<close>, which finds the server of the key with a hash strategy, connects
  to it and queues the request. Rounds over all connections then send what is queued and let the
  protocol parse what arrives; the parser calls the handlers of the request, which put the answer
  into PHP variables. A server that fails is deactivated and its requests go to other servers.

  \<^bold>\<open>The theories,\<close> from the bottom up, with what they model and show.

  \<^item> \<open>Mmc_Prelude\<close>: machine integers, status codes, memory operations that stay in their block
    or give \<open>None\<close>, the texts of numbers, shared automation.
  \<^item> \<open>Mmc_Queue\<close> (\<^verbatim>\<open>memcache_queue.c\<close>): the ring buffer. It refines a queue without duplicates, the
    locale \<open>fifo_set\<close>, which the pool's own queues (\<open>'a fifo\<close>) also interpret.
  \<^item> \<open>Mmc_Hash\<close>, \<open>Mmc_Standard_Hash\<close>, \<open>Mmc_Consistent_Hash\<close>: FNV-1a and CRC32 (locale
    \<open>hash_function\<close>: hashing in parts is hashing the whole) and the two strategies (locale
    \<open>hash_strategy\<close>: a lookup finds the owner of a key and leaves all owners as they are). The
    binary search returns the owner on the ring, adding a server moves keys only to it.
  \<^item> \<open>Mmc_Key\<close>, \<open>Mmc_Value\<close>: the key that is sent, the prefixes, and how values are packed: what
    is packed is unpacked to the same value.
  \<^item> \<open>Mmc_Stream\<close>, \<open>Mmc_Request\<close>: the buffered readers of a connection; the locale
    \<open>incremental_parser\<close> states when a parser does not depend on how its input is cut.
  \<^item> \<open>Mmc_Ascii\<close>, \<open>Mmc_Binary\<close>, \<open>Mmc_Binary_Responses\<close>, \<open>Mmc_Protocols\<close>: both protocols, the
    commands they build and the parsers of the answers. A server reads a command as what it was
    built from, every value of an answer is delivered completely, in order and under its key,
    however the network cuts it.
  \<^item> \<open>Mmc_Server\<close>, \<open>Mmc_Pool\<close>, \<open>Mmc_Pool_Find\<close>, \<open>Mmc_Pool_Inv\<close>, \<open>Mmc_Pool_Total\<close>: servers, their
    two streams and datagrams, the pool with allocation, scheduling, failover and deactivation.
    The invariant \<open>pool_inv\<close> says how the queues of a server belong together; every operation
    keeps it, and scheduling returns with no request lost or duplicated.
  \<^item> \<open>Mmc_Select\<close>, \<open>Mmc_Rounds\<close>, \<open>Mmc_Run\<close>: the rounds with \<^verbatim>\<open>select\<close> or \<^verbatim>\<open>poll\<close>, what they wait
    for, and that a request on a working connection is sent and read to its end.
  \<^item> \<open>Mmc_Handlers\<close>, \<open>Mmc_Client\<close>, \<open>Mmc_Settings\<close>, \<open>Mmc_Servers\<close> (\<^verbatim>\<open>memcache.c\<close>): the handlers of
    the answers and of statistics, the functions for userspace, the INI settings, the list of
    persistent servers and the functions that add and change servers.
  \<^item> \<open>Mmc_Wire\<close>, \<open>Mmc_Exchange\<close>: whole commands, from the call to the returned value, over all of
    the above. The locale \<open>wire_protocol\<close> says what the commands need of a protocol: its parser is
    incremental, a command that is built awaits its answer, an answer is parsed to its end. What
    get, the storage commands, increment, decrement and delete return is shown in it once; both
    protocols interpret it.
  \<^item> \<open>Mmc_Session\<close>, \<open>Mmc_Session_Lock\<close> (\<^verbatim>\<open>memcache_session.c\<close>): the session handler, that what it
    reads was read under the lock, that reading returns, and that the lock excludes.
  \<^item> \<open>Mmc_Lifetime\<close>, \<open>Mmc_Callback\<close>: what is freed and closed and when, over a memory of what is
    allocated (the invariant \<open>life_inv\<close> of the step relation \<open>life\<close>: the memory holds exactly the
    servers of the pool and the persistent ones with their streams), and the failure callback with the
    reference the pool holds to the object of the script.

  \<^bold>\<open>State.\<close> A pool is the record \<open>mmc_pool_t\<close>. Pointers to servers and requests are addresses
  (\<open>nat\<close>) of the tables \<open>p_mmc\<close> and \<open>p_req\<close>, so that the aliasing of the code is in the model; the
  variables a handler writes to are the component \<open>p_user\<close>. Functions that may fault or not return
  have \<open>option\<close> results: \<open>None\<close> is a read or write outside of a buffer, a NULL dereference or a
  loop without end, and a theorem that something returns says \<open>Some\<close>.

  \<^bold>\<open>The environment\<close> is a parameter: \<open>mmc_env\<close> has the settings and what the network and the
  clock answer to each call, indexed by \<open>p_calls\<close>, \<open>php_runtime\<close> the serializer, zlib and the text of
  floating point numbers, \<open>zend_arrays\<close> the keys of PHP arrays, \<open>counts_lock\<close> the counting of a
  server. Laws about them are hypotheses with names, and each has a concrete instance.

  \<^bold>\<open>Bounds.\<close> Failover calls scheduling from within scheduling and rounds from within rounds. The
  calls are tied by \<open>pool_ops env pr n\<close>, \<open>n\<close> levels deep, \<open>None\<close> below; scheduling alone needs at
  most \<open>potential\<close> levels (\<open>Mmc_Pool_Total\<close>), a command on a working connection one. Loops whose
  end is not evident (\<open>run_loop\<close>, the parse loops, \<open>read_loop_session\<close>) are partial functions, and
  their end is proved where a property says that they return.

  \<^bold>\<open>Not modelled.\<close> Registration of the module, its classes, argument tables and \<^verbatim>\<open>phpinfo\<close>, which are
  tables for the engine; the parsing of PHP arguments; the body of the userspace failure callback,
  which runs PHP code; \<^verbatim>\<open>mmc_binary_hexdump\<close>, which prints and is not called; the freeing of single buffers,
  which go with their server or request; \<^verbatim>\<open>php_url_parse_ex\<close>, \<^verbatim>\<open>treat_data\<close>, the
  serializer and zlib, which are not part of the repository. The php_stream readers of a connection
  without a buffer of its own behave as the buffered ones and have no definitions of their own.
\<close>

end
